(* ===== verification/Lola_Prelude.thy ===== *)
theory Lola_Prelude
  imports Main "HOL-Library.Word" "HOL-Library.Monad_Syntax"
begin

text \<open>
  Shared vocabulary of the development.

  The fixed-width integers of the sources are words of the same width. A call that ends in
  \<^verbatim>\<open>std::terminate()\<close>, or in a failed \<^verbatim>\<open>SCORE_LANGUAGE_FUTURECPP_ASSERT_PRD\<close> or
  \<^verbatim>\<open>SCORE_LANGUAGE_FUTURECPP_PRECONDITION\<close>, is the value \<open>None\<close> of the option monad;
  every other outcome is \<open>Some\<close>. An error returned as \<^verbatim>\<open>score::Result\<close> is an
  ordinary value of a sum type.
\<close>

unbundle bit_operations_syntax

type_synonym u8 = "8 word"
type_synonym u16 = "16 word"
type_synonym u32 = "32 word"
type_synonym u64 = "64 word"

named_theorems cell_simps \<open>reading and writing the cells of a shared memory\<close>
named_theorems slot_simps \<open>predicates on control slot words\<close>
named_theorems log_simps \<open>transaction log operations\<close>

text \<open>A check that terminates the process when it fails.\<close>

definition assert_prd :: "bool \<Rightarrow> unit option" where
  "assert_prd b = (if b then Some () else None)"

lemma assert_prd_simps [simp]:
  "assert_prd True = Some ()"
  "assert_prd False = None"
  "assert_prd b = Some u \<longleftrightarrow> b"
  "assert_prd b = None \<longleftrightarrow> \<not> b"
  by (auto simp: assert_prd_def)

lemma bind_assert_prd [simp]:
  "(assert_prd b \<bind> f) = Some y \<longleftrightarrow> b \<and> f () = Some y"
  by (simp add: assert_prd_def)

lemma bind_eq_Some [simp]:
  "(x \<bind> f) = Some y \<longleftrightarrow> (\<exists>z. x = Some z \<and> f z = Some y)"
  by (simp add: bind_eq_Some_conv)

text \<open>The range of the machine integers.\<close>

lemma u8_less: "unat (x :: u8) < 2 ^ 8"
  using unsigned_less [of x] by simp

lemma u16_less: "unat (x :: u16) < 2 ^ 16"
  using unsigned_less [of x] by simp

end
