(* ===== verification/Atomics.thy ===== *)
theory Atomics
  imports Lola_Prelude
begin

text \<open>
  Shared memory, interference and the \<^verbatim>\<open>std::atomic\<close> operations the sources use.

  The lock-free routines run in several processes that map the same memory. A routine is
  modelled together with everything the other participants do while it runs: an
  \<^emph>\<open>environment\<close> says, for the \<open>n\<close>-th shared access of the routine, how the others
  changed the memory just before that access, and whether a weak compare-exchange at that
  access fails spuriously. Environments are unrestricted functions, so a fact proved for
  every environment covers every interleaving of the other participants, including one that
  corrupts the memory; a fact that needs well-behaved participants states what it relies on.

  A \<^emph>\<open>world\<close> is the number of shared accesses made so far, the memory, and the history
  of the routine's own writes as pairs of the memory before and after the write. A prefix
  of that history is what is left behind when the process crashes.
\<close>

record 'm environment =
  others :: "nat \<Rightarrow> 'm \<Rightarrow> 'm"
  spurious :: "nat \<Rightarrow> bool"

record 'm world =
  tick :: nat
  mem :: 'm
  own_steps :: "('m \<times> 'm) list"

definition start :: "'m \<Rightarrow> 'm world" where
  "start m = \<lparr>tick = 0, mem = m, own_steps = []\<rparr>"

text \<open>The environment in which no other participant runs and no exchange fails spuriously.\<close>

definition quiet :: "'m environment" where
  "quiet = \<lparr>others = (\<lambda>_ m. m), spurious = (\<lambda>_. False)\<rparr>"

text \<open>An atomic object living in the memory: how it is read and how it is written.\<close>

datatype ('m, 'v) cell = Cell (rd: "'m \<Rightarrow> 'v") (wr: "'v \<Rightarrow> 'm \<Rightarrow> 'm")

definition interfere :: "'m environment \<Rightarrow> 'm world \<Rightarrow> 'm world" where
  "interfere e w = w\<lparr>tick := Suc (tick w), mem := others e (tick w) (mem w)\<rparr>"

definition own_write :: "('m \<Rightarrow> 'm) \<Rightarrow> 'm world \<Rightarrow> 'm world" where
  "own_write f w = w\<lparr>mem := f (mem w), own_steps := own_steps w @ [(mem w, f (mem w))]\<rparr>"

definition load :: "'m environment \<Rightarrow> ('m, 'v) cell \<Rightarrow> 'm world \<Rightarrow> 'v \<times> 'm world" where
  "load e c w = (let w = interfere e w in (rd c (mem w), w))"

definition store :: "'m environment \<Rightarrow> ('m, 'v) cell \<Rightarrow> 'v \<Rightarrow> 'm world \<Rightarrow> 'm world" where
  "store e c v w = own_write (wr c v) (interfere e w)"

text \<open>
  The result of a compare-exchange is whether it succeeded and the value found in the cell,
  which is what the caller's expected value holds afterwards.
\<close>

definition compare_exchange_strong ::
  "'m environment \<Rightarrow> ('m, 'v) cell \<Rightarrow> 'v \<Rightarrow> 'v \<Rightarrow> 'm world \<Rightarrow> bool \<times> 'v \<times> 'm world" where
  "compare_exchange_strong e c expected desired w =
     (let w = interfere e w; found = rd c (mem w)
      in if found = expected then (True, found, own_write (wr c desired) w)
         else (False, found, w))"

definition compare_exchange_weak ::
  "'m environment \<Rightarrow> ('m, 'v) cell \<Rightarrow> 'v \<Rightarrow> 'v \<Rightarrow> 'm world \<Rightarrow> bool \<times> 'v \<times> 'm world" where
  "compare_exchange_weak e c expected desired w =
     (let fails = spurious e (tick w); w = interfere e w; found = rd c (mem w)
      in if found = expected \<and> \<not> fails then (True, found, own_write (wr c desired) w)
         else (False, found, w))"

definition fetch_modify ::
  "'m environment \<Rightarrow> ('m, 'v) cell \<Rightarrow> ('v \<Rightarrow> 'v) \<Rightarrow> 'm world \<Rightarrow> 'v \<times> 'm world" where
  "fetch_modify e c f w =
     (let w = interfere e w; found = rd c (mem w) in (found, own_write (wr c (f found)) w))"

abbreviation fetch_add where "fetch_add e c d \<equiv> fetch_modify e c (\<lambda>v. v + d)"
abbreviation fetch_sub where "fetch_sub e c d \<equiv> fetch_modify e c (\<lambda>v. v - d)"

subsection \<open>Frame facts\<close>

lemma start_simps [simp]:
  "tick (start m) = 0" "mem (start m) = m" "own_steps (start m) = []"
  by (simp_all add: start_def)

lemma quiet_simps [simp]: "others quiet t m = m" "spurious quiet t \<longleftrightarrow> False"
  by (simp_all add: quiet_def)

lemma interfere_simps [simp]:
  "tick (interfere e w) = Suc (tick w)"
  "mem (interfere e w) = others e (tick w) (mem w)"
  "own_steps (interfere e w) = own_steps w"
  by (simp_all add: interfere_def)

lemma own_write_simps [simp]:
  "tick (own_write f w) = tick w"
  "mem (own_write f w) = f (mem w)"
  "own_steps (own_write f w) = own_steps w @ [(mem w, f (mem w))]"
  by (simp_all add: own_write_def)

lemma load_simps [simp]:
  "fst (load e c w) = rd c (others e (tick w) (mem w))"
  "tick (snd (load e c w)) = Suc (tick w)"
  "mem (snd (load e c w)) = others e (tick w) (mem w)"
  "own_steps (snd (load e c w)) = own_steps w"
  by (simp_all add: load_def Let_def)

lemma load_quiet: "load quiet c w = (rd c (mem w), w\<lparr>tick := Suc (tick w)\<rparr>)"
  by (simp add: load_def interfere_def Let_def)

text \<open>
  Only the successful branch of a compare-exchange writes, and it writes to a memory whose
  cell holds the expected value. These are the facts every lock-free routine rests on.
\<close>

lemma compare_exchange_strong_success:
  assumes "compare_exchange_strong e c x y w = (ok, f, w')" ok
  shows "f = x" "\<exists>m. rd c m = x \<and> mem w' = wr c y m \<and> own_steps w' = own_steps w @ [(m, wr c y m)]"
  using assms by (auto simp: compare_exchange_strong_def Let_def split: if_splits)

lemma compare_exchange_strong_failure:
  assumes "compare_exchange_strong e c x y w = (ok, f, w')" "\<not> ok"
  shows "own_steps w' = own_steps w" "f \<noteq> x"
  using assms by (auto simp: compare_exchange_strong_def Let_def split: if_splits)

lemma compare_exchange_weak_success:
  assumes "compare_exchange_weak e c x y w = (ok, f, w')" ok
  shows "f = x" "\<exists>m. rd c m = x \<and> mem w' = wr c y m \<and> own_steps w' = own_steps w @ [(m, wr c y m)]"
  using assms by (auto simp: compare_exchange_weak_def Let_def split: if_splits)

lemma compare_exchange_weak_failure:
  assumes "compare_exchange_weak e c x y w = (ok, f, w')" "\<not> ok"
  shows "own_steps w' = own_steps w"
  using assms by (auto simp: compare_exchange_weak_def Let_def split: if_splits)

subsection \<open>Laws of atomic objects\<close>

text \<open>
  An atomic object keeps what is stored in it, and a span of atomic objects keeps its
  elements apart.
\<close>

locale atomic_object =
  fixes c :: "('m, 'v) cell"
  assumes rd_wr [cell_simps]: "rd c (wr c v m) = v"
    and wr_rd: "wr c (rd c m) m = m"
    and wr_wr [cell_simps]: "wr c v (wr c u m) = wr c v m"
begin

lemma strong_exchange_quiet:
  "compare_exchange_strong quiet c x y w =
     (if rd c (mem w) = x then (True, x, own_write (wr c y) (interfere quiet w))
      else (False, rd c (mem w), interfere quiet w))"
  by (simp add: compare_exchange_strong_def Let_def)

lemma exchanged_value:
  assumes "compare_exchange_strong e c x y w = (ok, f, w')" ok
  shows "rd c (mem w') = y"
  using compare_exchange_strong_success(2) [OF assms] by (auto simp: rd_wr)

lemma exchanged_value_weak:
  assumes "compare_exchange_weak e c x y w = (ok, f, w')" ok
  shows "rd c (mem w') = y"
  using compare_exchange_weak_success(2) [OF assms] by (auto simp: rd_wr)

end

locale atomic_span =
  fixes cells :: "nat \<Rightarrow> ('m, 'v) cell"
  assumes object: "atomic_object (cells i)"
    and apart [cell_simps]: "i \<noteq> j \<Longrightarrow> rd (cells i) (wr (cells j) v m) = rd (cells i) m"
begin

lemma rd_wr_span: "rd (cells i) (wr (cells j) v m) = (if i = j then v else rd (cells i) m)"
  by (simp add: apart atomic_object.rd_wr [OF object])

end

end
