(* ===== verification/Event_Slot_Status.thy ===== *)
theory Event_Slot_Status
  imports Lola_Prelude
begin

text \<open>
  \<^verbatim>\<open>score/mw/com/impl/bindings/lola/event_slot_status.h/.cpp\<close>: the control word of one
  event slot. It packs a 32-bit time stamp and a 32-bit reference count into the 64 bits that
  one atomic operation can change; two words are reserved as markers for a slot that was
  never written and for a slot that is being written.
\<close>

type_synonym event_slot_status = u64
type_synonym event_time_stamp = u32
type_synonym subscriber_count = u32

definition TIMESTAMP_MAX :: event_time_stamp where
  "TIMESTAMP_MAX = 0xFFFFFFFF"

definition INVALID_EVENT :: u64 where
  "INVALID_EVENT = 0"

definition IN_WRITING :: u64 where
  "IN_WRITING = 0xFFFFFFFF"

definition GetReferenceCount :: "event_slot_status \<Rightarrow> subscriber_count" where
  "GetReferenceCount d = ucast (d AND 0x00000000FFFFFFFF)"

definition GetTimeStamp :: "event_slot_status \<Rightarrow> event_time_stamp" where
  "GetTimeStamp d = ucast (drop_bit 32 d)"

definition IsInvalid :: "event_slot_status \<Rightarrow> bool" where
  "IsInvalid d \<longleftrightarrow> d = INVALID_EVENT"

definition IsInWriting :: "event_slot_status \<Rightarrow> bool" where
  "IsInWriting d \<longleftrightarrow> d = IN_WRITING"

definition MarkInWriting :: "event_slot_status \<Rightarrow> event_slot_status" where
  "MarkInWriting d = IN_WRITING"

definition MarkInvalid :: "event_slot_status \<Rightarrow> event_slot_status" where
  "MarkInvalid d = INVALID_EVENT"

text \<open>Setting the time stamp replaces the whole word: the reference count becomes 0.\<close>

definition SetTimeStamp :: "event_time_stamp \<Rightarrow> event_slot_status \<Rightarrow> event_slot_status" where
  "SetTimeStamp time_stamp d = push_bit 32 (ucast time_stamp)"

definition SetReferenceCount :: "subscriber_count \<Rightarrow> event_slot_status \<Rightarrow> event_slot_status" where
  "SetReferenceCount ref_count d = (d AND 0xFFFFFFFF00000000) OR ucast ref_count"

definition EventSlotStatus :: "event_time_stamp \<Rightarrow> subscriber_count \<Rightarrow> event_slot_status" where
  "EventSlotStatus timestamp refcount = SetReferenceCount refcount (SetTimeStamp timestamp 0)"

definition IsTimeStampBetween ::
  "event_time_stamp \<Rightarrow> event_time_stamp \<Rightarrow> event_slot_status \<Rightarrow> bool" where
  "IsTimeStampBetween min_timestamp max_timestamp d \<longleftrightarrow>
     \<not> IsInWriting d \<and> \<not> IsInvalid d \<and> GetTimeStamp d > min_timestamp \<and>
     GetTimeStamp d < max_timestamp"

definition IsUsed :: "event_slot_status \<Rightarrow> bool" where
  "IsUsed d \<longleftrightarrow> GetReferenceCount d \<noteq> 0 \<or> IsInWriting d"

subsection \<open>The word as a pair of numbers\<close>

lemma low_half_mask: "(0xFFFFFFFF :: u64) = mask 32"
  by (simp add: mask_eq_exp_minus_1)

lemma high_half_mask: "(0xFFFFFFFF00000000 :: u64) = NOT (mask 32)"
  by (simp add: mask_eq_exp_minus_1)

lemma u32_less: "unat (x :: u32) < 2 ^ 32"
  using unsigned_less [of x] by simp

lemma u64_less: "unat (x :: u64) < 2 ^ 64"
  using unsigned_less [of x] by simp

lemma unat_u32_max: "unat (- 1 :: u32) = 2 ^ 32 - 1"
  by (simp add: unsigned_minus_1_eq_mask mask_eq_exp_minus_1)

lemma unat_GetReferenceCount: "unat (GetReferenceCount d) = unat d mod 2 ^ 32"
  by (simp add: GetReferenceCount_def low_half_mask flip: take_bit_eq_mask)
    (simp add: unsigned_ucast_eq take_bit_eq_mod unat_mod_distrib)

lemma unat_GetTimeStamp: "unat (GetTimeStamp d) = unat d div 2 ^ 32"
proof -
  have "unat d div 2 ^ 32 < 2 ^ 32" using u64_less [of d] by (simp add: less_mult_imp_div_less)
  then show ?thesis
    by (simp add: GetTimeStamp_def unsigned_ucast_eq drop_bit_eq_div unat_div_distrib
        take_bit_nat_eq_self)
qed

lemma slot_word_eqI:
  assumes "GetTimeStamp a = GetTimeStamp b" "GetReferenceCount a = GetReferenceCount b"
  shows "a = b"
  using assms by (metis div_mod_decomp unat_GetReferenceCount unat_GetTimeStamp word_unat_eq_iff)

lemma GetTimeStamp_EventSlotStatus [simp]: "GetTimeStamp (EventSlotStatus ts rc) = ts"
  by (rule bit_word_eqI)
    (auto simp: GetTimeStamp_def EventSlotStatus_def SetReferenceCount_def SetTimeStamp_def
      high_half_mask bit_simps dest: bit_imp_le_length)

lemma GetReferenceCount_EventSlotStatus [simp]: "GetReferenceCount (EventSlotStatus ts rc) = rc"
  by (rule bit_word_eqI)
    (auto simp: GetReferenceCount_def EventSlotStatus_def SetReferenceCount_def SetTimeStamp_def
      high_half_mask low_half_mask bit_simps)

lemma EventSlotStatus_getters [simp]: "EventSlotStatus (GetTimeStamp d) (GetReferenceCount d) = d"
  by (rule slot_word_eqI) simp_all

lemma EventSlotStatus_inject [simp]:
  "EventSlotStatus t r = EventSlotStatus t' r' \<longleftrightarrow> t = t' \<and> r = r'"
  by (metis GetReferenceCount_EventSlotStatus GetTimeStamp_EventSlotStatus)

lemma slot_word_cases: obtains ts rc where "d = EventSlotStatus ts rc"
  by (metis EventSlotStatus_getters)

lemma unat_EventSlotStatus: "unat (EventSlotStatus ts rc) = unat ts * 2 ^ 32 + unat rc"
  by (metis GetReferenceCount_EventSlotStatus GetTimeStamp_EventSlotStatus div_mod_decomp
      unat_GetReferenceCount unat_GetTimeStamp)

subsection \<open>Markers\<close>

lemma marker_words [slot_simps]:
  "INVALID_EVENT = EventSlotStatus 0 0"
  "IN_WRITING = EventSlotStatus 0 (- 1)"
  by (simp_all add: word_unat_eq_iff unat_EventSlotStatus INVALID_EVENT_def IN_WRITING_def
      unat_u32_max)

lemma status_predicates [slot_simps]:
  "IsInvalid (EventSlotStatus ts rc) \<longleftrightarrow> ts = 0 \<and> rc = 0"
  "IsInWriting (EventSlotStatus ts rc) \<longleftrightarrow> ts = 0 \<and> rc = - 1"
  by (simp_all add: IsInvalid_def IsInWriting_def marker_words)

lemma IsUsed_iff [slot_simps]: "IsUsed d \<longleftrightarrow> GetReferenceCount d \<noteq> 0"
  by (cases d rule: slot_word_cases) (auto simp: IsUsed_def slot_simps)

lemma IN_WRITING_parts [simp]:
  "GetTimeStamp IN_WRITING = 0" "GetReferenceCount IN_WRITING = - 1" "IsInWriting IN_WRITING"
  "IsUsed IN_WRITING" "\<not> IsInvalid IN_WRITING"
  by (simp_all add: slot_simps)

lemma INVALID_EVENT_parts [simp]:
  "GetTimeStamp INVALID_EVENT = 0" "GetReferenceCount INVALID_EVENT = 0" "IsInvalid INVALID_EVENT"
  "\<not> IsUsed INVALID_EVENT" "\<not> IsInWriting INVALID_EVENT"
  by (simp_all add: slot_simps)

lemma ready_word [simp]:
  "\<not> IsInWriting (EventSlotStatus ts 0)" "\<not> IsUsed (EventSlotStatus ts 0)"
  by (simp_all add: slot_simps)

subsection \<open>Counting references by adding to the word\<close>

text \<open>
  The consumers change the reference count by adding 1 to, or subtracting 1 from, the whole
  word. The time stamp is untouched exactly as long as the count neither overflows nor
  underflows.
\<close>

lemma add_reference:
  assumes "rc \<noteq> - 1"
  shows "EventSlotStatus ts rc + 1 = EventSlotStatus ts (rc + 1)"
proof -
  have rc: "Suc (unat rc) < 2 ^ 32"
    using assms u32_less [of rc] by (auto simp: word_unat_eq_iff unat_u32_max)
  then have unat_rc: "unat (rc + 1) = Suc (unat rc)"
    by (simp add: unat_word_ariths)
  have "unat ts * 2 ^ 32 + unat rc + 1 < 2 ^ 64"
    using rc u32_less [of ts] by simp
  then show ?thesis
    using rc by (simp add: word_unat_eq_iff unat_EventSlotStatus unat_word_ariths unat_rc)
qed

lemma add_reference_overflow:
  "EventSlotStatus ts (- 1) + 1 = EventSlotStatus (ts + 1) 0"
  using mult_mod_left [of "Suc (unat ts)" "2 ^ 32" "2 ^ 32"]
  by (simp add: word_unat_eq_iff unat_EventSlotStatus unat_word_ariths unat_u32_max)

lemma sub_reference:
  assumes "rc \<noteq> 0"
  shows "EventSlotStatus ts rc - 1 = EventSlotStatus ts (rc - 1)"
  using add_reference [of "rc - 1" ts] assms by (metis add_diff_cancel_right' diff_add_cancel diff_0)

lemma reference_word_parts [slot_simps]:
  "GetReferenceCount d \<noteq> - 1 \<Longrightarrow> GetTimeStamp (d + 1) = GetTimeStamp d"
  "GetReferenceCount d \<noteq> - 1 \<Longrightarrow> GetReferenceCount (d + 1) = GetReferenceCount d + 1"
  "GetReferenceCount d \<noteq> 0 \<Longrightarrow> GetTimeStamp (d - 1) = GetTimeStamp d"
  "GetReferenceCount d \<noteq> 0 \<Longrightarrow> GetReferenceCount (d - 1) = GetReferenceCount d - 1"
  by (cases d rule: slot_word_cases; simp add: add_reference sub_reference)+

text \<open>A word with a positive time stamp is neither of the markers.\<close>

lemma IsTimeStampBetween_iff: "IsTimeStampBetween lo hi d \<longleftrightarrow> lo < GetTimeStamp d \<and> GetTimeStamp d < hi"
  by (cases d rule: slot_word_cases) (auto simp: IsTimeStampBetween_def slot_simps)

end
