(* ===== verification/Provider_Control.thy ===== *)
theory Provider_Control
  imports Atomics Event_Slot_Status
begin

text \<open>
  \<^verbatim>\<open>provider_event_data_control_local_view.h/.cpp\<close>: what a skeleton does with the control
  slots of an event. \<^verbatim>\<open>state_slots_\<close> is a span of atomic words in shared memory, here a
  function from slot indices to cells of the memory \<open>'m\<close> with the number of slots, which the
  sources keep as a 16-bit \<^verbatim>\<open>SlotIndexType\<close>.
\<close>

record 'm control_view =
  state_slots :: "nat \<Rightarrow> ('m, u64) cell"
  max_slots :: u16

abbreviation size_of :: "('m, 'z) control_view_scheme \<Rightarrow> nat" where
  "size_of v \<equiv> unat (max_slots v)"

record slot_info =
  slot_index :: nat
  slot_value :: u64

record provider_counters =
  num_alloc_misses :: u64
  num_alloc_retries :: u64

definition MAX_ALLOCATE_RETRIES :: nat where
  "MAX_ALLOCATE_RETRIES = 100"

fun FindOldestUnusedSlot_loop ::
  "'m environment \<Rightarrow> 'm control_view \<Rightarrow> nat list \<Rightarrow> event_time_stamp \<Rightarrow> slot_info option \<Rightarrow>
   'm world \<Rightarrow> slot_info option \<times> 'm world" where
  "FindOldestUnusedSlot_loop e v [] oldest_time_stamp info w = (info, w)"
| "FindOldestUnusedSlot_loop e v (i # is) oldest_time_stamp info w =
     (let (status, w) = load e (state_slots v i) w in
      if IsInvalid status then (Some \<lparr>slot_index = i, slot_value = status\<rparr>, w)
      else if GetReferenceCount status = 0 \<and> \<not> IsInWriting status \<and>
              GetTimeStamp status < oldest_time_stamp
      then FindOldestUnusedSlot_loop e v is (GetTimeStamp status)
             (Some \<lparr>slot_index = i, slot_value = status\<rparr>) w
      else FindOldestUnusedSlot_loop e v is oldest_time_stamp info w)"

definition FindOldestUnusedSlot ::
  "'m environment \<Rightarrow> 'm control_view \<Rightarrow> 'm world \<Rightarrow> slot_info option \<times> 'm world" where
  "FindOldestUnusedSlot e v w = FindOldestUnusedSlot_loop e v [0..<size_of v] TIMESTAMP_MAX None w"

definition SetSlotValue ::
  "'m environment \<Rightarrow> 'm control_view \<Rightarrow> slot_info \<Rightarrow> 'm world \<Rightarrow> 'm world option" where
  "SetSlotValue e v info w = do {
     assert_prd (slot_index info < size_of v);
     Some (store e (state_slots v (slot_index info)) (slot_value info) w)
   }"

definition EventReady ::
  "'m environment \<Rightarrow> 'm control_view \<Rightarrow> nat \<Rightarrow> event_time_stamp \<Rightarrow> 'm world \<Rightarrow> 'm world option" where
  "EventReady e v i time_stamp w = do {
     let initial = EventSlotStatus time_stamp 0;
     assert_prd (i < size_of v);
     Some (store e (state_slots v i) initial w)
   }"

definition Discard ::
  "'m environment \<Rightarrow> 'm control_view \<Rightarrow> nat \<Rightarrow> 'm world \<Rightarrow> 'm world option" where
  "Discard e v i w = do {
     assert_prd (i < size_of v);
     let (slot, w) = load e (state_slots v i) w;
     Some (if IsInWriting slot then store e (state_slots v i) (MarkInvalid slot) w else w)
   }"

definition TryAllocateSlot ::
  "'m environment \<Rightarrow> 'm control_view \<Rightarrow> slot_info \<Rightarrow> 'm world \<Rightarrow> (u64 option \<times> 'm world) option" where
  "TryAllocateSlot e v info w = do {
     assert_prd (slot_index info < size_of v);
     let in_writing_value = MarkInWriting 0;
     let (was_slot_allocated, old_slot_value, w) =
       compare_exchange_strong e (state_slots v (slot_index info)) (slot_value info) in_writing_value w;
     Some (if was_slot_allocated then Some old_slot_value else None, w)
   }"

definition slot_status_at ::
  "'m environment \<Rightarrow> 'm control_view \<Rightarrow> nat \<Rightarrow> 'm world \<Rightarrow> (event_slot_status \<times> 'm world) option" where
  "slot_status_at e v i w = do {
     assert_prd (i < size_of v);
     Some (load e (state_slots v i) w)
   }"

definition LogPerformanceMetrics :: "nat \<Rightarrow> provider_counters \<Rightarrow> provider_counters" where
  "LogPerformanceMetrics retry_counter c =
     (let c = c\<lparr>num_alloc_retries := num_alloc_retries c + of_nat retry_counter\<rparr>
      in if retry_counter \<ge> 100 then c\<lparr>num_alloc_misses := num_alloc_misses c + 1\<rparr> else c)"

definition ResetPerformanceCounters :: "provider_counters \<Rightarrow> provider_counters" where
  "ResetPerformanceCounters c = c\<lparr>num_alloc_misses := 0, num_alloc_retries := 0\<rparr>"

function AllocateNextSlot_loop ::
  "'m environment \<Rightarrow> 'm control_view \<Rightarrow> nat \<Rightarrow> 'm world \<Rightarrow> (nat option \<times> nat \<times> 'm world) option" where
  "AllocateNextSlot_loop e v retry_counter w =
     (if retry_counter \<le> MAX_ALLOCATE_RETRIES then
        (case FindOldestUnusedSlot e v w of
           (None, w) \<Rightarrow> AllocateNextSlot_loop e v (Suc retry_counter) w
         | (Some info, w) \<Rightarrow>
             (case TryAllocateSlot e v info w of
                None \<Rightarrow> None
              | Some (None, w) \<Rightarrow> AllocateNextSlot_loop e v (Suc retry_counter) w
              | Some (Some _, w) \<Rightarrow> Some (Some (slot_index info), retry_counter, w)))
      else Some (None, retry_counter, w))"
  by pat_completeness auto
termination
  by (relation "measure (\<lambda>(e, v, r, w). Suc MAX_ALLOCATE_RETRIES - r)") auto

declare AllocateNextSlot_loop.simps [simp del]

definition AllocateNextSlot ::
  "'m environment \<Rightarrow> 'm control_view \<Rightarrow> provider_counters \<Rightarrow> 'm world \<Rightarrow>
   (nat option \<times> provider_counters \<times> 'm world) option" where
  "AllocateNextSlot e v c w = do {
     (slot, retry_counter, w) \<leftarrow> AllocateNextSlot_loop e v 0 w;
     Some (slot, LogPerformanceMetrics retry_counter c, w)
   }"

fun RemoveAllocationsForWriting_loop ::
  "'m environment \<Rightarrow> 'm control_view \<Rightarrow> nat list \<Rightarrow> 'm world \<Rightarrow> 'm world option" where
  "RemoveAllocationsForWriting_loop e v [] w = Some w"
| "RemoveAllocationsForWriting_loop e v (i # is) w =
     (let (status, w) = load e (state_slots v i) w in
      if IsInWriting status then
        (case compare_exchange_strong e (state_slots v i) status 0 w of
           (False, _, w) \<Rightarrow> None
         | (True, _, w) \<Rightarrow> RemoveAllocationsForWriting_loop e v is w)
      else RemoveAllocationsForWriting_loop e v is w)"

definition RemoveAllocationsForWriting ::
  "'m environment \<Rightarrow> 'm control_view \<Rightarrow> 'm world \<Rightarrow> 'm world option" where
  "RemoveAllocationsForWriting e v w = RemoveAllocationsForWriting_loop e v [0..<size_of v] w"

subsection \<open>Searching a slot\<close>

lemma find_loop_own_steps [simp]:
  "own_steps (snd (FindOldestUnusedSlot_loop e v is t info w)) = own_steps w"
  by (induction e v "is" t info w rule: FindOldestUnusedSlot_loop.induct)
    (auto simp: load_def Let_def)

lemma find_loop_unused:
  assumes "FindOldestUnusedSlot_loop e v is t info w = (Some r, w')"
  shows "info = Some r \<or> slot_index r \<in> set is \<and> \<not> IsUsed (slot_value r)"
  using assms
proof (induction "is" arbitrary: t info w)
  case (Cons i "is")
  from Cons.prems show ?case
    by (auto simp: load_def Let_def IsUsed_def IsInvalid_def split: if_splits dest!: Cons.IH)
qed simp

lemma FindOldestUnusedSlot_own_steps [simp]:
  "FindOldestUnusedSlot e v w = (r, w') \<Longrightarrow> own_steps w' = own_steps w"
  using find_loop_own_steps by (metis FindOldestUnusedSlot_def snd_conv)

lemma FindOldestUnusedSlot_unused:
  assumes "FindOldestUnusedSlot e v w = (Some r, w')"
  shows "slot_index r < size_of v" "\<not> IsUsed (slot_value r)"
  using find_loop_unused [OF assms [unfolded FindOldestUnusedSlot_def]] by auto

text \<open>
  What the search means when nobody interferes: the first of the slots with the smallest time
  stamp among the unused ones. A slot whose time stamp is \<open>TIMESTAMP_MAX\<close> is never taken.
\<close>

definition is_oldest_unused :: "(nat \<Rightarrow> u64) \<Rightarrow> nat \<Rightarrow> slot_info option \<Rightarrow> bool" where
  "is_oldest_unused val n r \<longleftrightarrow>
     (case r of
        None \<Rightarrow> \<forall>i<n. IsUsed (val i) \<or> GetTimeStamp (val i) = TIMESTAMP_MAX
      | Some s \<Rightarrow>
          slot_index s < n \<and> slot_value s = val (slot_index s) \<and> \<not> IsUsed (slot_value s) \<and>
          GetTimeStamp (slot_value s) < TIMESTAMP_MAX \<and>
          (\<forall>j<n. \<not> IsUsed (val j) \<longrightarrow> GetTimeStamp (slot_value s) \<le> GetTimeStamp (val j)) \<and>
          (\<forall>j < slot_index s. \<not> IsUsed (val j) \<longrightarrow> GetTimeStamp (slot_value s) < GetTimeStamp (val j)))"

abbreviation slot_values :: "('m, 'z) control_view_scheme \<Rightarrow> 'm \<Rightarrow> nat \<Rightarrow> u64" where
  "slot_values v m \<equiv> \<lambda>i. rd (state_slots v i) m"

abbreviation oldest_stamp :: "slot_info option \<Rightarrow> event_time_stamp" where
  "oldest_stamp info \<equiv>
     (case info of None \<Rightarrow> TIMESTAMP_MAX | Some s \<Rightarrow> GetTimeStamp (slot_value s))"

lemma timestamp_le_max [simp]: "t \<le> TIMESTAMP_MAX"
  by (simp add: TIMESTAMP_MAX_def word_le_nat_alt) (use u32_less [of t] in simp)

lemma not_max_iff: "t \<noteq> TIMESTAMP_MAX \<longleftrightarrow> t < TIMESTAMP_MAX"
  using timestamp_le_max [of t] by (auto simp: order.strict_iff_order)

lemma is_oldest_unused_extend:
  assumes "is_oldest_unused val k info"
  shows "is_oldest_unused val (Suc k)
    (if \<not> IsUsed (val k) \<and> GetTimeStamp (val k) < oldest_stamp info
     then Some \<lparr>slot_index = k, slot_value = val k\<rparr> else info)"
  using assms
  by (cases info)
    (auto simp: is_oldest_unused_def less_Suc_eq not_max_iff not_less
      intro: order_trans less_imp_le dest: leD order.strict_trans1 order.strict_trans2)

lemma is_oldest_unused_invalid:
  assumes "IsInvalid (val k)" "k < n" "\<forall>j<k. \<not> IsInvalid (val j)"
  shows "is_oldest_unused val n (Some \<lparr>slot_index = k, slot_value = val k\<rparr>)"
proof -
  have "0 < GetTimeStamp (val j)" if "j < k" "\<not> IsUsed (val j)" for j
    using that assms(3) by (cases "val j" rule: slot_word_cases) (auto simp: slot_simps word_neq_0_conv)
  with assms(1,2) show ?thesis
    by (auto simp: is_oldest_unused_def IsInvalid_def TIMESTAMP_MAX_def)
qed

lemma find_loop_quiet:
  assumes "is_oldest_unused (slot_values v (mem w)) k info" "k \<le> n"
    and "\<forall>j<k. \<not> IsInvalid (slot_values v (mem w) j)"
  shows "\<exists>r d. FindOldestUnusedSlot_loop quiet v [k..<n] (oldest_stamp info) info w =
             (r, w\<lparr>tick := tick w + d\<rparr>) \<and> is_oldest_unused (slot_values v (mem w)) n r"
  using assms
proof (induction "n - k" arbitrary: k info w)
  case 0
  then show ?case by (auto intro: exI [of _ 0])
next
  case (Suc x)
  let ?val = "slot_values v (mem w)" and ?w = "w\<lparr>tick := Suc (tick w)\<rparr>"
  have k: "k < n" "[k..<n] = k # [Suc k..<n]" "x = n - Suc k"
    using Suc.hyps(2) by (auto simp: upt_conv_Cons)
  have w: "load quiet (state_slots v k) w = (?val k, ?w)"
    by (simp add: load_def interfere_def Let_def)
  show ?case
  proof (cases "IsInvalid (?val k)")
    case True
    then show ?thesis
      using is_oldest_unused_invalid [OF True k(1) Suc.prems(3)] k w by (auto intro: exI [of _ 1])
  next
    case False
    define info' where "info' =
      (if GetReferenceCount (?val k) = 0 \<and> \<not> IsInWriting (?val k) \<and> GetTimeStamp (?val k) < oldest_stamp info
       then Some \<lparr>slot_index = k, slot_value = ?val k\<rparr> else info)"
    have "is_oldest_unused (slot_values v (mem ?w)) (Suc k) info'"
      using is_oldest_unused_extend [OF Suc.prems(1)] False by (simp add: info'_def IsUsed_def IsInvalid_def)
    moreover have "\<forall>j<Suc k. \<not> IsInvalid (slot_values v (mem ?w) j)"
      using Suc.prems(3) False by (simp add: less_Suc_eq)
    ultimately obtain r d where
      "FindOldestUnusedSlot_loop quiet v [Suc k..<n] (oldest_stamp info') info' ?w = (r, ?w\<lparr>tick := tick ?w + d\<rparr>)"
      "is_oldest_unused ?val n r"
      using Suc.hyps(1) [of "Suc k" ?w info'] k(1,3) by auto
    then show ?thesis
      using False k(2) w by (auto simp: info'_def split: if_splits intro: exI [of _ "Suc d"])
  qed
qed

lemma FindOldestUnusedSlot_quiet:
  obtains r d where "FindOldestUnusedSlot quiet v w = (r, w\<lparr>tick := tick w + d\<rparr>)"
    "is_oldest_unused (slot_values v (mem w)) (size_of v) r"
  using find_loop_quiet [of v w 0 None "size_of v"]
  by (auto simp: FindOldestUnusedSlot_def is_oldest_unused_def)

subsection \<open>Allocating a slot\<close>

lemma TryAllocateSlot_cases [consumes 1, case_names taken lost]:
  assumes "slot_index info < size_of v"
  obtains (taken) m w' where
      "TryAllocateSlot e v info w = Some (Some (slot_value info), w')"
      "rd (state_slots v (slot_index info)) m = slot_value info"
      "mem w' = wr (state_slots v (slot_index info)) IN_WRITING m"
      "own_steps w' = own_steps w @ [(m, wr (state_slots v (slot_index info)) IN_WRITING m)]"
  | (lost) w' where "TryAllocateSlot e v info w = Some (None, w')" "own_steps w' = own_steps w"
proof -
  obtain ok f w' where x:
    "compare_exchange_strong e (state_slots v (slot_index info)) (slot_value info) IN_WRITING w = (ok, f, w')"
    by (metis prod_cases3)
  show thesis
  proof (cases ok)
    case True
    obtain m where "rd (state_slots v (slot_index info)) m = slot_value info"
      "mem w' = wr (state_slots v (slot_index info)) IN_WRITING m"
      "own_steps w' = own_steps w @ [(m, wr (state_slots v (slot_index info)) IN_WRITING m)]"
      using compare_exchange_strong_success(2) [OF x True] by blast
    moreover have "TryAllocateSlot e v info w = Some (Some (slot_value info), w')"
      using assms x True compare_exchange_strong_success(1) [OF x True]
      by (simp add: TryAllocateSlot_def MarkInWriting_def)
    ultimately show thesis by (rule taken [rotated])
  next
    case False
    with x assms have "TryAllocateSlot e v info w = Some (None, w')"
      by (simp add: TryAllocateSlot_def MarkInWriting_def)
    moreover have "own_steps w' = own_steps w"
      by (rule compare_exchange_strong_failure(1) [OF x False])
    ultimately show thesis by (rule lost)
  qed
qed

text \<open>
  The outcome of an allocation under any interference: the loop never terminates the process,
  writes at most once, and the one write turns a slot that is unused at that instant into one
  that is being written.
\<close>

definition allocated :: "'m control_view \<Rightarrow> 'm world \<Rightarrow> nat option \<Rightarrow> 'm world \<Rightarrow> bool" where
  "allocated v w slot w' \<longleftrightarrow>
     (case slot of
        None \<Rightarrow> own_steps w' = own_steps w
      | Some i \<Rightarrow> i < size_of v \<and>
          (\<exists>m. \<not> IsUsed (slot_values v m i) \<and> mem w' = wr (state_slots v i) IN_WRITING m \<and>
               own_steps w' = own_steps w @ [(m, mem w')]))"

lemma allocated_from: "own_steps w = own_steps w0 \<Longrightarrow> allocated v w = allocated v w0"
  by (auto simp: allocated_def fun_eq_iff split: option.splits)

lemma AllocateNextSlot_loop_allocated:
  assumes "r \<le> Suc MAX_ALLOCATE_RETRIES"
  shows "\<exists>slot r' w'. AllocateNextSlot_loop e v r w = Some (slot, r', w') \<and>
           allocated v w slot w' \<and> r \<le> r' \<and> r' \<le> Suc MAX_ALLOCATE_RETRIES \<and>
           (slot = None \<longleftrightarrow> r' = Suc MAX_ALLOCATE_RETRIES)"
  using assms
proof (induction "Suc MAX_ALLOCATE_RETRIES - r" arbitrary: r w)
  case 0
  then show ?case by (simp add: AllocateNextSlot_loop.simps [of _ _ r] allocated_def)
next
  case (Suc x)
  then have r: "r \<le> MAX_ALLOCATE_RETRIES" "Suc r \<le> Suc MAX_ALLOCATE_RETRIES"
    "x = Suc MAX_ALLOCATE_RETRIES - Suc r" by auto
  note unfold = AllocateNextSlot_loop.simps [of e v r w]
  have again: "\<exists>slot r' w''. AllocateNextSlot_loop e v (Suc r) w' = Some (slot, r', w'') \<and>
      allocated v w slot w'' \<and> r \<le> r' \<and> r' \<le> Suc MAX_ALLOCATE_RETRIES \<and>
      (slot = None \<longleftrightarrow> r' = Suc MAX_ALLOCATE_RETRIES)"
    if "own_steps w' = own_steps w" for w'
    using Suc.hyps(1) [OF r(3,2), of w'] allocated_from [OF that] by (metis Suc_leD)
  obtain info w1 where find: "FindOldestUnusedSlot e v w = (info, w1)" by fastforce
  show ?case
  proof (cases info)
    case None
    then show ?thesis using find r(1) again [of w1] unfold by (simp add: FindOldestUnusedSlot_own_steps)
  next
    case (Some s)
    note s = FindOldestUnusedSlot_unused [OF find [unfolded Some]]
      and w1 = FindOldestUnusedSlot_own_steps [OF find]
    from s(1) show ?thesis
    proof (cases rule: TryAllocateSlot_cases [where e = e and w = w1])
      case (taken m w')
      then show ?thesis using find Some r(1) s w1 unfold by (auto simp: allocated_def)
    next
      case (lost w')
      then show ?thesis using find Some r(1) w1 again [of w'] unfold by simp
    qed
  qed
qed

lemma AllocateNextSlot_allocated:
  obtains slot c' w' where "AllocateNextSlot e v c w = Some (slot, c', w')" "allocated v w slot w'"
  using AllocateNextSlot_loop_allocated [of 0 e v w] by (fastforce simp: AllocateNextSlot_def)

lemma AllocateNextSlot_loop_quiet:
  assumes "i < size_of v" "\<not> IsUsed (slot_values v (mem w) i)"
    and "GetTimeStamp (slot_values v (mem w) i) < TIMESTAMP_MAX"
  obtains s w' where "is_oldest_unused (slot_values v (mem w)) (size_of v) (Some s)"
    "AllocateNextSlot_loop quiet v 0 w = Some (Some (slot_index s), 0, w')"
    "mem w' = wr (state_slots v (slot_index s)) IN_WRITING (mem w)"
proof -
  obtain r d where find: "FindOldestUnusedSlot quiet v w = (r, w\<lparr>tick := tick w + d\<rparr>)"
    and spec: "is_oldest_unused (slot_values v (mem w)) (size_of v) r"
    by (rule FindOldestUnusedSlot_quiet)
  from spec assms obtain s where r: "r = Some s"
    by (cases r) (auto simp: is_oldest_unused_def)
  with spec have s: "slot_index s < size_of v" "slot_value s = slot_values v (mem w) (slot_index s)"
    by (auto simp: is_oldest_unused_def)
  let ?w = "own_write (wr (state_slots v (slot_index s)) IN_WRITING)
    (interfere quiet (w\<lparr>tick := tick w + d\<rparr>))"
  have "TryAllocateSlot quiet v s (w\<lparr>tick := tick w + d\<rparr>) = Some (Some (slot_value s), ?w)"
    using s by (simp add: TryAllocateSlot_def MarkInWriting_def compare_exchange_strong_def Let_def)
  with find r have "AllocateNextSlot_loop quiet v 0 w = Some (Some (slot_index s), 0, ?w)"
    by (simp add: AllocateNextSlot_loop.simps [of quiet v 0 w])
  then show thesis using that [of s ?w] spec r by simp
qed

subsection \<open>Cleaning up after a crashed provider\<close>

text \<open>Under any interference: only slots that are being written at that instant are changed.\<close>

lemma remove_loop_steps:
  assumes "RemoveAllocationsForWriting_loop e v is w = Some w'"
  shows "\<exists>ss. own_steps w' = own_steps w @ ss \<and>
    (\<forall>(m, m')\<in>set ss. \<exists>i\<in>set is. IsInWriting (slot_values v m i) \<and> m' = wr (state_slots v i) INVALID_EVENT m)"
  using assms
proof (induction "is" arbitrary: w)
  case (Cons i "is")
  obtain st w1 where ld: "load e (state_slots v i) w = (st, w1)" by fastforce
  then have w1: "own_steps w1 = own_steps w" by (metis load_simps(4) snd_conv)
  show ?case
  proof (cases "IsInWriting st")
    case True
    obtain ok f w2 where cas: "compare_exchange_strong e (state_slots v i) st 0 w1 = (ok, f, w2)"
      by (metis prod_cases3)
    with Cons.prems ld True have rest: "RemoveAllocationsForWriting_loop e v is w2 = Some w'" and ok
      by (auto split: bool.splits)
    obtain m where "slot_values v m i = st" "own_steps w2 = own_steps w @ [(m, wr (state_slots v i) 0 m)]"
      using compare_exchange_strong_success(2) [OF cas \<open>ok\<close>] w1 by auto
    with Cons.IH [OF rest] True show ?thesis by (fastforce simp: INVALID_EVENT_def)
  next
    case False
    with Cons.prems ld have "RemoveAllocationsForWriting_loop e v is w1 = Some w'" by simp
    from Cons.IH [OF this] show ?thesis by (auto simp: w1)
  qed
qed simp

lemma remove_loop_quiet:
  assumes "atomic_span (state_slots v)" "distinct is"
  shows "\<exists>w'. RemoveAllocationsForWriting_loop quiet v is w = Some w' \<and>
    (\<forall>j. slot_values v (mem w') j =
       (if j \<in> set is \<and> IsInWriting (slot_values v (mem w) j) then INVALID_EVENT else slot_values v (mem w) j))"
  using assms(2)
proof (induction "is" arbitrary: w)
  case (Cons i "is")
  define x where "x = slot_values v (mem w) i"
  define w1 where "w1 = snd (load quiet (state_slots v i) w)"
  have ld: "load quiet (state_slots v i) w = (x, w1)"
    by (simp add: w1_def x_def prod_eq_iff)
  have m1: "mem w1 = mem w" by (simp add: w1_def)
  show ?case
  proof (cases "IsInWriting x")
    case True
    define w2 where "w2 = own_write (wr (state_slots v i) 0) (interfere quiet w1)"
    have "compare_exchange_strong quiet (state_slots v i) x 0 w1 = (True, x, w2)"
      by (simp add: compare_exchange_strong_def Let_def m1 w2_def x_def)
    moreover have "slot_values v (mem w2) j = (if j = i then INVALID_EVENT else slot_values v (mem w) j)" for j
      using atomic_span.rd_wr_span [OF assms(1)] by (simp add: w2_def m1 INVALID_EVENT_def)
    ultimately show ?thesis
      using Cons.IH [of w2] Cons.prems True ld by (auto simp: x_def)
  next
    case False
    with Cons.IH [of w1] Cons.prems ld show ?thesis by (auto simp: m1 x_def)
  qed
qed simp

end
