(* ===== verification/Com_Error.thy ===== *)
theory Com_Error
  imports Lola_Prelude
begin

text \<open>
  \<^verbatim>\<open>score/mw/com/impl/com_error.h\<close>: the error codes of the communication API, and the
  result type of the operations that report them.
\<close>

datatype com_errc =
    kInvalid
  | kServiceNotAvailable
  | kMaxSamplesReached
  | kBindingFailure
  | kGrantEnforcementError
  | kPeerIsUnreachable
  | kFieldValueIsNotValid
  | kSetHandlerNotSet
  | kUnsetFailure
  | kSampleAllocationFailure
  | kIllegalUseOfAllocate
  | kServiceNotOffered
  | kCommunicationLinkError
  | kNoClients
  | kCommunicationStackError
  | kMaxSampleCountNotRealizable
  | kMaxSubscribersExceeded
  | kErroneousFileHandle
  | kCouldNotExecute
  | kInvalidInstanceIdentifierString
  | kInvalidBindingInformation
  | kEventNotExisting
  | kNotSubscribed
  | kInvalidConfiguration
  | kInvalidMetaModelShortname
  | kServiceInstanceAlreadyOffered
  | kCouldNotRestartProxy
  | kNotOffered
  | kInstanceIDCouldNotBeResolved
  | kFindServiceHandlerFailure
  | kInvalidHandle
  | kCallQueueFull
  | kServiceElementAlreadyExists
  | kNumEnumElements

type_synonym 'a result = "com_errc + 'a"

end
