(* ===== verification/Transaction_Log.thy ===== *)
theory Transaction_Log
  imports Atomics Com_Error
begin

text \<open>
  \<^verbatim>\<open>transaction_log_slot.h\<close>, \<^verbatim>\<open>transaction_log.h\<close> and
  \<^verbatim>\<open>transaction_log_local_view.cpp\<close>: the write-ahead log a proxy event keeps in shared
  memory, so that a restarted process can undo what its crashed predecessor had done. A
  transaction is opened by one bit and closed by the other.

  The log is reached through references into the shared memory, here the cells of
  \<open>transaction_log_view\<close>. Every access to one of them is an access to shared memory and
  gives the other threads of the process a chance to run first. Setting one of the two bits of a slot reads and
  writes the byte that holds both; it is one update here, since only the owner of a log writes to it.
\<close>

record transaction_log_slot =
  transaction_begin :: bool
  transaction_end :: bool

record 'm transaction_log_view =
  reference_count_slots :: "nat \<Rightarrow> ('m, transaction_log_slot) cell"
  reference_count_slots_size :: nat
  subscribe_transactions :: "('m, transaction_log_slot) cell"
  subscription_max_sample_count :: "('m, u16 option) cell"

type_synonym 'm callback = "nat \<Rightarrow> 'm world \<Rightarrow> 'm world option"

definition SetTransactionBegin ::
  "'m environment \<Rightarrow> ('m, transaction_log_slot) cell \<Rightarrow> bool \<Rightarrow> 'm world \<Rightarrow> 'm world" where
  "SetTransactionBegin e c b w = snd (fetch_modify e c (\<lambda>s. s\<lparr>transaction_begin := b\<rparr>) w)"

definition SetTransactionEnd ::
  "'m environment \<Rightarrow> ('m, transaction_log_slot) cell \<Rightarrow> bool \<Rightarrow> 'm world \<Rightarrow> 'm world" where
  "SetTransactionEnd e c b w = snd (fetch_modify e c (\<lambda>s. s\<lparr>transaction_end := b\<rparr>) w)"

definition GetTransactionBegin ::
  "'m environment \<Rightarrow> ('m, transaction_log_slot) cell \<Rightarrow> 'm world \<Rightarrow> bool \<times> 'm world" where
  "GetTransactionBegin e c w = (let (s, w) = load e c w in (transaction_begin s, w))"

definition GetTransactionEnd ::
  "'m environment \<Rightarrow> ('m, transaction_log_slot) cell \<Rightarrow> 'm world \<Rightarrow> bool \<times> 'm world" where
  "GetTransactionEnd e c w = (let (s, w) = load e c w in (transaction_end s, w))"

fun wait_for_transaction_end ::
  "nat \<Rightarrow> 'm environment \<Rightarrow> ('m, transaction_log_slot) cell \<Rightarrow> 'm world \<Rightarrow> 'm world option" where
  "wait_for_transaction_end 0 e c w = None"
| "wait_for_transaction_end (Suc retries) e c w =
     (let (ended, w) = GetTransactionEnd e c w
      in if \<not> ended then Some w else wait_for_transaction_end retries e c w)"

definition kRetryCount :: nat where
  "kRetryCount = 10"

definition WaitForTransactionEndToBecomeFalse ::
  "'m environment \<Rightarrow> ('m, transaction_log_slot) cell \<Rightarrow> 'm world \<Rightarrow> 'm world option" where
  "WaitForTransactionEndToBecomeFalse e c w = wait_for_transaction_end kRetryCount e c w"

fun DoesLogContainIncrementOrDecrementTransactions ::
  "'m environment \<Rightarrow> ('m, transaction_log_slot) cell list \<Rightarrow> 'm world \<Rightarrow> bool \<times> 'm world" where
  "DoesLogContainIncrementOrDecrementTransactions e [] w = (False, w)"
| "DoesLogContainIncrementOrDecrementTransactions e (c # cs) w =
     (let (b, w) = GetTransactionBegin e c w in
      if b then (True, w)
      else let (n, w) = GetTransactionEnd e c w in
        if n then (True, w) else DoesLogContainIncrementOrDecrementTransactions e cs w)"

abbreviation log_cells :: "'m transaction_log_view \<Rightarrow> ('m, transaction_log_slot) cell list" where
  "log_cells v \<equiv> map (reference_count_slots v) [0..<reference_count_slots_size v]"

text \<open>A precondition on the two bits of a slot, each read in turn.\<close>

definition require_bits ::
  "bool \<Rightarrow> bool \<Rightarrow> 'm environment \<Rightarrow> ('m, transaction_log_slot) cell \<Rightarrow> 'm world \<Rightarrow> 'm world option" where
  "require_bits b n e c w = do {
     let (begin_bit, w) = GetTransactionBegin e c w;
     assert_prd (begin_bit = b);
     let (end_bit, w) = GetTransactionEnd e c w;
     assert_prd (end_bit = n);
     Some w
   }"

text \<open>
  The sample count arrives as \<^verbatim>\<open>std::size_t\<close> and is stored as a 16-bit
  \<^verbatim>\<open>MaxSampleCountType\<close>: only its low 16 bits are kept.
\<close>

definition SubscribeTransactionBegin ::
  "'m environment \<Rightarrow> 'm transaction_log_view \<Rightarrow> u64 \<Rightarrow> 'm world \<Rightarrow> 'm world option" where
  "SubscribeTransactionBegin e v count w = do {
     w \<leftarrow> require_bits False False e (subscribe_transactions v) w;
     let w = SetTransactionBegin e (subscribe_transactions v) True w;
     Some (store e (subscription_max_sample_count v) (Some (ucast count)) w)
   }"

definition SubscribeTransactionCommit ::
  "'m environment \<Rightarrow> 'm transaction_log_view \<Rightarrow> 'm world \<Rightarrow> 'm world option" where
  "SubscribeTransactionCommit e v w = do {
     w \<leftarrow> require_bits True False e (subscribe_transactions v) w;
     Some (SetTransactionEnd e (subscribe_transactions v) True w)
   }"

definition SubscribeTransactionAbort ::
  "'m environment \<Rightarrow> 'm transaction_log_view \<Rightarrow> 'm world \<Rightarrow> 'm world option" where
  "SubscribeTransactionAbort e v w = do {
     w \<leftarrow> require_bits True False e (subscribe_transactions v) w;
     Some (SetTransactionBegin e (subscribe_transactions v) False w)
   }"

definition UnsubscribeTransactionBegin ::
  "'m environment \<Rightarrow> 'm transaction_log_view \<Rightarrow> 'm world \<Rightarrow> 'm world option" where
  "UnsubscribeTransactionBegin e v w = do {
     w \<leftarrow> require_bits True True e (subscribe_transactions v) w;
     Some (SetTransactionBegin e (subscribe_transactions v) False w)
   }"

definition UnsubscribeTransactionCommit ::
  "'m environment \<Rightarrow> 'm transaction_log_view \<Rightarrow> 'm world \<Rightarrow> 'm world option" where
  "UnsubscribeTransactionCommit e v w = do {
     w \<leftarrow> require_bits False True e (subscribe_transactions v) w;
     let w = store e (subscription_max_sample_count v) None w;
     Some (SetTransactionEnd e (subscribe_transactions v) False w)
   }"

definition ReferenceTransactionBegin ::
  "'m environment \<Rightarrow> 'm transaction_log_view \<Rightarrow> nat \<Rightarrow> 'm world \<Rightarrow> 'm world option" where
  "ReferenceTransactionBegin e v i w = do {
     assert_prd (i < reference_count_slots_size v);
     let slot = reference_count_slots v i;
     let (begin_bit, w) = GetTransactionBegin e slot w;
     assert_prd (\<not> begin_bit);
     w \<leftarrow> WaitForTransactionEndToBecomeFalse e slot w;
     Some (SetTransactionBegin e slot True w)
   }"

definition ReferenceTransactionCommit ::
  "'m environment \<Rightarrow> 'm transaction_log_view \<Rightarrow> nat \<Rightarrow> 'm world \<Rightarrow> 'm world option" where
  "ReferenceTransactionCommit e v i w = do {
     assert_prd (i < reference_count_slots_size v);
     let slot = reference_count_slots v i;
     let (begin_bit, w) = GetTransactionBegin e slot w;
     assert_prd begin_bit;
     w \<leftarrow> WaitForTransactionEndToBecomeFalse e slot w;
     Some (SetTransactionEnd e slot True w)
   }"

definition ReferenceTransactionAbort ::
  "'m environment \<Rightarrow> 'm transaction_log_view \<Rightarrow> nat \<Rightarrow> 'm world \<Rightarrow> 'm world option" where
  "ReferenceTransactionAbort e v i w = do {
     assert_prd (i < reference_count_slots_size v);
     let slot = reference_count_slots v i;
     let (begin_bit, w) = GetTransactionBegin e slot w;
     assert_prd begin_bit;
     w \<leftarrow> WaitForTransactionEndToBecomeFalse e slot w;
     Some (SetTransactionBegin e slot False w)
   }"

definition DereferenceTransactionBegin ::
  "'m environment \<Rightarrow> 'm transaction_log_view \<Rightarrow> nat \<Rightarrow> 'm world \<Rightarrow> 'm world option" where
  "DereferenceTransactionBegin e v i w = do {
     assert_prd (i < reference_count_slots_size v);
     let slot = reference_count_slots v i;
     w \<leftarrow> require_bits True True e slot w;
     Some (SetTransactionBegin e slot False w)
   }"

definition DereferenceTransactionCommit ::
  "'m environment \<Rightarrow> 'm transaction_log_view \<Rightarrow> nat \<Rightarrow> 'm world \<Rightarrow> 'm world option" where
  "DereferenceTransactionCommit e v i w = do {
     assert_prd (i < reference_count_slots_size v);
     let slot = reference_count_slots v i;
     w \<leftarrow> require_bits False True e slot w;
     Some (SetTransactionEnd e slot False w)
   }"

text \<open>
  A conjunction of conditions on the two bits of a slot: the second bit is read only if the
  condition on the first holds.
\<close>

definition has_bits ::
  "bool \<Rightarrow> bool \<Rightarrow> 'm environment \<Rightarrow> ('m, transaction_log_slot) cell \<Rightarrow> 'm world \<Rightarrow> bool \<times> 'm world" where
  "has_bits b n e c w =
     (let (begin_bit, w) = GetTransactionBegin e c w in
      if begin_bit = b then let (end_bit, w) = GetTransactionEnd e c w in (end_bit = n, w)
      else (False, w))"

fun RollbackIncrementTransactions_loop ::
  "'m environment \<Rightarrow> 'm transaction_log_view \<Rightarrow> 'm callback \<Rightarrow> nat list \<Rightarrow> 'm world \<Rightarrow>
   (unit result \<times> 'm world) option" where
  "RollbackIncrementTransactions_loop e v dereference_slot_callback [] w = Some (Inr (), w)"
| "RollbackIncrementTransactions_loop e v dereference_slot_callback (i # is) w =
     (let slot = reference_count_slots v i;
          (was_slot_incremented, w) = has_bits True True e slot w;
          (crash_while_incrementing, w) = has_bits True False e slot w;
          (crash_while_decrementing, w) = has_bits False True e slot w in
      if was_slot_incremented then do {
        w \<leftarrow> DereferenceTransactionBegin e v i w;
        w \<leftarrow> dereference_slot_callback i w;
        w \<leftarrow> DereferenceTransactionCommit e v i w;
        RollbackIncrementTransactions_loop e v dereference_slot_callback is w
      }
      else if crash_while_incrementing then Some (Inl kCouldNotRestartProxy, w)
      else if crash_while_decrementing then Some (Inl kCouldNotRestartProxy, w)
      else RollbackIncrementTransactions_loop e v dereference_slot_callback is w)"

definition RollbackIncrementTransactions ::
  "'m environment \<Rightarrow> 'm transaction_log_view \<Rightarrow> 'm callback \<Rightarrow> 'm world \<Rightarrow> (unit result \<times> 'm world) option" where
  "RollbackIncrementTransactions e v dereference_slot_callback w =
     RollbackIncrementTransactions_loop e v dereference_slot_callback
       [0..<reference_count_slots_size v] w"

definition RollbackSubscribeTransactions ::
  "'m environment \<Rightarrow> 'm transaction_log_view \<Rightarrow> 'm callback \<Rightarrow> 'm world \<Rightarrow> (unit result \<times> 'm world) option" where
  "RollbackSubscribeTransactions e v unsubscribe_callback w =
     (let slot = subscribe_transactions v;
          (was_subscribe_recorded, w) = has_bits True True e slot w;
          (crash_while_subscribing, w) = has_bits True False e slot w;
          (crash_while_unsubscribing, w) = has_bits False True e slot w in
      if was_subscribe_recorded then do {
        w \<leftarrow> UnsubscribeTransactionBegin e v w;
        let (count, w) = load e (subscription_max_sample_count v) w;
        count \<leftarrow> count;
        w \<leftarrow> unsubscribe_callback (unat count) w;
        w \<leftarrow> UnsubscribeTransactionCommit e v w;
        Some (Inr (), w)
      }
      else if crash_while_subscribing then Some (Inl kCouldNotRestartProxy, w)
      else if crash_while_unsubscribing then Some (Inl kCouldNotRestartProxy, w)
      else Some (Inr (), w))"

definition RollbackProxyElementLog ::
  "'m environment \<Rightarrow> 'm transaction_log_view \<Rightarrow> 'm callback \<Rightarrow> 'm callback \<Rightarrow> 'm world \<Rightarrow>
   (unit result \<times> 'm world) option" where
  "RollbackProxyElementLog e v dereference_slot_callback unsubscribe_callback w = do {
     let (was_no_subscribe_recorded, w) = has_bits False False e (subscribe_transactions v) w;
     w \<leftarrow> (if was_no_subscribe_recorded
          then let (contains, w) = DoesLogContainIncrementOrDecrementTransactions e (log_cells v) w
               in do { assert_prd (\<not> contains); Some w }
          else Some w);
     (result, w) \<leftarrow> RollbackIncrementTransactions e v dereference_slot_callback w;
     case result of
       Inl err \<Rightarrow> Some (Inl err, w)
     | Inr _ \<Rightarrow> RollbackSubscribeTransactions e v unsubscribe_callback w
   }"

definition RollbackSkeletonTracingElementLog ::
  "'m environment \<Rightarrow> 'm transaction_log_view \<Rightarrow> 'm callback \<Rightarrow> 'm world \<Rightarrow> (unit result \<times> 'm world) option" where
  "RollbackSkeletonTracingElementLog e v dereference_slot_callback w =
     RollbackIncrementTransactions e v dereference_slot_callback w"

definition ContainsTransactions ::
  "'m environment \<Rightarrow> 'm transaction_log_view \<Rightarrow> 'm world \<Rightarrow> bool \<times> 'm world" where
  "ContainsTransactions e v w =
     (let (no_subscribe_transaction, w) = has_bits False False e (subscribe_transactions v) w in
      if \<not> no_subscribe_transaction then (True, w)
      else DoesLogContainIncrementOrDecrementTransactions e (log_cells v) w)"

subsection \<open>The bits of a slot as a four-state automaton\<close>

abbreviation bits :: "bool \<Rightarrow> bool \<Rightarrow> transaction_log_slot" where
  "bits b n \<equiv> \<lparr>transaction_begin = b, transaction_end = n\<rparr>"

abbreviation log_entry :: "'m transaction_log_view \<Rightarrow> 'm \<Rightarrow> nat \<Rightarrow> transaction_log_slot" where
  "log_entry v m i \<equiv> rd (reference_count_slots v i) m"

text \<open>Nobody but the owner of the log changes it.\<close>

definition log_private :: "'m environment \<Rightarrow> 'm transaction_log_view \<Rightarrow> bool" where
  "log_private e v \<longleftrightarrow>
     (\<forall>t m. (\<forall>i. log_entry v (others e t m) i = log_entry v m i) \<and>
            rd (subscribe_transactions v) (others e t m) = rd (subscribe_transactions v) m \<and>
            rd (subscription_max_sample_count v) (others e t m) = rd (subscription_max_sample_count v) m)"

lemma log_privateD [simp]:
  assumes "log_private e v"
  shows "log_entry v (others e t m) i = log_entry v m i"
    "rd (subscribe_transactions v) (others e t m) = rd (subscribe_transactions v) m"
    "rd (subscription_max_sample_count v) (others e t m) = rd (subscription_max_sample_count v) m"
  using assms by (simp_all add: log_private_def)

lemma log_private_quiet [simp]: "log_private quiet v"
  by (simp add: log_private_def)

lemma bit_access_simps [simp]:
  "fst (GetTransactionBegin e c w) = transaction_begin (rd c (others e (tick w) (mem w)))"
  "fst (GetTransactionEnd e c w) = transaction_end (rd c (others e (tick w) (mem w)))"
  "snd (GetTransactionBegin e c w) = interfere e w"
  "snd (GetTransactionEnd e c w) = interfere e w"
  by (simp_all add: GetTransactionBegin_def GetTransactionEnd_def load_def Let_def split_beta)

lemma has_bits_steps [simp]:
  "own_steps (snd (has_bits b n e c w)) = own_steps w"
  by (simp add: has_bits_def split_beta Let_def)

lemma has_bits_private [simp]:
  assumes "log_private e v"
  shows "fst (has_bits b n e (reference_count_slots v i) w) \<longleftrightarrow> log_entry v (mem w) i = bits b n"
    "fst (has_bits b n e (subscribe_transactions v) w) \<longleftrightarrow> rd (subscribe_transactions v) (mem w) = bits b n"
    "log_entry v (mem (snd (has_bits b n e c w))) j = log_entry v (mem w) j"
    "rd (subscribe_transactions v) (mem (snd (has_bits b n e c w))) = rd (subscribe_transactions v) (mem w)"
    "rd (subscription_max_sample_count v) (mem (snd (has_bits b n e c w))) =
       rd (subscription_max_sample_count v) (mem w)"
  using assms by (auto simp: has_bits_def split_beta Let_def)

lemma bit_update_simps [simp]:
  "mem (SetTransactionBegin e c b w) =
     (let m = others e (tick w) (mem w) in wr c ((rd c m)\<lparr>transaction_begin := b\<rparr>) m)"
  "mem (SetTransactionEnd e c b w) =
     (let m = others e (tick w) (mem w) in wr c ((rd c m)\<lparr>transaction_end := b\<rparr>) m)"
  "own_steps (SetTransactionBegin e c b w) =
     own_steps w @ [(others e (tick w) (mem w), mem (SetTransactionBegin e c b w))]"
  "own_steps (SetTransactionEnd e c b w) =
     own_steps w @ [(others e (tick w) (mem w), mem (SetTransactionEnd e c b w))]"
  by (simp_all add: SetTransactionBegin_def SetTransactionEnd_def fetch_modify_def Let_def)

lemma wait_own_steps:
  "wait_for_transaction_end k e c w = Some w' \<Longrightarrow> own_steps w' = own_steps w"
  by (induction k arbitrary: w) (auto simp: Let_def split_beta split: if_splits)

lemma wait_quiet: "wait_for_transaction_end k quiet c w = Some w' \<Longrightarrow> mem w' = mem w"
  by (induction k arbitrary: w) (auto simp: Let_def split_beta split: if_splits)

lemma contains_loop_quiet:
  "\<exists>d. DoesLogContainIncrementOrDecrementTransactions quiet cs w =
     (\<exists>c\<in>set cs. rd c (mem w) \<noteq> bits False False, w\<lparr>tick := tick w + d\<rparr>)"
proof (induction cs arbitrary: w)
  case Nil
  show ?case by (auto intro: exI [of _ 0])
next
  case (Cons c cs)
  obtain b n where c: "rd c (mem w) = bits b n" by (rule transaction_log_slot.cases)
  show ?case
    using Cons.IH [of "w\<lparr>tick := tick w + 2\<rparr>"]
    by (cases b; cases n)
      (auto simp: GetTransactionBegin_def GetTransactionEnd_def load_quiet Let_def c
        intro: exI [of _ 1] exI [of _ 2] exI [of _ "Suc (Suc _)"])
qed

lemma ContainsTransactions_quiet:
  obtains d where "ContainsTransactions quiet v w =
    (rd (subscribe_transactions v) (mem w) \<noteq> bits False False \<or>
       (\<exists>i<reference_count_slots_size v. log_entry v (mem w) i \<noteq> bits False False), w\<lparr>tick := tick w + d\<rparr>)"
proof -
  obtain b n where c: "rd (subscribe_transactions v) (mem w) = bits b n" by (rule transaction_log_slot.cases)
  obtain d where "DoesLogContainIncrementOrDecrementTransactions quiet (log_cells v) (w\<lparr>tick := tick w + 2\<rparr>) =
     (\<exists>c\<in>set (log_cells v). rd c (mem w) \<noteq> bits False False, w\<lparr>tick := tick w + 2 + d\<rparr>)"
    using contains_loop_quiet [of "log_cells v" "w\<lparr>tick := tick w + 2\<rparr>"] by auto
  then show thesis
    using that [of 1] that [of 2] that [of "2 + d"]
    by (cases b; cases n)
      (auto simp: ContainsTransactions_def has_bits_def GetTransactionBegin_def GetTransactionEnd_def load_quiet
        Let_def c Bex_def)
qed

text \<open>Rolling back a log without transactions does nothing.\<close>

lemma has_bits_quiet:
  "\<exists>d. has_bits b n quiet c w = (rd c (mem w) = bits b n, w\<lparr>tick := tick w + d\<rparr>)"
  by (auto simp: has_bits_def GetTransactionBegin_def GetTransactionEnd_def load_quiet Let_def
      intro: exI [of _ 1] exI [of _ 2])

lemma three_tests_quiet:
  obtains d1 d2 d3 where
    "has_bits True True quiet c w = (rd c (mem w) = bits True True, w\<lparr>tick := tick w + d1\<rparr>)"
    "has_bits True False quiet c (w\<lparr>tick := tick w + d1\<rparr>) =
      (rd c (mem w) = bits True False, w\<lparr>tick := tick w + d2\<rparr>)"
    "has_bits False True quiet c (w\<lparr>tick := tick w + d2\<rparr>) =
      (rd c (mem w) = bits False True, w\<lparr>tick := tick w + d3\<rparr>)"
proof -
  obtain d1 where 1: "has_bits True True quiet c w = (rd c (mem w) = bits True True, w\<lparr>tick := tick w + d1\<rparr>)"
    using has_bits_quiet by blast
  obtain d2 where 2: "has_bits True False quiet c (w\<lparr>tick := tick w + d1\<rparr>) =
      (rd c (mem w) = bits True False, w\<lparr>tick := tick w + (d1 + d2)\<rparr>)"
    using has_bits_quiet [of True False c "w\<lparr>tick := tick w + d1\<rparr>"] by (auto simp: add.assoc)
  obtain d3 where "has_bits False True quiet c (w\<lparr>tick := tick w + (d1 + d2)\<rparr>) =
      (rd c (mem w) = bits False True, w\<lparr>tick := tick w + (d1 + d2 + d3)\<rparr>)"
    using has_bits_quiet [of False True c "w\<lparr>tick := tick w + (d1 + d2)\<rparr>"] by (auto simp: add.assoc)
  from that [OF 1 2 this] show thesis .
qed

lemma rollback_loop_empty:
  assumes "\<forall>i\<in>set is. log_entry v (mem w) i = bits False False"
  shows "\<exists>d. RollbackIncrementTransactions_loop quiet v f is w = Some (Inr (), w\<lparr>tick := tick w + d\<rparr>)"
  using assms
proof (induction "is" arbitrary: w)
  case Nil
  show ?case by (auto intro: exI [of _ 0])
next
  case (Cons i "is")
  obtain d1 d2 d3 where tests:
    "has_bits True True quiet (reference_count_slots v i) w = (False, w\<lparr>tick := tick w + d1\<rparr>)"
    "has_bits True False quiet (reference_count_slots v i) (w\<lparr>tick := tick w + d1\<rparr>) = (False, w\<lparr>tick := tick w + d2\<rparr>)"
    "has_bits False True quiet (reference_count_slots v i) (w\<lparr>tick := tick w + d2\<rparr>) = (False, w\<lparr>tick := tick w + d3\<rparr>)"
    using three_tests_quiet [of "reference_count_slots v i" w] Cons.prems by auto
  obtain d where "RollbackIncrementTransactions_loop quiet v f is (w\<lparr>tick := tick w + d3\<rparr>) =
      Some (Inr (), w\<lparr>tick := tick w + (d3 + d)\<rparr>)"
    using Cons.IH [of "w\<lparr>tick := tick w + d3\<rparr>"] Cons.prems by (auto simp: add.assoc)
  then show ?case by (auto simp: tests)
qed

text \<open>A log without transactions, and its rollback, which does nothing.\<close>

definition log_empty :: "'m transaction_log_view \<Rightarrow> 'm \<Rightarrow> bool" where
  "log_empty log m \<longleftrightarrow> rd (subscribe_transactions log) m = bits False False \<and>
     (\<forall>i<reference_count_slots_size log. log_entry log m i = bits False False)"

lemma RollbackProxyElementLog_empty:
  assumes "log_empty v (mem w)"
  shows "\<exists>d. RollbackProxyElementLog quiet v f g w = Some (Inr (), w\<lparr>tick := tick w + d\<rparr>)"
proof -
  obtain d1 where 1: "has_bits False False quiet (subscribe_transactions v) w = (True, w\<lparr>tick := tick w + d1\<rparr>)"
    using has_bits_quiet [of False False "subscribe_transactions v" w] assms by (auto simp: log_empty_def)
  obtain d2 where 2: "DoesLogContainIncrementOrDecrementTransactions quiet (log_cells v) (w\<lparr>tick := tick w + d1\<rparr>) =
      (False, w\<lparr>tick := tick w + d2\<rparr>)"
    using contains_loop_quiet [of "log_cells v" "w\<lparr>tick := tick w + d1\<rparr>"] assms
    by (auto simp: log_empty_def add.assoc)
  obtain d3 where 3: "RollbackIncrementTransactions_loop quiet v f [0..<reference_count_slots_size v]
      (w\<lparr>tick := tick w + d2\<rparr>) = Some (Inr (), w\<lparr>tick := tick w + d3\<rparr>)"
    using rollback_loop_empty [of "[0..<reference_count_slots_size v]" v "w\<lparr>tick := tick w + d2\<rparr>" f] assms
    by (auto simp: log_empty_def add.assoc)
  define w3 where "w3 = w\<lparr>tick := tick w + d3\<rparr>"
  have sub: "rd (subscribe_transactions v) (mem w3) = bits False False"
    using assms by (simp add: w3_def log_empty_def)
  obtain d4 d5 d6 where tests:
    "has_bits True True quiet (subscribe_transactions v) w3 = (False, w3\<lparr>tick := tick w3 + d4\<rparr>)"
    "has_bits True False quiet (subscribe_transactions v) (w3\<lparr>tick := tick w3 + d4\<rparr>) = (False, w3\<lparr>tick := tick w3 + d5\<rparr>)"
    "has_bits False True quiet (subscribe_transactions v) (w3\<lparr>tick := tick w3 + d5\<rparr>) = (False, w3\<lparr>tick := tick w3 + d6\<rparr>)"
    using three_tests_quiet [of "subscribe_transactions v" w3] by (auto simp: sub)
  have "RollbackProxyElementLog quiet v f g w = Some (Inr (), w3\<lparr>tick := tick w3 + d6\<rparr>)"
    by (simp add: RollbackProxyElementLog_def RollbackIncrementTransactions_def RollbackSubscribeTransactions_def
        1 2 3 tests flip: w3_def)
  then show ?thesis by (auto simp: w3_def add.assoc)
qed

lemma wait_private:
  assumes "log_private e v" "c = reference_count_slots v i" "0 < k"
  shows "transaction_end (rd c (mem w)) \<Longrightarrow> wait_for_transaction_end k e c w = None"
    and "\<not> transaction_end (rd c (mem w)) \<Longrightarrow> wait_for_transaction_end k e c w = Some (interfere e w)"
proof -
  show "wait_for_transaction_end k e c w = None" if "transaction_end (rd c (mem w))"
    using that by (induction k arbitrary: w) (auto simp: Let_def split_beta assms)
  show "wait_for_transaction_end k e c w = Some (interfere e w)" if "\<not> transaction_end (rd c (mem w))"
    using that assms by (cases k) (auto simp: Let_def split_beta)
qed

lemmas transaction_defs =
  ReferenceTransactionBegin_def ReferenceTransactionCommit_def ReferenceTransactionAbort_def
  DereferenceTransactionBegin_def DereferenceTransactionCommit_def
  WaitForTransactionEndToBecomeFalse_def require_bits_def kRetryCount_def

text \<open>
  Each operation is one step of the automaton: it runs exactly from one state of the entry,
  leaves the entry in the next one, and touches nothing else of the log.
\<close>

definition moves ::
  "'m transaction_log_view \<Rightarrow> ('m world \<Rightarrow> 'm world option) \<Rightarrow> nat \<Rightarrow> transaction_log_slot \<Rightarrow> transaction_log_slot \<Rightarrow> 'm world \<Rightarrow> bool" where
  "moves v f i s s' w \<longleftrightarrow>
     (if log_entry v (mem w) i = s then
        (\<exists>w' m. f w = Some w' \<and> own_steps w' = own_steps w @ [(m, mem w')] \<and>
           mem w' = wr (reference_count_slots v i) s' m \<and>
           (\<forall>j. log_entry v (mem w') j = (if j = i then s' else log_entry v (mem w) j)) \<and>
           rd (subscribe_transactions v) (mem w') = rd (subscribe_transactions v) (mem w) \<and>
           rd (subscription_max_sample_count v) (mem w') = rd (subscription_max_sample_count v) (mem w))
      else f w = None)"

text \<open>
  The cells of a log are distinct objects of the memory.
\<close>

locale log_memory =
  fixes v :: "'m transaction_log_view"
  assumes span: "atomic_span (reference_count_slots v)"
    and subscribe_object: "atomic_object (subscribe_transactions v)"
    and count_object: "atomic_object (subscription_max_sample_count v)"
    and apart_laws [simp]:
      "rd (reference_count_slots v i) (wr (subscribe_transactions v) s m) = rd (reference_count_slots v i) m"
      "rd (reference_count_slots v i) (wr (subscription_max_sample_count v) n m) = rd (reference_count_slots v i) m"
      "rd (subscribe_transactions v) (wr (reference_count_slots v i) s m) = rd (subscribe_transactions v) m"
      "rd (subscribe_transactions v) (wr (subscription_max_sample_count v) n m) = rd (subscribe_transactions v) m"
      "rd (subscription_max_sample_count v) (wr (reference_count_slots v i) s m) = rd (subscription_max_sample_count v) m"
      "rd (subscription_max_sample_count v) (wr (subscribe_transactions v) s m) = rd (subscription_max_sample_count v) m"
begin

lemma entry_update [simp]:
  "rd (reference_count_slots v j) (wr (reference_count_slots v i) s m) =
     (if i = j then s else rd (reference_count_slots v j) m)"
  using atomic_span.rd_wr_span [OF span] by auto

lemma object_update [simp]:
  "rd (subscribe_transactions v) (wr (subscribe_transactions v) s m) = s"
  "rd (subscription_max_sample_count v) (wr (subscription_max_sample_count v) n m) = n"
  using atomic_object.rd_wr [OF subscribe_object] atomic_object.rd_wr [OF count_object] by auto

lemma transactions_move:
  assumes own: "log_private e v" and i: "i < reference_count_slots_size v"
  shows "moves v (ReferenceTransactionBegin e v i) i (bits False False) (bits True False) w"
    and "moves v (ReferenceTransactionCommit e v i) i (bits True False) (bits True True) w"
    and "moves v (ReferenceTransactionAbort e v i) i (bits True False) (bits False False) w"
    and "moves v (DereferenceTransactionBegin e v i) i (bits True True) (bits False True) w"
    and "moves v (DereferenceTransactionCommit e v i) i (bits False True) (bits False False) w"
proof -
  obtain b n where entry: "log_entry v (mem w) i = bits b n"
    by (rule transaction_log_slot.cases)
  note wait = wait_private [OF own, of _ i 10]
  show "moves v (ReferenceTransactionBegin e v i) i (bits False False) (bits True False) w"
    and "moves v (ReferenceTransactionCommit e v i) i (bits True False) (bits True True) w"
    and "moves v (ReferenceTransactionAbort e v i) i (bits True False) (bits False False) w"
    and "moves v (DereferenceTransactionBegin e v i) i (bits True True) (bits False True) w"
    and "moves v (DereferenceTransactionCommit e v i) i (bits False True) (bits False False) w"
    by (cases b; cases n;
        auto simp: moves_def transaction_defs wait own i entry Let_def split_beta fun_eq_iff)+
qed

end

end
