(* ===== verification/Consumer_Control.thy ===== *)
theory Consumer_Control
  imports Provider_Control Transaction_Log
begin

text \<open>
  \<^verbatim>\<open>consumer_event_data_control_local_view.h/.cpp\<close>: how a proxy event takes and gives
  back references to the slots of an event. Every change of a reference count is bracketed by
  a transaction in the proxy's log. The view of a consumer is that of a provider together with
  the log it was given at registration; using the view without a log is undefined in the
  sources and has no result here.
\<close>

record 'm consumer_view = "'m control_view" +
  transaction_log_local_view :: "'m transaction_log_view option"

record consumer_counters =
  num_ref_misses :: u64
  num_ref_retries :: u64

definition MAX_REFERENCE_RETRIES :: nat where
  "MAX_REFERENCE_RETRIES = 100"

fun ReferenceNextEvent_scan ::
  "'m environment \<Rightarrow> 'm consumer_view \<Rightarrow> nat list \<Rightarrow> event_time_stamp \<Rightarrow> nat option \<Rightarrow>
   event_slot_status \<Rightarrow> 'm world \<Rightarrow> nat option \<times> event_slot_status \<times> 'm world" where
  "ReferenceNextEvent_scan e v [] upper_limit possible_index candidate w = (possible_index, candidate, w)"
| "ReferenceNextEvent_scan e v (i # is) upper_limit possible_index candidate w =
     (let (slot_status, w) = load e (state_slots v i) w in
      if IsTimeStampBetween (GetTimeStamp candidate) upper_limit slot_status
      then ReferenceNextEvent_scan e v is upper_limit (Some i) slot_status w
      else ReferenceNextEvent_scan e v is upper_limit possible_index candidate w)"

datatype reference_outcome = NoSample | Referenced nat nat | Exhausted nat

function ReferenceNextEvent_loop ::
  "'m environment \<Rightarrow> 'm consumer_view \<Rightarrow> event_time_stamp \<Rightarrow> event_time_stamp \<Rightarrow> nat \<Rightarrow> 'm world \<Rightarrow>
   (reference_outcome \<times> 'm world) option" where
  "ReferenceNextEvent_loop e v last_search_time upper_limit counter w =
     (if counter < MAX_REFERENCE_RETRIES then
        (case ReferenceNextEvent_scan e v [0..<size_of v] upper_limit None
                (EventSlotStatus last_search_time 0) w of
           (None, _, w) \<Rightarrow> Some (NoSample, w)
         | (Some i, candidate, w) \<Rightarrow> do {
             assert_prd (candidate \<noteq> - 1);
             log \<leftarrow> transaction_log_local_view v;
             w \<leftarrow> ReferenceTransactionBegin e log i w;
             let (success, _, w) =
               compare_exchange_weak e (state_slots v i) candidate (candidate + 1) w;
             if success then do {
               w \<leftarrow> ReferenceTransactionCommit e log i w;
               Some (Referenced i counter, w)
             }
             else do {
               w \<leftarrow> ReferenceTransactionAbort e log i w;
               ReferenceNextEvent_loop e v last_search_time upper_limit (Suc counter) w
             }
           })
      else Some (Exhausted counter, w))"
  by pat_completeness auto
termination
  by (relation "measure (\<lambda>(e, v, l, u, counter, w). MAX_REFERENCE_RETRIES - counter)") auto

declare ReferenceNextEvent_loop.simps [simp del]

definition ReferenceNextEvent ::
  "'m environment \<Rightarrow> 'm consumer_view \<Rightarrow> event_time_stamp \<Rightarrow> event_time_stamp \<Rightarrow> consumer_counters \<Rightarrow>
   'm world \<Rightarrow> (nat option \<times> consumer_counters \<times> 'm world) option" where
  "ReferenceNextEvent e v last_search_time upper_limit c w = do {
     (outcome, w) \<leftarrow> ReferenceNextEvent_loop e v last_search_time upper_limit 0 w;
     case outcome of
       NoSample \<Rightarrow> Some (None, c, w)
     | Referenced i counter \<Rightarrow>
         Some (Some i, c\<lparr>num_ref_retries := num_ref_retries c + of_nat counter\<rparr>, w)
     | Exhausted counter \<Rightarrow>
         Some (None, c\<lparr>num_ref_retries := num_ref_retries c + of_nat counter,
                       num_ref_misses := num_ref_misses c + 1\<rparr>, w)
   }"

definition ReferenceSpecificEvent ::
  "'m environment \<Rightarrow> 'm consumer_view \<Rightarrow> nat \<Rightarrow> 'm world \<Rightarrow> 'm world option" where
  "ReferenceSpecificEvent e v i w = do {
     let (slot_current_status, w) = load e (state_slots v i) w;
     assert_prd (\<not> (IsInWriting slot_current_status \<or> IsInvalid slot_current_status));
     log \<leftarrow> transaction_log_local_view v;
     w \<leftarrow> ReferenceTransactionBegin e log i w;
     assert_prd (i < size_of v);
     let (old_slot_value, w) = fetch_add e (state_slots v i) 1 w;
     assert_prd (GetReferenceCount old_slot_value \<noteq> 0xFFFFFFFF);
     ReferenceTransactionCommit e log i w
   }"

fun GetNumNewEvents_loop ::
  "'m environment \<Rightarrow> 'm consumer_view \<Rightarrow> nat list \<Rightarrow> event_time_stamp \<Rightarrow> nat \<Rightarrow> 'm world \<Rightarrow> nat \<times> 'm world" where
  "GetNumNewEvents_loop e v [] reference_time result w = (result, w)"
| "GetNumNewEvents_loop e v (i # is) reference_time result w =
     (let (slot_status, w) = load e (state_slots v i) w in
      GetNumNewEvents_loop e v is reference_time
        (if IsTimeStampBetween reference_time TIMESTAMP_MAX slot_status then result + 1 else result) w)"

definition GetNumNewEvents ::
  "'m environment \<Rightarrow> 'm consumer_view \<Rightarrow> event_time_stamp \<Rightarrow> 'm world \<Rightarrow> nat \<times> 'm world" where
  "GetNumNewEvents e v reference_time w = GetNumNewEvents_loop e v [0..<size_of v] reference_time 0 w"

definition DereferenceEventWithoutTransactionLogging ::
  "'m environment \<Rightarrow> 'm consumer_view \<Rightarrow> nat \<Rightarrow> 'm world \<Rightarrow> 'm world option" where
  "DereferenceEventWithoutTransactionLogging e v i w = do {
     assert_prd (i < size_of v);
     Some (snd (fetch_sub e (state_slots v i) 1 w))
   }"

definition DereferenceEvent ::
  "'m environment \<Rightarrow> 'm consumer_view \<Rightarrow> nat \<Rightarrow> 'm world \<Rightarrow> 'm world option" where
  "DereferenceEvent e v i w = do {
     log \<leftarrow> transaction_log_local_view v;
     w \<leftarrow> DereferenceTransactionBegin e log i w;
     w \<leftarrow> DereferenceEventWithoutTransactionLogging e v i w;
     DereferenceTransactionCommit e log i w
   }"

definition consumer_slot_status_at ::
  "'m environment \<Rightarrow> 'm consumer_view \<Rightarrow> nat \<Rightarrow> 'm world \<Rightarrow> (event_slot_status \<times> 'm world) option" where
  "consumer_slot_status_at e v i w = do {
     assert_prd (i < size_of v);
     Some (load e (state_slots v i) w)
   }"

definition GetMaxSampleSlots :: "'m consumer_view \<Rightarrow> nat" where
  "GetMaxSampleSlots v = size_of v"

definition SetTransactionLogLocalView ::
  "'m transaction_log_view \<Rightarrow> 'm consumer_view \<Rightarrow> 'm consumer_view" where
  "SetTransactionLogLocalView log v = v\<lparr>transaction_log_local_view := Some log\<rparr>"

definition ClearTransactionLogLocalView :: "'m consumer_view \<Rightarrow> 'm consumer_view" where
  "ClearTransactionLogLocalView v = v\<lparr>transaction_log_local_view := None\<rparr>"

definition ResetReferenceCounters :: "consumer_counters \<Rightarrow> consumer_counters" where
  "ResetReferenceCounters c = c\<lparr>num_ref_misses := 0, num_ref_retries := 0\<rparr>"

subsection \<open>Searching a sample\<close>

lemma scan_own_steps [simp]:
  "own_steps (snd (snd (ReferenceNextEvent_scan e v is u p c w))) = own_steps w"
  by (induction "is" arbitrary: p c w) (auto simp: load_def Let_def)

lemma scan_candidate:
  assumes "ReferenceNextEvent_scan e v is u p c w = (Some i, x, w')"
  shows "p = Some i \<and> x = c \<or> i \<in> set is \<and> IsTimeStampBetween (GetTimeStamp c) u x"
  using assms
proof (induction "is" arbitrary: p c w)
  case (Cons j "is")
  from Cons.prems show ?case
    by (auto simp: load_def Let_def split: if_splits dest!: Cons.IH)
      (auto simp: IsTimeStampBetween_def)
qed simp

text \<open>The largest word has the largest time stamp, which is never below an upper limit.\<close>

lemma between_not_max: "IsTimeStampBetween lo hi x \<Longrightarrow> x \<noteq> - 1"
proof
  assume "IsTimeStampBetween lo hi x" "x = - 1"
  then have "GetTimeStamp (- 1 :: u64) < hi" by (simp add: IsTimeStampBetween_def)
  moreover have "hi \<le> GetTimeStamp (- 1 :: u64)"
    using u32_less [of hi]
    by (simp add: word_le_nat_alt unat_GetTimeStamp unsigned_minus_1_eq_mask mask_eq_exp_minus_1)
  ultimately show False by simp
qed

text \<open>
  What the search means when nobody interferes: the youngest sample of the requested range,
  and the first one of them if several slots carry the same time stamp.
\<close>

definition is_newest_between ::
  "(nat \<Rightarrow> u64) \<Rightarrow> nat \<Rightarrow> event_time_stamp \<Rightarrow> event_time_stamp \<Rightarrow> nat option \<Rightarrow> bool" where
  "is_newest_between val n lo hi r \<longleftrightarrow>
     (case r of
        None \<Rightarrow> \<forall>i<n. \<not> IsTimeStampBetween lo hi (val i)
      | Some i \<Rightarrow> i < n \<and> IsTimeStampBetween lo hi (val i) \<and>
          (\<forall>j<n. IsTimeStampBetween lo hi (val j) \<longrightarrow> GetTimeStamp (val j) \<le> GetTimeStamp (val i)) \<and>
          (\<forall>j<i. IsTimeStampBetween lo hi (val j) \<longrightarrow> GetTimeStamp (val j) < GetTimeStamp (val i)))"

abbreviation candidate_word :: "(nat \<Rightarrow> u64) \<Rightarrow> event_time_stamp \<Rightarrow> nat option \<Rightarrow> u64" where
  "candidate_word val lo r \<equiv> (case r of None \<Rightarrow> EventSlotStatus lo 0 | Some i \<Rightarrow> val i)"

lemma is_newest_between_extend:
  assumes "is_newest_between val k lo hi r"
  shows "is_newest_between val (Suc k) lo hi
    (if IsTimeStampBetween (GetTimeStamp (candidate_word val lo r)) hi (val k) then Some k else r)"
  using assms
  by (cases r)
    (auto simp: is_newest_between_def less_Suc_eq IsTimeStampBetween_def not_less
      intro: less_imp_le order.strict_trans1 dest: order.strict_trans)

lemma scan_quiet:
  assumes "is_newest_between (slot_values v (mem w)) k lo hi r" "k \<le> n"
  shows "\<exists>r' d. ReferenceNextEvent_scan quiet v [k..<n] hi r (candidate_word (slot_values v (mem w)) lo r) w =
             (r', candidate_word (slot_values v (mem w)) lo r', w\<lparr>tick := tick w + d\<rparr>) \<and>
           is_newest_between (slot_values v (mem w)) n lo hi r'"
  using assms
proof (induction "n - k" arbitrary: k r w)
  case 0
  then show ?case by (auto intro: exI [of _ 0])
next
  case (Suc x)
  let ?val = "slot_values v (mem w)" and ?w = "w\<lparr>tick := Suc (tick w)\<rparr>"
  define r1 where
    "r1 = (if IsTimeStampBetween (GetTimeStamp (candidate_word ?val lo r)) hi (?val k) then Some k else r)"
  have k: "k < n" "[k..<n] = k # [Suc k..<n]" "x = n - Suc k"
    using Suc.hyps(2) by (auto simp: upt_conv_Cons)
  have w: "load quiet (state_slots v k) w = (?val k, ?w)"
    by (simp add: load_def interfere_def Let_def)
  have "is_newest_between (slot_values v (mem ?w)) (Suc k) lo hi r1"
    using is_newest_between_extend [OF Suc.prems(1)] by (simp add: r1_def)
  from Suc.hyps(1) [OF k(3) this] k(1) obtain r' d where
    "ReferenceNextEvent_scan quiet v [Suc k..<n] hi r1 (candidate_word ?val lo r1) ?w =
       (r', candidate_word ?val lo r', ?w\<lparr>tick := tick ?w + d\<rparr>)" "is_newest_between ?val n lo hi r'"
    by (auto cong: option.case_cong)
  then show ?case
    using k(2) w by (auto simp: r1_def split: if_splits intro: exI [of _ "Suc d"])
qed

lemma GetNumNewEvents_loop_quiet:
  "fst (GetNumNewEvents_loop quiet v is t r w) =
     r + length (filter (\<lambda>i. IsTimeStampBetween t TIMESTAMP_MAX (slot_values v (mem w) i)) is)"
  by (induction "is" arbitrary: r w) (auto simp: load_def interfere_def Let_def)

lemma ReferenceNextEvent_outcome:
  assumes "ReferenceNextEvent e v lo hi c w = Some (r, c', w')"
  obtains outcome where "ReferenceNextEvent_loop e v lo hi 0 w = Some (outcome, w')"
    "r = (case outcome of Referenced i _ \<Rightarrow> Some i | _ \<Rightarrow> None)"
proof -
  from assms obtain outcome w1 where run: "ReferenceNextEvent_loop e v lo hi 0 w = Some (outcome, w1)"
    by (cases "ReferenceNextEvent_loop e v lo hi 0 w") (auto simp: ReferenceNextEvent_def)
  with assms have "w1 = w'" "r = (case outcome of Referenced i _ \<Rightarrow> Some i | _ \<Rightarrow> None)"
    by (cases outcome; simp add: ReferenceNextEvent_def)+
  with run that show thesis by simp
qed

subsection \<open>Write-ahead logging\<close>

text \<open>
  What a process has added to the word of every slot so far is its \<^emph>\<open>contribution\<close>. The
  log tells the contribution whenever no transaction is open: 1 where a reference is
  recorded, 0 where nothing is recorded. \<open>wal_trace\<close> demands this after every single write of
  the process, that is at every point where it can crash.
\<close>

definition slot_change :: "('m, 'z) control_view_scheme \<Rightarrow> 'm \<times> 'm \<Rightarrow> nat \<Rightarrow> u64" where
  "slot_change v s i = slot_values v (snd s) i - slot_values v (fst s) i"

fun contribution :: "('m, 'z) control_view_scheme \<Rightarrow> ('m \<times> 'm) list \<Rightarrow> nat \<Rightarrow> u64" where
  "contribution v [] i = 0"
| "contribution v (s # ss) i = slot_change v s i + contribution v ss i"

definition wal_ok :: "'m transaction_log_view \<Rightarrow> 'm \<Rightarrow> (nat \<Rightarrow> u64) \<Rightarrow> bool" where
  "wal_ok log m c \<longleftrightarrow>
     (\<forall>i. (log_entry log m i = bits True True \<longrightarrow> c i = 1) \<and>
          (log_entry log m i = bits False False \<longrightarrow> c i = 0))"

fun wal_trace ::
  "('m, 'z) control_view_scheme \<Rightarrow> 'm transaction_log_view \<Rightarrow> (nat \<Rightarrow> u64) \<Rightarrow> ('m \<times> 'm) list \<Rightarrow> bool" where
  "wal_trace v log c [] \<longleftrightarrow> True"
| "wal_trace v log c (s # ss) \<longleftrightarrow>
     wal_ok log (snd s) (\<lambda>i. c i + slot_change v s i) \<and> wal_trace v log (\<lambda>i. c i + slot_change v s i) ss"

lemma contribution_append: "contribution v (xs @ ys) i = contribution v xs i + contribution v ys i"
  by (induction xs) auto

lemma wal_trace_append:
  "wal_trace v log c (xs @ ys) \<longleftrightarrow>
     wal_trace v log c xs \<and> wal_trace v log (\<lambda>i. c i + contribution v xs i) ys"
  by (induction xs arbitrary: c) (auto simp: add.assoc)

text \<open>At a crash point the log is right about the writes made up to there.\<close>

lemma wal_trace_crash:
  assumes "wal_trace v log c (xs @ [s] @ ys)"
  shows "wal_ok log (snd s) (\<lambda>i. c i + contribution v (xs @ [s]) i)"
  using assms by (simp add: wal_trace_append contribution_append add.assoc)

definition wal_run ::
  "('m, 'z) control_view_scheme \<Rightarrow> 'm transaction_log_view \<Rightarrow> (nat \<Rightarrow> u64) \<Rightarrow> 'm world \<Rightarrow>
   (nat \<Rightarrow> u64) \<Rightarrow> 'm world \<Rightarrow> bool" where
  "wal_run v log c w c' w' \<longleftrightarrow>
     (\<exists>steps. own_steps w' = own_steps w @ steps \<and> wal_trace v log c steps \<and>
        c' = (\<lambda>i. c i + contribution v steps i) \<and> (wal_ok log (mem w) c \<longrightarrow> wal_ok log (mem w') c'))"

lemma wal_run_trans:
  assumes "wal_run v log c w c' w'" "wal_run v log c' w' c'' w''"
  shows "wal_run v log c w c'' w''"
proof -
  from assms obtain ss ts where
    "own_steps w' = own_steps w @ ss" "wal_trace v log c ss" "c' = (\<lambda>i. c i + contribution v ss i)"
    "wal_ok log (mem w) c \<longrightarrow> wal_ok log (mem w') c'"
    "own_steps w'' = own_steps w' @ ts" "wal_trace v log c' ts" "c'' = (\<lambda>i. c' i + contribution v ts i)"
    "wal_ok log (mem w') c' \<longrightarrow> wal_ok log (mem w'') c''"
    by (auto simp: wal_run_def)
  then show ?thesis
    by (auto simp: wal_run_def wal_trace_append contribution_append add.assoc intro!: exI [of _ "ss @ ts"])
qed

subsection \<open>The transactions around a reference\<close>

text \<open>
  The control slots and the log of a consumer are distinct objects of the memory, and the log
  has an entry for every slot.
\<close>

definition log_moved ::
  "'m transaction_log_view \<Rightarrow> nat \<Rightarrow> transaction_log_slot \<Rightarrow> transaction_log_slot \<Rightarrow>
   'm world \<Rightarrow> 'm world \<Rightarrow> bool" where
  "log_moved log i s s' w w' \<longleftrightarrow> log_entry log (mem w) i = s \<and>
     (\<forall>j. log_entry log (mem w') j = (if j = i then s' else log_entry log (mem w) j))"

definition log_only :: "('m, 'z) control_view_scheme \<Rightarrow> 'm world \<Rightarrow> 'm world \<Rightarrow> bool" where
  "log_only v w w' \<longleftrightarrow>
     (\<exists>ss. own_steps w' = own_steps w @ ss \<and> (\<forall>s\<in>set ss. slot_change v s = (\<lambda>_. 0)))"

lemma log_only_refl: "own_steps w' = own_steps w \<Longrightarrow> log_only v w w'"
  by (auto simp: log_only_def)

lemma log_only_trans: "log_only v w w' \<Longrightarrow> log_only v w' w'' \<Longrightarrow> log_only v w w''"
  by (auto simp: log_only_def)

text \<open>The search for the newest sample, and what taking a reference does to the slots.\<close>

definition scanned ::
  "'m environment \<Rightarrow> 'm consumer_view \<Rightarrow> event_time_stamp \<Rightarrow> event_time_stamp \<Rightarrow> 'm world \<Rightarrow>
   nat option \<Rightarrow> u64 \<Rightarrow> 'm world \<Rightarrow> bool" where
  "scanned e v lo hi w p y w1 \<longleftrightarrow>
     ReferenceNextEvent_scan e v [0..<size_of v] hi None (EventSlotStatus lo 0) w = (p, y, w1)"

text \<open>
  The process changes the slots exactly once, by adding 1 to the word of a slot that holds a
  sample of the requested range at that instant.
\<close>

definition referenced ::
  "'m consumer_view \<Rightarrow> event_time_stamp \<Rightarrow> event_time_stamp \<Rightarrow> 'm world \<Rightarrow> nat \<Rightarrow> 'm world \<Rightarrow> bool" where
  "referenced v lo hi w i w' \<longleftrightarrow> i < size_of v \<and>
     (\<exists>w1 w2 m. log_only v w w1 \<and> IsTimeStampBetween lo hi (slot_values v m i) \<and>
        own_steps w2 = own_steps w1 @ [(m, wr (state_slots v i) (slot_values v m i + 1) m)] \<and>
        log_only v w2 w')"

lemma referenced_after: "log_only v w w1 \<Longrightarrow> referenced v lo hi w1 i w' \<Longrightarrow> referenced v lo hi w i w'"
  unfolding referenced_def by (meson log_only_trans)

text \<open>
  What rolling back the entries \<open>is\<close> of a log promises: it succeeds exactly if none of them is
  inside a transaction, and then the process owes nothing on these slots and the entries are clear.
\<close>

definition rolled_back ::
  "('m, 'z) control_view_scheme \<Rightarrow> 'm transaction_log_view \<Rightarrow> nat list \<Rightarrow> (nat \<Rightarrow> u64) \<Rightarrow> 'm world \<Rightarrow>
   (nat \<Rightarrow> u64) \<Rightarrow> unit result \<Rightarrow> 'm world \<Rightarrow> bool" where
  "rolled_back v log is c w c' r w' \<longleftrightarrow> wal_run v log c w c' w' \<and>
     (if \<forall>i\<in>set is. log_entry log (mem w) i \<in> {bits False False, bits True True}
      then r = Inr () \<and> (\<forall>i. c' i = (if i \<in> set is then 0 else c i)) \<and>
        (\<forall>i. log_entry log (mem w') i = (if i \<in> set is then bits False False else log_entry log (mem w) i))
      else r = Inl kCouldNotRestartProxy)"

text \<open>
  A consumer's life: the operations on its view and log, in any order. The last one is what the
  service element does first after a restart.
\<close>

datatype consumer_op =
    Reference_Next event_time_stamp event_time_stamp
  | Reference_Specific nat
  | Dereference nat
  | Roll_Back

fun run_op :: "'m environment \<Rightarrow> 'm consumer_view \<Rightarrow> 'm transaction_log_view \<Rightarrow> consumer_op \<Rightarrow> 'm world \<Rightarrow> 'm world option" where
  "run_op e v log (Reference_Next lo hi) w =
     map_option snd (ReferenceNextEvent_loop e v lo hi 0 w)"
| "run_op e v log (Reference_Specific i) w = ReferenceSpecificEvent e v i w"
| "run_op e v log (Dereference i) w = DereferenceEvent e v i w"
| "run_op e v log Roll_Back w =
     map_option snd (RollbackIncrementTransactions e log (DereferenceEventWithoutTransactionLogging e v) w)"

fun run_ops :: "'m environment \<Rightarrow> 'm consumer_view \<Rightarrow> 'm transaction_log_view \<Rightarrow> consumer_op list \<Rightarrow> 'm world \<Rightarrow> 'm world option" where
  "run_ops e v log [] w = Some w"
| "run_ops e v log (op # ops) w = run_op e v log op w \<bind> run_ops e v log ops"

locale consumer_memory = log_memory log
  for log :: "'m transaction_log_view" +
  fixes v :: "'m consumer_view"
  assumes view_log [simp]: "transaction_log_local_view v = Some log"
    and log_size [simp]: "reference_count_slots_size log = unat (max_slots v)"
    and slots_span: "atomic_span (state_slots v)"
    and slots_apart [simp]:
      "rd (state_slots v i) (wr (reference_count_slots log j) s m) = rd (state_slots v i) m"
      "rd (state_slots v i) (wr (subscribe_transactions log) s m) = rd (state_slots v i) m"
      "rd (state_slots v i) (wr (subscription_max_sample_count log) n m) = rd (state_slots v i) m"
      "rd (reference_count_slots log j) (wr (state_slots v i) x m) = rd (reference_count_slots log j) m"
      "rd (subscribe_transactions log) (wr (state_slots v i) x m) = rd (subscribe_transactions log) m"
      "rd (subscription_max_sample_count log) (wr (state_slots v i) x m) = rd (subscription_max_sample_count log) m"
begin

lemma slot_update [simp]:
  "rd (state_slots v j) (wr (state_slots v i) x m) = (if i = j then x else rd (state_slots v j) m)"
  using atomic_span.rd_wr_span [OF slots_span] by auto

text \<open>One step of the log automaton keeps the write-ahead property if it keeps it for its entry.\<close>

lemma moves_wal:
  assumes "moves log f i s s' w" "f w = Some w'"
    and "s' = bits True True \<longrightarrow> c i = 1" "s' = bits False False \<longrightarrow> c i = 0"
    and "wal_ok log (mem w) c"
  shows "wal_run v log c w c w' \<and> log_moved log i s s' w w'"
proof -
  from assms(1,2) have entry: "log_entry log (mem w) i = s"
    by (auto simp: moves_def split: if_splits)
  with assms(1,2) obtain m where m: "own_steps w' = own_steps w @ [(m, mem w')]"
    "mem w' = wr (reference_count_slots log i) s' m"
    and log': "\<And>j. log_entry log (mem w') j = (if j = i then s' else log_entry log (mem w) j)"
    by (auto simp: moves_def)
  have "wal_ok log (mem w') c"
    using assms(3-5) by (auto simp: wal_ok_def log')
  moreover have "slot_change v (m, mem w') = (\<lambda>_. 0)"
    by (simp add: m(2) slot_change_def fun_eq_iff)
  ultimately have "wal_run v log c w c w'"
    using m(1) by (auto simp: wal_run_def intro!: exI [of _ "[(m, mem w')]"])
  with entry log' show ?thesis by (simp add: log_moved_def)
qed

text \<open>
  A change of a slot's word inside an open transaction on that slot cannot contradict the log.
\<close>

lemma slot_write_wal_run:
  assumes "own_steps w' = own_steps w @ [(m, mem w')]" "mem w' = wr (state_slots v i) (slot_values v m i + d) m"
    and "\<And>j. log_entry log (mem w') j = log_entry log (mem w) j"
    and "log_entry log (mem w) i \<in> {bits True False, bits False True}" "wal_ok log (mem w) c"
  shows "wal_run v log c w (c(i := c i + d)) w'"
proof -
  have change: "slot_change v (m, mem w') = (\<lambda>j. if j = i then d else 0)"
    by (auto simp: assms(2) slot_change_def fun_eq_iff)
  have "wal_ok log (mem w') (c(i := c i + d))"
    using assms(4,5) by (auto simp: wal_ok_def assms(3))
  moreover have "(\<lambda>j. c j + slot_change v (m, mem w') j) = c(i := c i + d)"
    by (auto simp: change)
  ultimately show ?thesis
    using assms(1) by (auto simp: wal_run_def intro!: exI [of _ "[(m, mem w')]"])
qed

lemma idle_wal_run:
  assumes "own_steps w' = own_steps w" "\<And>j. log_entry log (mem w') j = log_entry log (mem w) j"
  shows "wal_run v log c w c w'"
  using assms by (auto simp: wal_run_def wal_ok_def)

lemma scan_log [simp]:
  "log_private e log \<Longrightarrow>
   log_entry log (mem (snd (snd (ReferenceNextEvent_scan e v is u p x w)))) j = log_entry log (mem w) j"
  by (induction "is" arbitrary: p x w) (auto simp: load_def Let_def)

lemma transactions_log_only:
  "ReferenceTransactionBegin e log i w = Some w' \<Longrightarrow> log_only v w w'"
  "ReferenceTransactionCommit e log i w = Some w' \<Longrightarrow> log_only v w w'"
  "ReferenceTransactionAbort e log i w = Some w' \<Longrightarrow> log_only v w w'"
  "DereferenceTransactionBegin e log i w = Some w' \<Longrightarrow> log_only v w w'"
  "DereferenceTransactionCommit e log i w = Some w' \<Longrightarrow> log_only v w w'"
  by (auto simp: transaction_defs Let_def split_beta log_only_def slot_change_def fun_eq_iff
      dest!: wait_own_steps)

lemma scanned_own_steps: "scanned e v lo hi w p y w1 \<Longrightarrow> own_steps w1 = own_steps w"
  unfolding scanned_def by (metis scan_own_steps snd_conv)

lemma scanned_log:
  "scanned e v lo hi w p y w1 \<Longrightarrow> log_private e log \<Longrightarrow> log_entry log (mem w1) j = log_entry log (mem w) j"
  unfolding scanned_def by (metis scan_log snd_conv)

lemma scanned_candidate:
  "scanned e v lo hi w (Some i) y w1 \<Longrightarrow> i < size_of v \<and> IsTimeStampBetween lo hi y"
  unfolding scanned_def using scan_candidate by fastforce

lemma moves_runs:
  assumes "moves log f i s s' w" "log_entry log (mem w) i = s"
  shows "\<exists>w'. f w = Some w' \<and> log_moved log i s s' w w'"
  using assms unfolding moves_def log_moved_def by metis

text \<open>Without interference the transactions leave the slots alone.\<close>

lemma transactions_quiet:
  "ReferenceTransactionBegin quiet log i w = Some w' \<Longrightarrow> slot_values v (mem w') j = slot_values v (mem w) j"
  "ReferenceTransactionCommit quiet log i w = Some w' \<Longrightarrow> slot_values v (mem w') j = slot_values v (mem w) j"
  by (auto simp: transaction_defs Let_def split_beta dest!: wait_quiet)

text \<open>One pass of the retry loop: it gives up, finds nothing, takes the slot, or lost the race.\<close>

lemma ReferenceNextEvent_loop_cases [consumes 1, case_names exhausted none success retry]:
  assumes "ReferenceNextEvent_loop e v lo hi k w = Some (outcome, w')"
  obtains "\<not> k < MAX_REFERENCE_RETRIES" "outcome = Exhausted k" "w' = w"
  | y where "scanned e v lo hi w None y w'" "outcome = NoSample"
  | i y w1 w2 f w3 where "scanned e v lo hi w (Some i) y w1" "outcome = Referenced i k"
      "ReferenceTransactionBegin e log i w1 = Some w2"
      "compare_exchange_weak e (state_slots v i) y (y + 1) w2 = (True, f, w3)"
      "ReferenceTransactionCommit e log i w3 = Some w'"
  | i y w1 w2 f w3 w4 where "k < MAX_REFERENCE_RETRIES" "scanned e v lo hi w (Some i) y w1"
      "ReferenceTransactionBegin e log i w1 = Some w2"
      "compare_exchange_weak e (state_slots v i) y (y + 1) w2 = (False, f, w3)"
      "ReferenceTransactionAbort e log i w3 = Some w4"
      "ReferenceNextEvent_loop e v lo hi (Suc k) w4 = Some (outcome, w')"
proof -
  obtain p y w1 where scan: "scanned e v lo hi w p y w1"
    unfolding scanned_def by (metis prod_cases3)
  note unfolded = assms [unfolded ReferenceNextEvent_loop.simps [of e v lo hi k]]
  show thesis
  proof (cases p)
    case (Some i)
    show thesis
    proof (cases "k < MAX_REFERENCE_RETRIES")
      case True
      with unfolded scan Some obtain w2 where beg: "ReferenceTransactionBegin e log i w1 = Some w2"
        by (cases "ReferenceTransactionBegin e log i w1") (auto simp: scanned_def)
      obtain ok f w3 where cas: "compare_exchange_weak e (state_slots v i) y (y + 1) w2 = (ok, f, w3)"
        by (metis prod_cases3)
      from that(3,4) unfolded scan Some True beg cas show thesis
        by (cases ok) (fastforce simp: scanned_def)+
    qed (use unfolded that(1) in auto)
  qed (use unfolded that(1,2) scan in \<open>auto simp: scanned_def split: if_splits\<close>)
qed

lemma ReferenceNextEvent_loop_safe:
  assumes "ReferenceNextEvent_loop e v lo hi k w = Some (outcome, w')"
  shows "case outcome of Referenced i _ \<Rightarrow> referenced v lo hi w i w' | _ \<Rightarrow> log_only v w w'"
  using assms
proof (induction "MAX_REFERENCE_RETRIES - k" arbitrary: k w rule: less_induct)
  case less
  from less.prems show ?case
  proof (cases rule: ReferenceNextEvent_loop_cases)
    case (success i y w1 w2 f w3)
    note y = scanned_candidate [OF success(1)]
    obtain m where "slot_values v m i = y" "own_steps w3 = own_steps w2 @ [(m, wr (state_slots v i) (y + 1) m)]"
      using compare_exchange_weak_success(2) [OF success(4)] by blast
    moreover have "log_only v w w2"
      by (rule log_only_trans [OF log_only_refl [OF scanned_own_steps [OF success(1)]]
            transactions_log_only(1) [OF success(3)]])
    ultimately have "referenced v lo hi w i w'"
      unfolding referenced_def using y transactions_log_only(2) [OF success(5)] by blast
    with success(2) show ?thesis by simp
  next
    case (retry i y w1 w2 f w3 w4)
    have "log_only v w w4"
      by (rule log_only_trans [OF log_only_refl [OF scanned_own_steps [OF retry(2)]]
            log_only_trans [OF transactions_log_only(1) [OF retry(3)]
              log_only_trans [OF log_only_refl [OF compare_exchange_weak_failure [OF retry(4)]]
                transactions_log_only(3) [OF retry(5)]]]]) simp
    with less.hyps [OF _ retry(6)] retry(1) show ?thesis
      by (auto split: reference_outcome.splits intro: log_only_trans referenced_after)
  qed (auto intro: log_only_refl scanned_own_steps)
qed

text \<open>
  The same operations when nobody else writes this log: they keep the write-ahead property at
  every step, and end with the entry and the contribution in agreement.
\<close>

lemma wal_run_ok: "wal_run v log c w c' w' \<Longrightarrow> wal_ok log (mem w) c \<Longrightarrow> wal_ok log (mem w') c'"
  by (auto simp: wal_run_def)

text \<open>Opening a reference transaction after a search.\<close>

lemma begin_after_scan:
  assumes "log_private e log" "wal_ok log (mem w) c" "scanned e v lo hi w (Some i) y w1"
    and "ReferenceTransactionBegin e log i w1 = Some w2"
  shows "i < size_of v" "wal_run v log c w c w2" "wal_ok log (mem w2) c" "c i = 0"
    "log_moved log i (bits False False) (bits True False) w w2"
proof -
  show i: "i < size_of v" using scanned_candidate [OF assms(3)] by simp
  note log1 = scanned_log [OF assms(3,1)]
  have run1: "wal_run v log c w c w1"
    by (rule idle_wal_run [OF scanned_own_steps [OF assms(3)] log1])
  have "wal_run v log c w1 c w2 \<and> log_moved log i (bits False False) (bits True False) w1 w2"
    by (rule moves_wal [OF transactions_move(1) [OF assms(1)] assms(4)])
      (use i wal_run_ok [OF run1 assms(2)] in simp_all)
  then show run: "wal_run v log c w c w2"
    and moved: "log_moved log i (bits False False) (bits True False) w w2"
    using run1 log1 by (auto simp: log_moved_def intro: wal_run_trans)
  show "wal_ok log (mem w2) c" by (rule wal_run_ok [OF run assms(2)])
  show "c i = 0" using moved assms(2) by (simp add: log_moved_def wal_ok_def)
qed

lemma exchange_log:
  assumes "log_private e log" "compare_exchange_weak e (state_slots v i) x y w = (ok, f, w')"
  shows "log_entry log (mem w') j = log_entry log (mem w) j"
  using assms by (auto simp: compare_exchange_weak_def Let_def split: if_splits)

lemma ReferenceNextEvent_loop_wal:
  assumes "log_private e log" "wal_ok log (mem w) c"
    and "ReferenceNextEvent_loop e v lo hi k w = Some (outcome, w')"
  shows "case outcome of
      Referenced i _ \<Rightarrow> wal_run v log c w (c(i := 1)) w' \<and> log_moved log i (bits False False) (bits True True) w w'
    | _ \<Rightarrow> wal_run v log c w c w' \<and> (\<forall>j. log_entry log (mem w') j = log_entry log (mem w) j)"
  using assms(2,3)
proof (induction "MAX_REFERENCE_RETRIES - k" arbitrary: k w rule: less_induct)
  case less
  from less.prems(2) show ?case
  proof (cases rule: ReferenceNextEvent_loop_cases)
    case (success i y w1 w2 f w3)
    note beg = begin_after_scan [OF assms(1) less.prems(1) success(1,3)]
      and log3 = exchange_log [OF assms(1) success(4)]
    obtain m where m: "slot_values v m i = y" "mem w3 = wr (state_slots v i) (y + 1) m"
        "own_steps w3 = own_steps w2 @ [(m, mem w3)]"
      using compare_exchange_weak_success(2) [OF success(4)] by auto
    have run3: "wal_run v log c w2 (c(i := 1)) w3"
      using slot_write_wal_run [OF m(3), of i 1 c] m(1,2) beg log3 by (simp add: log_moved_def)
    have "wal_run v log (c(i := 1)) w3 (c(i := 1)) w' \<and> log_moved log i (bits True False) (bits True True) w3 w'"
      by (rule moves_wal [OF transactions_move(2) [OF assms(1)] success(5)])
        (use beg(1) wal_run_ok [OF run3 beg(3)] in simp_all)
    then show ?thesis
      using beg run3 log3 by (auto simp: success(2) log_moved_def intro: wal_run_trans)
  next
    case (retry i y w1 w2 f w3 w4)
    note beg = begin_after_scan [OF assms(1) less.prems(1) retry(2,3)]
      and log3 = exchange_log [OF assms(1) retry(4)]
    have run3: "wal_run v log c w2 c w3"
      by (rule idle_wal_run [OF compare_exchange_weak_failure [OF retry(4)] log3]) simp
    have run4: "wal_run v log c w3 c w4 \<and> log_moved log i (bits True False) (bits False False) w3 w4"
      by (rule moves_wal [OF transactions_move(3) [OF assms(1)] retry(5)])
        (use beg(1,4) wal_run_ok [OF run3 beg(3)] in simp_all)
    then have same: "log_entry log (mem w4) j = log_entry log (mem w) j" for j
      using beg(5) log3 by (simp add: log_moved_def)
    have run: "wal_run v log c w c w4"
      using beg(2) run3 run4 by (blast intro: wal_run_trans)
    show ?thesis
      using less.hyps [OF _ wal_run_ok [OF run less.prems(1)] retry(6)] retry(1) run same
      by (auto simp: log_moved_def split: reference_outcome.splits intro: wal_run_trans)
  qed (auto intro: idle_wal_run scanned_own_steps scanned_log [OF _ assms(1)])
qed

lemma DereferenceEvent_wal:
  assumes "log_private e log" "wal_ok log (mem w) c" "DereferenceEvent e v i w = Some w'"
  shows "log_entry log (mem w) i = bits True True" "wal_run v log c w (c(i := 0)) w'"
    "\<And>j. log_entry log (mem w') j = (if j = i then bits False False else log_entry log (mem w) j)"
proof -
  from assms(3) obtain w1 w2 where beg: "DereferenceTransactionBegin e log i w = Some w1"
    and sub: "DereferenceEventWithoutTransactionLogging e v i w1 = Some w2"
    and com: "DereferenceTransactionCommit e log i w2 = Some w'"
    by (auto simp: DereferenceEvent_def)
  from sub have i: "i < size_of v" by (simp add: DereferenceEventWithoutTransactionLogging_def)
  have one: "wal_run v log c w c w1 \<and> log_moved log i (bits True True) (bits False True) w w1"
    by (rule moves_wal [OF transactions_move(4) [OF assms(1)] beg]) (use i assms(2) in simp_all)
  then show entry: "log_entry log (mem w) i = bits True True" by (simp add: log_moved_def)
  with assms(2) have c: "c i = 1" by (simp add: wal_ok_def)
  define m where "m = others e (tick w1) (mem w1)"
  have w2: "own_steps w2 = own_steps w1 @ [(m, mem w2)]" "mem w2 = wr (state_slots v i) (slot_values v m i + - 1) m"
    using sub by (auto simp: DereferenceEventWithoutTransactionLogging_def fetch_modify_def Let_def m_def)
  have same: "log_entry log (mem w2) j = log_entry log (mem w1) j" for j
    using assms(1) by (simp add: w2(2) m_def)
  have run2: "wal_run v log c w1 (c(i := 0)) w2"
    using slot_write_wal_run [OF w2 same, of c] one wal_run_ok [OF _ assms(2)] c
    by (auto simp: log_moved_def)
  have ok2: "wal_ok log (mem w2) (c(i := 0))"
    using wal_run_ok run2 one assms(2) by blast
  have three: "wal_run v log (c(i := 0)) w2 (c(i := 0)) w' \<and> log_moved log i (bits False True) (bits False False) w2 w'"
    by (rule moves_wal [OF transactions_move(5) [OF assms(1)] com]) (use i ok2 in simp_all)
  show "wal_run v log c w (c(i := 0)) w'"
    using one run2 three by (blast intro: wal_run_trans)
  show "log_entry log (mem w') j = (if j = i then bits False False else log_entry log (mem w) j)" for j
    using one three same by (auto simp: log_moved_def)
qed

subsection \<open>Rollback\<close>

text \<open>
  Undoing one recorded reference. Unlike the operations above it cannot fail: the entry is
  there and nobody else touches it.
\<close>

lemma DereferenceEvent_runs:
  assumes "log_private e log" "log_entry log (mem w) i = bits True True" "i < size_of v"
  obtains w' where "DereferenceEvent e v i w = Some w'"
proof -
  obtain w1 where w1: "DereferenceTransactionBegin e log i w = Some w1" "log_entry log (mem w1) i = bits False True"
    using transactions_move(4) [OF assms(1), of i w] assms(2,3) by (auto simp: moves_def)
  obtain w2 where w2: "DereferenceEventWithoutTransactionLogging e v i w1 = Some w2"
      "log_entry log (mem w2) i = bits False True"
    using assms(1,3) w1(2) by (auto simp: DereferenceEventWithoutTransactionLogging_def fetch_modify_def Let_def)
  obtain w3 where "DereferenceTransactionCommit e log i w2 = Some w3"
    using transactions_move(5) [OF assms(1), of i w2] assms(3) w2(2) by (auto simp: moves_def)
  with that w1 w2 show thesis by (simp add: DereferenceEvent_def)
qed

lemma rollback_loop_Cons:
  "RollbackIncrementTransactions_loop e log (DereferenceEventWithoutTransactionLogging e v) (i # is) w =
     (let (incremented, w) = has_bits True True e (reference_count_slots log i) w;
          (incrementing, w) = has_bits True False e (reference_count_slots log i) w;
          (decrementing, w) = has_bits False True e (reference_count_slots log i) w in
      if incremented
      then DereferenceEvent e v i w \<bind>
        RollbackIncrementTransactions_loop e log (DereferenceEventWithoutTransactionLogging e v) is
      else if incrementing \<or> decrementing then Some (Inl kCouldNotRestartProxy, w)
      else RollbackIncrementTransactions_loop e log (DereferenceEventWithoutTransactionLogging e v) is w)"
  by (auto simp: DereferenceEvent_def Let_def split_beta bind_assoc)

lemma rolled_back_Cons:
  assumes "wal_run v log c w c1 w1" "rolled_back v log is c1 w1 c' r w'" "i \<notin> set is"
    and "log_entry log (mem w) i \<in> {bits False False, bits True True}" "c1 i = 0" "\<And>j. j \<noteq> i \<Longrightarrow> c1 j = c j"
    and "\<And>j. log_entry log (mem w1) j = (if j = i then bits False False else log_entry log (mem w) j)"
  shows "rolled_back v log (i # is) c w c' r w'"
proof -
  have "(\<forall>j\<in>set is. log_entry log (mem w1) j \<in> {bits False False, bits True True}) \<longleftrightarrow>
    (\<forall>j\<in>set (i # is). log_entry log (mem w) j \<in> {bits False False, bits True True})"
    using assms(3,4) by (auto simp: assms(7))
  with assms show ?thesis
    by (auto simp: rolled_back_def intro: wal_run_trans split: if_splits)
qed

lemma rollback_loop:
  assumes "log_private e log" "wal_ok log (mem w) c" "set is \<subseteq> {..<size_of v}" "distinct is"
  shows "\<exists>r w' c'. RollbackIncrementTransactions_loop e log (DereferenceEventWithoutTransactionLogging e v) is w = Some (r, w') \<and>
     rolled_back v log is c w c' r w'"
  using assms(2-4)
proof (induction "is" arbitrary: w c)
  case Nil
  then show ?case by (auto simp: rolled_back_def intro: idle_wal_run)
next
  case (Cons i "is")
  define w3 where "w3 = snd (has_bits False True e (reference_count_slots log i)
    (snd (has_bits True False e (reference_count_slots log i) (snd (has_bits True True e (reference_count_slots log i) w)))))"
  have log3: "log_entry log (mem w3) j = log_entry log (mem w) j" for j
    using assms(1) by (simp add: w3_def)
  have run3: "wal_run v log c w c w3"
    by (rule idle_wal_run) (simp_all add: log3, simp add: w3_def)
  note ok3 = wal_run_ok [OF run3 Cons.prems(1)]
  note step = rollback_loop_Cons [of e i "is" w, unfolded Let_def split_beta, folded w3_def]
  have i: "i < size_of v" "i \<notin> set is" "set is \<subseteq> {..<size_of v}" "distinct is"
    using Cons.prems by auto
  consider (recorded) "log_entry log (mem w) i = bits True True"
    | (crashed) "log_entry log (mem w) i \<in> {bits True False, bits False True}"
    | (free) "log_entry log (mem w) i = bits False False"
    by (metis (full_types) insertCI transaction_log_slot.surjective old.unit.exhaust)
  then show ?case
  proof cases
    case recorded
    obtain w4 where w4: "DereferenceEvent e v i w3 = Some w4"
      using DereferenceEvent_runs [OF assms(1) _ i(1), of w3] recorded log3 by metis
    note deref = DereferenceEvent_wal [OF assms(1) ok3 w4]
    note run4 = wal_run_trans [OF run3 deref(2)]
    obtain r w' c' where rest: "RollbackIncrementTransactions_loop e log (DereferenceEventWithoutTransactionLogging e v) is w4 = Some (r, w')"
        "rolled_back v log is (c(i := 0)) w4 c' r w'"
      using Cons.IH [OF wal_run_ok [OF run4 Cons.prems(1)] i(3,4)] by blast
    have "rolled_back v log (i # is) c w c' r w'"
      by (rule rolled_back_Cons [OF run4 rest(2) i(2)]) (simp_all add: recorded deref(3) log3)
    with rest(1) w4 recorded assms(1) show ?thesis by (auto simp: step simp del: RollbackIncrementTransactions_loop.simps(2))
  next
    case crashed
    then show ?thesis
      using assms(1) run3 by (auto simp: step rolled_back_def simp del: RollbackIncrementTransactions_loop.simps(2))
  next
    case free
    with Cons.prems(1) have c: "c i = 0" by (simp add: wal_ok_def)
    obtain r w' c' where rest: "RollbackIncrementTransactions_loop e log (DereferenceEventWithoutTransactionLogging e v) is w3 = Some (r, w')"
        "rolled_back v log is c w3 c' r w'"
      using Cons.IH [OF ok3 i(3,4)] by blast
    have "rolled_back v log (i # is) c w c' r w'"
      by (rule rolled_back_Cons [OF run3 rest(2) i(2)]) (simp_all add: free log3 c)
    with rest(1) free assms(1) show ?thesis by (auto simp: step simp del: RollbackIncrementTransactions_loop.simps(2))
  qed
qed

lemma RollbackIncrementTransactions_rolled_back:
  assumes "log_private e log" "wal_ok log (mem w) c"
  obtains r w' c' where
    "RollbackIncrementTransactions e log (DereferenceEventWithoutTransactionLogging e v) w = Some (r, w')"
    "rolled_back v log [0..<size_of v] c w c' r w'"
proof -
  have "set [0..<size_of v] \<subseteq> {..<size_of v}" "distinct [0..<size_of v]" by auto
  from rollback_loop [OF assms this] that show thesis
    unfolding RollbackIncrementTransactions_def log_size by blast
qed

lemma ReferenceSpecificEvent_wal:
  assumes "log_private e log" "wal_ok log (mem w) c" "ReferenceSpecificEvent e v i w = Some w'"
  shows "wal_run v log c w (c(i := 1)) w'" "log_moved log i (bits False False) (bits True True) w w'"
proof -
  define w1 where "w1 = snd (load e (state_slots v i) w)"
  from assms(3) obtain w2 where i: "i < size_of v"
    and beg: "ReferenceTransactionBegin e log i w1 = Some w2"
    and com: "ReferenceTransactionCommit e log i (snd (fetch_add e (state_slots v i) 1 w2)) = Some w'"
    by (auto simp: ReferenceSpecificEvent_def w1_def split_beta)
  have log1: "log_entry log (mem w1) j = log_entry log (mem w) j" for j
    using assms(1) by (simp add: w1_def)
  have run1: "wal_run v log c w c w1"
    by (rule idle_wal_run) (simp_all add: log1, simp add: w1_def)
  have two: "wal_run v log c w1 c w2 \<and> log_moved log i (bits False False) (bits True False) w1 w2"
    by (rule moves_wal [OF transactions_move(1) [OF assms(1)] beg]) (use i wal_run_ok [OF run1 assms(2)] in simp_all)
  then have c: "c i = 0" using assms(2) by (simp add: log_moved_def log1 wal_ok_def)
  define w3 m where "w3 = snd (fetch_add e (state_slots v i) 1 w2)" and "m = others e (tick w2) (mem w2)"
  have w3: "own_steps w3 = own_steps w2 @ [(m, mem w3)]" "mem w3 = wr (state_slots v i) (slot_values v m i + 1) m"
    by (simp_all add: w3_def fetch_modify_def Let_def m_def)
  have log3: "log_entry log (mem w3) j = log_entry log (mem w2) j" for j
    using assms(1) by (simp add: w3(2) m_def)
  have ok2: "wal_ok log (mem w2) c"
    using wal_run_ok two wal_run_ok [OF run1 assms(2)] by blast
  have run3: "wal_run v log c w2 (c(i := 1)) w3"
    using slot_write_wal_run [OF w3 log3 _ ok2] two c by (auto simp: log_moved_def)
  have four: "wal_run v log (c(i := 1)) w3 (c(i := 1)) w' \<and> log_moved log i (bits True False) (bits True True) w3 w'"
    by (rule moves_wal [OF transactions_move(2) [OF assms(1)] com [folded w3_def]])
      (use i wal_run_ok [OF run3 ok2] in simp_all)
  show "wal_run v log c w (c(i := 1)) w'"
    using run1 two run3 four by (blast intro: wal_run_trans)
  show "log_moved log i (bits False False) (bits True True) w w'"
    using two four log1 log3 by (auto simp: log_moved_def)
qed

lemma run_op_wal:
  assumes "log_private e log" "wal_ok log (mem w) c" "run_op e v log op w = Some w'"
  shows "\<exists>c'. wal_run v log c w c' w'"
proof (cases op)
  case (Reference_Next lo hi)
  with assms(3) obtain r where r: "ReferenceNextEvent_loop e v lo hi 0 w = Some (r, w')" by auto
  show ?thesis
    using ReferenceNextEvent_loop_wal [OF assms(1,2) r] by (cases r) auto
next
  case (Reference_Specific i)
  with assms(3) show ?thesis using ReferenceSpecificEvent_wal(1) [OF assms(1,2), of i w'] by auto
next
  case (Dereference i)
  with assms(3) show ?thesis using DereferenceEvent_wal(2) [OF assms(1,2), of i w'] by auto
next
  case Roll_Back
  obtain r w1 c' where
    "RollbackIncrementTransactions e log (DereferenceEventWithoutTransactionLogging e v) w = Some (r, w1)"
    "wal_run v log c w c' w1"
    using RollbackIncrementTransactions_rolled_back [OF assms(1,2)] by (metis rolled_back_def)
  with Roll_Back assms(3) show ?thesis by auto
qed

lemma run_ops_wal:
  assumes "log_private e log" "wal_ok log (mem w) c" "run_ops e v log ops w = Some w'"
  shows "\<exists>c'. wal_run v log c w c' w'"
  using assms(2,3)
proof (induction ops arbitrary: w c)
  case Nil
  then show ?case by (auto intro: idle_wal_run)
next
  case (Cons op ops)
  then obtain w1 where w1: "run_op e v log op w = Some w1" "run_ops e v log ops w1 = Some w'" by auto
  from run_op_wal [OF assms(1) Cons.prems(1) w1(1)] obtain c1 where run1: "wal_run v log c w c1 w1" ..
  from Cons.IH [OF wal_run_ok [OF run1 Cons.prems(1)] w1(2)] wal_run_trans [OF run1] show ?case
    by blast
qed

text \<open>
  A process that started with a truthful log stops after any one of its own writes, and a new
  one rolls the log back.
\<close>

lemma rollback_after_crash:
  assumes "log_private e log" "wal_ok log (mem w) (\<lambda>_. 0)" "run_ops e v log ops w = Some w'"
    and "own_steps w' = own_steps w @ done_steps @ [last_step] @ lost_steps"
    and "log_private e2 log" "\<And>i. log_entry log m i = log_entry log (snd last_step) i"
  shows "\<exists>r w2. RollbackIncrementTransactions e2 log (DereferenceEventWithoutTransactionLogging e2 v) (start m) = Some (r, w2) \<and>
    (if \<forall>i< size_of v. log_entry log m i \<in> {bits False False, bits True True}
     then r = Inr () \<and> (\<forall>i< size_of v. log_entry log (mem w2) i = bits False False \<and>
       contribution v (done_steps @ [last_step]) i + contribution v (own_steps w2) i = 0)
     else r = Inl kCouldNotRestartProxy)"
proof -
  let ?c = "\<lambda>i. contribution v (done_steps @ [last_step]) i"
  from run_ops_wal [OF assms(1-3)] obtain c' where "wal_run v log (\<lambda>_. 0) w c' w'" ..
  then have "wal_trace v log (\<lambda>_. 0) (done_steps @ [last_step] @ lost_steps)"
    using assms(4) by (auto simp: wal_run_def)
  from wal_trace_crash [OF this] have "wal_ok log (mem (start m)) ?c"
    using assms(6) by (simp add: wal_ok_def)
  from RollbackIncrementTransactions_rolled_back [OF assms(5) this] obtain r w2 c2 where
    "RollbackIncrementTransactions e2 log (DereferenceEventWithoutTransactionLogging e2 v) (start m) = Some (r, w2)"
    and rb: "rolled_back v log [0..<size_of v] ?c (start m) c2 r w2" by blast
  moreover have "?c i + contribution v (own_steps w2) i = c2 i" for i
    using rb by (auto simp: rolled_back_def wal_run_def)
  ultimately show ?thesis
    by (auto simp: rolled_back_def split: if_splits)
qed

subsection \<open>Taking a reference when nobody interferes\<close>

text \<open>The effect of a reference taken on slot \<open>r\<close>: one count more, and the log records it.\<close>

lemma ReferenceNextEvent_quiet:
  assumes "\<And>i. i < size_of v \<Longrightarrow> IsTimeStampBetween lo hi (slot_values v (mem w) i) \<Longrightarrow>
      log_entry log (mem w) i = bits False False"
  shows "\<exists>r w'. ReferenceNextEvent quiet v lo hi c w = Some (r, c, w') \<and>
    is_newest_between (slot_values v (mem w)) (size_of v) lo hi r \<and>
    (\<forall>j. slot_values v (mem w') j = slot_values v (mem w) j + (if r = Some j then 1 else 0)) \<and>
    (\<forall>j. log_entry log (mem w') j = (if r = Some j then bits True True else log_entry log (mem w) j))"
proof -
  have "is_newest_between (slot_values v (mem w)) 0 lo hi None" by (simp add: is_newest_between_def)
  from scan_quiet [OF this, of "size_of v"] obtain r d where
    scan: "ReferenceNextEvent_scan quiet v [0..<size_of v] hi None (EventSlotStatus lo 0) w =
      (r, candidate_word (slot_values v (mem w)) lo r, w\<lparr>tick := tick w + d\<rparr>)"
    and r: "is_newest_between (slot_values v (mem w)) (size_of v) lo hi r" by auto
  note unfold = ReferenceNextEvent_def ReferenceNextEvent_loop.simps [of quiet v lo hi 0 w] scan
  show ?thesis
  proof (cases r)
    case None
    with r show ?thesis by (simp add: unfold MAX_REFERENCE_RETRIES_def)
  next
    case (Some i)
    let ?x = "slot_values v (mem w) i" and ?w = "w\<lparr>tick := tick w + d\<rparr>"
    from r Some have i: "i < size_of v" and x: "IsTimeStampBetween lo hi ?x"
      by (auto simp: is_newest_between_def)
    obtain w1 where w1: "ReferenceTransactionBegin quiet log i ?w = Some w1"
        "log_moved log i (bits False False) (bits True False) ?w w1"
      using moves_runs [OF transactions_move(1) [of quiet i ?w]] i x assms [of i] by auto
    have val1: "slot_values v (mem w1) j = slot_values v (mem w) j" for j
      using transactions_quiet(1) [OF w1(1)] by simp
    obtain w2 where w2: "compare_exchange_weak quiet (state_slots v i) ?x (?x + 1) w1 = (True, ?x, w2)"
        "mem w2 = wr (state_slots v i) (?x + 1) (mem w1)"
      using val1 [of i] by (simp add: compare_exchange_weak_def Let_def)
    obtain w3 where w3: "ReferenceTransactionCommit quiet log i w2 = Some w3"
        "log_moved log i (bits True False) (bits True True) w2 w3"
      using moves_runs [OF transactions_move(2) [of quiet i w2]] i w1(2) by (auto simp: log_moved_def w2(2))
    have "ReferenceNextEvent quiet v lo hi c w = Some (Some i, c, w3)"
      using w1(1) w2(1) w3(1) between_not_max [OF x] Some
      by (simp add: unfold MAX_REFERENCE_RETRIES_def)
    then show ?thesis
      using r Some w1(2) w3(2) val1 transactions_quiet(2) [OF w3(1)] by (auto simp: log_moved_def w2(2))
  qed
qed

end

end
