(* ===== verification/Control_Composite.thy ===== *)
theory Control_Composite
  imports Provider_Control
begin

text \<open>
  \<^verbatim>\<open>event_data_control_composite.h/.cpp\<close>: a skeleton that serves QM and ASIL-B consumers
  keeps two control structures in step. The composite allocates a slot in both, falls back to
  the ASIL-B one alone when the QM side cannot be trusted any more, and from then on ignores
  the QM side.
\<close>

record 'm composite =
  asil_qm_control_local :: "'m control_view"
  asil_b_control_local :: "'m control_view option"
  ignore_qm_control :: bool

record allocation_result =
  allocated_slot_index :: "nat option"
  qm_misbehaved :: bool

definition MAX_MULTI_ALLOCATE_RETRY_COUNT :: nat where
  "MAX_MULTI_ALLOCATE_RETRY_COUNT = 100"

definition EventDataControlComposite :: "'m control_view \<Rightarrow> 'm control_view option \<Rightarrow> 'm composite" where
  "EventDataControlComposite qm asil_b =
     \<lparr>asil_qm_control_local = qm, asil_b_control_local = asil_b, ignore_qm_control = False\<rparr>"

text \<open>The result is empty as well when the QM memory has been tampered with.\<close>

fun GetNextFreeMultiSlot_loop ::
  "'m environment \<Rightarrow> 'm control_view \<Rightarrow> 'm control_view \<Rightarrow> nat list \<Rightarrow> event_time_stamp \<Rightarrow>
   slot_info option \<Rightarrow> 'm world \<Rightarrow> (slot_info option \<times> 'm world) option" where
  "GetNextFreeMultiSlot_loop e qm asil_b [] oldest_time_stamp info w = Some (info, w)"
| "GetNextFreeMultiSlot_loop e qm asil_b (i # is) oldest_time_stamp info w =
     (let (slot_qm, w) = load e (state_slots qm i) w;
          (slot_b, w) = load e (state_slots asil_b i) w in
      if IsInvalid slot_b \<and> \<not> IsInvalid slot_qm then Some (None, w)
      else if \<not> IsUsed slot_qm \<and> \<not> IsUsed slot_b \<and> GetTimeStamp slot_b < oldest_time_stamp then do {
        assert_prd (slot_qm = slot_b);
        GetNextFreeMultiSlot_loop e qm asil_b is (GetTimeStamp slot_b)
          (Some \<lparr>slot_index = i, slot_value = slot_qm\<rparr>) w
      }
      else GetNextFreeMultiSlot_loop e qm asil_b is oldest_time_stamp info w)"

definition GetNextFreeMultiSlot ::
  "'m environment \<Rightarrow> 'm control_view \<Rightarrow> 'm control_view \<Rightarrow> 'm world \<Rightarrow> (slot_info option \<times> 'm world) option" where
  "GetNextFreeMultiSlot e qm asil_b w =
     GetNextFreeMultiSlot_loop e qm asil_b [0..<size_of asil_b] TIMESTAMP_MAX None w"

text \<open>The argument counts the attempts that are left.\<close>

fun AllocateNextMultiSlot_loop ::
  "nat \<Rightarrow> 'm environment \<Rightarrow> 'm control_view \<Rightarrow> 'm control_view \<Rightarrow> 'm world \<Rightarrow> (nat option \<times> 'm world) option" where
  "AllocateNextMultiSlot_loop 0 e qm asil_b w = Some (None, w)"
| "AllocateNextMultiSlot_loop (Suc attempts) e qm asil_b w = do {
     (free_slot, w) \<leftarrow> GetNextFreeMultiSlot e qm asil_b w;
     case free_slot of
       None \<Rightarrow> AllocateNextMultiSlot_loop attempts e qm asil_b w
     | Some info \<Rightarrow> do {
         (qm_old_slot_value, w) \<leftarrow> TryAllocateSlot e qm info w;
         case qm_old_slot_value of
           None \<Rightarrow> AllocateNextMultiSlot_loop attempts e qm asil_b w
         | Some old \<Rightarrow> do {
             (asil_b_allocation, w) \<leftarrow> TryAllocateSlot e asil_b info w;
             case asil_b_allocation of
               None \<Rightarrow> do {
                 w \<leftarrow> SetSlotValue e qm \<lparr>slot_index = slot_index info, slot_value = old\<rparr> w;
                 AllocateNextMultiSlot_loop attempts e qm asil_b w
               }
             | Some _ \<Rightarrow> Some (Some (slot_index info), w)
           }
       }
   }"

definition AllocateNextMultiSlot ::
  "'m environment \<Rightarrow> 'm control_view \<Rightarrow> 'm control_view \<Rightarrow> 'm world \<Rightarrow> (nat option \<times> 'm world) option" where
  "AllocateNextMultiSlot e qm asil_b w =
     AllocateNextMultiSlot_loop MAX_MULTI_ALLOCATE_RETRY_COUNT e qm asil_b w"

definition composite_AllocateNextSlot ::
  "'m environment \<Rightarrow> 'm composite \<Rightarrow> provider_counters \<Rightarrow> 'm world \<Rightarrow>
   (allocation_result \<times> 'm composite \<times> provider_counters \<times> 'm world) option" where
  "composite_AllocateNextSlot e x c w =
     (case asil_b_control_local x of
        None \<Rightarrow> do {
          (slot, c, w) \<leftarrow> AllocateNextSlot e (asil_qm_control_local x) c w;
          Some (\<lparr>allocated_slot_index = slot, qm_misbehaved = False\<rparr>, x, c, w)
        }
      | Some asil_b \<Rightarrow>
          if ignore_qm_control x then do {
            (slot, c, w) \<leftarrow> AllocateNextSlot e asil_b c w;
            Some (\<lparr>allocated_slot_index = slot, qm_misbehaved = True\<rparr>, x, c, w)
          }
          else do {
            (slot, w) \<leftarrow> AllocateNextMultiSlot e (asil_qm_control_local x) asil_b w;
            case slot of
              None \<Rightarrow> do {
                let x = x\<lparr>ignore_qm_control := True\<rparr>;
                (slot, c, w) \<leftarrow> AllocateNextSlot e asil_b c w;
                Some (\<lparr>allocated_slot_index = slot, qm_misbehaved = ignore_qm_control x\<rparr>, x, c, w)
              }
            | Some _ \<Rightarrow>
                Some (\<lparr>allocated_slot_index = slot, qm_misbehaved = ignore_qm_control x\<rparr>, x, c, w)
          })"

definition composite_EventReady ::
  "'m environment \<Rightarrow> 'm composite \<Rightarrow> nat \<Rightarrow> event_time_stamp \<Rightarrow> 'm world \<Rightarrow> 'm world option" where
  "composite_EventReady e x i time_stamp w = do {
     w \<leftarrow> (case asil_b_control_local x of None \<Rightarrow> Some w | Some asil_b \<Rightarrow> EventReady e asil_b i time_stamp w);
     if \<not> ignore_qm_control x then EventReady e (asil_qm_control_local x) i time_stamp w else Some w
   }"

definition composite_Discard ::
  "'m environment \<Rightarrow> 'm composite \<Rightarrow> nat \<Rightarrow> 'm world \<Rightarrow> 'm world option" where
  "composite_Discard e x i w = do {
     w \<leftarrow> (case asil_b_control_local x of None \<Rightarrow> Some w | Some asil_b \<Rightarrow> Discard e asil_b i w);
     if \<not> ignore_qm_control x then Discard e (asil_qm_control_local x) i w else Some w
   }"

definition IsQmControlDisconnected :: "'m composite \<Rightarrow> bool" where
  "IsQmControlDisconnected x = ignore_qm_control x"

definition GetEventSlotTimestamp ::
  "'m environment \<Rightarrow> 'm composite \<Rightarrow> nat \<Rightarrow> 'm world \<Rightarrow> (event_time_stamp \<times> 'm world) option" where
  "GetEventSlotTimestamp e x slot w =
     (case asil_b_control_local x of
        Some asil_b \<Rightarrow> do {
          (status, w) \<leftarrow> slot_status_at e asil_b slot w;
          Some (GetTimeStamp status, w)
        }
      | None \<Rightarrow> do {
          (status, w) \<leftarrow> slot_status_at e (asil_qm_control_local x) slot w;
          Some (GetTimeStamp status, w)
        })"

fun GetLatestTimestamp_loop ::
  "'m environment \<Rightarrow> 'm control_view \<Rightarrow> nat list \<Rightarrow> event_time_stamp \<Rightarrow> 'm world \<Rightarrow> event_time_stamp \<times> 'm world" where
  "GetLatestTimestamp_loop e control [] latest_time_stamp w = (latest_time_stamp, w)"
| "GetLatestTimestamp_loop e control (i # is) latest_time_stamp w =
     (let (slot, w) = load e (state_slots control i) w in
      GetLatestTimestamp_loop e control is
        (if \<not> IsInvalid slot \<and> \<not> IsInWriting slot \<and> latest_time_stamp < GetTimeStamp slot
         then GetTimeStamp slot else latest_time_stamp) w)"

definition GetLatestTimestamp ::
  "'m environment \<Rightarrow> 'm composite \<Rightarrow> 'm world \<Rightarrow> event_time_stamp \<times> 'm world" where
  "GetLatestTimestamp e x w =
     (let control = (case asil_b_control_local x of Some asil_b \<Rightarrow> asil_b | None \<Rightarrow> asil_qm_control_local x)
      in GetLatestTimestamp_loop e control [0..<size_of control] 1 w)"

subsection \<open>Under any interference\<close>

lemma multi_search_own_steps:
  "GetNextFreeMultiSlot_loop e qm b is t info w = Some (r, w') \<Longrightarrow> own_steps w' = own_steps w"
  by (induction "is" arbitrary: t info w) (auto simp: load_def Let_def split: if_splits)

lemma multi_search_unused:
  assumes "GetNextFreeMultiSlot_loop e qm b is t info w = Some (Some s, w')"
  shows "info = Some s \<or> slot_index s \<in> set is \<and> \<not> IsUsed (slot_value s)"
  using assms
proof (induction "is" arbitrary: t info w)
  case (Cons i "is")
  from Cons.prems show ?case
    by (auto simp: load_def Let_def split: if_splits dest!: Cons.IH)
qed simp

text \<open>
  An attempt that fails leaves no trace: every write that marks a QM slot is followed by the
  write that puts the old value back. A successful one marks the same slot in both controls,
  and each held the same unused value at that instant.
\<close>

fun undone :: "'m control_view \<Rightarrow> ('m \<times> 'm) list \<Rightarrow> bool" where
  "undone qm [] \<longleftrightarrow> True"
| "undone qm [_] \<longleftrightarrow> False"
| "undone qm ((m1, m1') # (m2, m2') # ss) \<longleftrightarrow>
     (\<exists>i < size_of qm. m1' = wr (state_slots qm i) IN_WRITING m1 \<and> \<not> IsUsed (slot_values qm m1 i) \<and>
        m2' = wr (state_slots qm i) (slot_values qm m1 i) m2) \<and> undone qm ss"

definition multi_allocated :: "'m control_view \<Rightarrow> 'm control_view \<Rightarrow> 'm world \<Rightarrow> nat option \<Rightarrow> 'm world \<Rightarrow> bool" where
  "multi_allocated qm b w slot w' \<longleftrightarrow>
     (\<exists>ss. undone qm ss \<and>
       (case slot of
          None \<Rightarrow> own_steps w' = own_steps w @ ss
        | Some i \<Rightarrow> i < size_of b \<and> (\<exists>m1 m2.
            own_steps w' = own_steps w @ ss @
              [(m1, wr (state_slots qm i) IN_WRITING m1), (m2, wr (state_slots b i) IN_WRITING m2)] \<and>
            \<not> IsUsed (slot_values qm m1 i) \<and> slot_values b m2 i = slot_values qm m1 i)))"

lemma undone_append: "undone qm ss \<Longrightarrow> undone qm (ss @ ts) = undone qm ts"
  by (induction qm ss rule: undone.induct) auto

lemma multi_allocated_after:
  assumes "own_steps w1 = own_steps w @ ss" "undone qm ss" "multi_allocated qm b w1 slot w'"
  shows "multi_allocated qm b w slot w'"
proof -
  from assms(3) obtain ts where "undone qm ts" "multi_allocated qm b w1 slot w'"
    and ts: "case slot of
          None \<Rightarrow> own_steps w' = own_steps w1 @ ts
        | Some i \<Rightarrow> i < size_of b \<and> (\<exists>m1 m2.
            own_steps w' = own_steps w1 @ ts @
              [(m1, wr (state_slots qm i) IN_WRITING m1), (m2, wr (state_slots b i) IN_WRITING m2)] \<and>
            \<not> IsUsed (slot_values qm m1 i) \<and> slot_values b m2 i = slot_values qm m1 i)"
    by (auto simp: multi_allocated_def)
  with assms(1,2) undone_append [OF assms(2)] show ?thesis
    unfolding multi_allocated_def
    by (intro exI [of _ "ss @ ts"]) (auto split: option.splits)
qed

lemma AllocateNextMultiSlot_loop_safe:
  assumes "AllocateNextMultiSlot_loop k e qm b w = Some (slot, w')" "size_of qm = size_of b"
  shows "multi_allocated qm b w slot w'"
  using assms(1)
proof (induction k arbitrary: w)
  case 0
  then show ?case by (auto simp: multi_allocated_def intro: exI [of _ "[]"])
next
  case (Suc k)
  then obtain free w1 where find: "GetNextFreeMultiSlot e qm b w = Some (free, w1)" by auto
  note find' = find [unfolded GetNextFreeMultiSlot_def]
  have w1: "own_steps w1 = own_steps w @ []" by (simp add: multi_search_own_steps [OF find'])
  note retry = multi_allocated_after [OF _ _ Suc.IH]
  show ?case
  proof (cases free)
    case None
    with Suc.prems find retry [OF w1] show ?thesis by simp
  next
    case (Some s)
    have s: "slot_index s < size_of b" "slot_index s < size_of qm" "\<not> IsUsed (slot_value s)"
      using multi_search_unused [OF find' [unfolded Some]] assms(2) by auto
    from s(2) show ?thesis
    proof (cases rule: TryAllocateSlot_cases [where e = e and w = w1])
      case (lost w2)
      with Suc.prems find Some w1 retry [of w2 w "[]"] show ?thesis by simp
    next
      case qm: (taken m1 w2)
      from s(1) show ?thesis
      proof (cases rule: TryAllocateSlot_cases [where e = e and w = w2])
        case (taken m2 w3)
        with Suc.prems find Some w1 s qm show ?thesis
          by (auto simp: multi_allocated_def intro!: exI [of _ "[]"])
      next
        case (lost w3)
        let ?w4 = "store e (state_slots qm (slot_index s)) (slot_value s) w3"
        have "AllocateNextMultiSlot_loop k e qm b ?w4 = Some (slot, w')"
          using Suc.prems find Some qm(1) lost(1) s(2) by (simp add: SetSlotValue_def)
        moreover have "own_steps ?w4 = own_steps w @ [(m1, wr (state_slots qm (slot_index s)) IN_WRITING m1),
            (others e (tick w3) (mem w3), mem ?w4)]"
          using qm(4) lost(2) w1 by (simp add: store_def)
        ultimately show ?thesis
          using qm(2) s(2,3) by (intro retry) (auto simp: store_def intro!: exI [of _ "slot_index s"])
      qed
    qed
  qed
qed

subsection \<open>When nobody interferes\<close>

text \<open>The two controls are in step.\<close>

definition mirrored :: "'m control_view \<Rightarrow> 'm control_view \<Rightarrow> 'm \<Rightarrow> bool" where
  "mirrored qm b m \<longleftrightarrow> (\<forall>i < size_of b. slot_values qm m i = slot_values b m i)"

lemma multi_search_quiet:
  assumes "is_oldest_unused (slot_values b (mem w)) k info" "k \<le> n"
    and "\<forall>j<n. slot_values qm (mem w) j = slot_values b (mem w) j"
  shows "\<exists>r d. GetNextFreeMultiSlot_loop quiet qm b [k..<n] (oldest_stamp info) info w =
             Some (r, w\<lparr>tick := tick w + d\<rparr>) \<and> is_oldest_unused (slot_values b (mem w)) n r"
  using assms
proof (induction "n - k" arbitrary: k info w)
  case 0
  then show ?case by (auto intro: exI [of _ 0])
next
  case (Suc x)
  let ?val = "slot_values b (mem w)" and ?w = "w\<lparr>tick := Suc (Suc (tick w))\<rparr>"
  have k: "k < n" "[k..<n] = k # [Suc k..<n]" "x = n - Suc k"
    using Suc.hyps(2) by (auto simp: upt_conv_Cons)
  define info' where "info' = (if \<not> IsUsed (?val k) \<and> GetTimeStamp (?val k) < oldest_stamp info
    then Some \<lparr>slot_index = k, slot_value = ?val k\<rparr> else info)"
  have "is_oldest_unused (slot_values b (mem ?w)) (Suc k) info'"
    using is_oldest_unused_extend [OF Suc.prems(1)] by (simp add: info'_def)
  then obtain r d where
    "GetNextFreeMultiSlot_loop quiet qm b [Suc k..<n] (oldest_stamp info') info' ?w = Some (r, ?w\<lparr>tick := tick ?w + d\<rparr>)"
    "is_oldest_unused ?val n r"
    using Suc.hyps(1) [of "Suc k" ?w info'] Suc.prems(3) k(1,3) by auto
  then show ?case
    using k(1,2) Suc.prems(3)
    by (auto simp: info'_def load_quiet Let_def split: if_splits intro: exI [of _ "Suc (Suc d)"])
qed

text \<open>A QM side whose slots are all in use makes the search come back empty.\<close>

lemma multi_search_blocked:
  assumes "\<forall>j\<in>set is. IsUsed (slot_values qm (mem w) j)"
  shows "\<exists>d. GetNextFreeMultiSlot_loop quiet qm b is t None w = Some (None, w\<lparr>tick := tick w + d\<rparr>)"
  using assms
proof (induction "is" arbitrary: w)
  case Nil
  then show ?case by (auto intro: exI [of _ 0])
next
  case (Cons i "is")
  let ?w = "w\<lparr>tick := Suc (Suc (tick w))\<rparr>"
  obtain d where "GetNextFreeMultiSlot_loop quiet qm b is t None ?w = Some (None, ?w\<lparr>tick := tick ?w + d\<rparr>)"
    using Cons.IH [of ?w] Cons.prems by auto
  then show ?case
    using Cons.prems
    by (auto simp: load_quiet Let_def intro: exI [of _ "Suc (Suc d)"] exI [of _ "Suc (Suc 0)"])
qed

lemma multi_alloc_blocked:
  assumes "\<forall>j < size_of b. IsUsed (slot_values qm (mem w) j)"
  shows "\<exists>d. AllocateNextMultiSlot_loop k quiet qm b w = Some (None, w\<lparr>tick := tick w + d\<rparr>)"
  using assms
proof (induction k arbitrary: w)
  case 0
  then show ?case by (auto intro: exI [of _ 0])
next
  case (Suc k)
  obtain d where d: "GetNextFreeMultiSlot quiet qm b w = Some (None, w\<lparr>tick := tick w + d\<rparr>)"
    using multi_search_blocked [of "[0..<size_of b]" qm w b] Suc.prems by (auto simp: GetNextFreeMultiSlot_def)
  with Suc.IH [of "w\<lparr>tick := tick w + d\<rparr>"] Suc.prems show ?case
    by (auto simp: add.assoc)
qed

lemma latest_loop_quiet:
  "fst (GetLatestTimestamp_loop quiet v is t w) =
     Max (insert t {GetTimeStamp (slot_values v (mem w) i) |i.
       i \<in> set is \<and> \<not> IsInvalid (slot_values v (mem w) i) \<and> \<not> IsInWriting (slot_values v (mem w) i)})"
    (is "_ = Max (insert t (?S is (mem w)))")
proof (induction "is" arbitrary: t w)
  case (Cons i "is")
  let ?x = "slot_values v (mem w) i"
  have fin: "finite (?S is (mem w))" by simp
  have S: "?S (i # is) (mem w) =
      (if \<not> IsInvalid ?x \<and> \<not> IsInWriting ?x then insert (GetTimeStamp ?x) (?S is (mem w)) else ?S is (mem w))"
    by auto
  have swap: "Max (insert t (insert u A)) = Max (insert (max t u) A)" if "finite A" for u A
    using that by (cases "A = {}") (auto simp: max.assoc)
  show ?case
    unfolding S by (auto simp: load_quiet Let_def Cons.IH swap [OF fin] max_def not_less)
qed simp

text \<open>Both controls after a write to slot \<open>i\<close> of both.\<close>

definition both_updated :: "'m control_view \<Rightarrow> 'm control_view \<Rightarrow> 'm \<Rightarrow> nat \<Rightarrow> u64 \<Rightarrow> 'm \<Rightarrow> bool" where
  "both_updated qm b m i x m' \<longleftrightarrow>
     (\<forall>j. slot_values qm m' j = (if j = i then x else slot_values qm m j) \<and>
          slot_values b m' j = (if j = i then x else slot_values b m j))"

text \<open>The two controls are arrays of the same size in different memory segments.\<close>

locale composite_memory =
  fixes qm b :: "'m control_view"
  assumes same_size: "max_slots qm = max_slots b"
    and qm_span: "atomic_span (state_slots qm)"
    and b_span: "atomic_span (state_slots b)"
    and segments_apart [simp]:
      "rd (state_slots qm i) (wr (state_slots b j) x m) = rd (state_slots qm i) m"
      "rd (state_slots b i) (wr (state_slots qm j) x m) = rd (state_slots b i) m"
begin

lemma update_simps [simp]:
  "rd (state_slots qm i) (wr (state_slots qm j) x m) = (if i = j then x else rd (state_slots qm i) m)"
  "rd (state_slots b i) (wr (state_slots b j) x m) = (if i = j then x else rd (state_slots b i) m)"
  using atomic_span.rd_wr_span [OF qm_span] atomic_span.rd_wr_span [OF b_span] by auto

lemma both_updated_mirrored: "both_updated qm b m i x m' \<Longrightarrow> mirrored qm b m \<Longrightarrow> mirrored qm b m'"
  by (simp add: both_updated_def mirrored_def)

lemma AllocateNextMultiSlot_quiet:
  assumes "mirrored qm b (mem w)" "i < size_of b" "\<not> IsUsed (slot_values b (mem w) i)"
    and "GetTimeStamp (slot_values b (mem w) i) < TIMESTAMP_MAX"
  obtains s w' where "is_oldest_unused (slot_values b (mem w)) (size_of b) (Some s)"
    "AllocateNextMultiSlot quiet qm b w = Some (Some (slot_index s), w')"
    "both_updated qm b (mem w) (slot_index s) IN_WRITING (mem w')"
proof -
  have "is_oldest_unused (slot_values b (mem w)) 0 None" by (simp add: is_oldest_unused_def)
  from multi_search_quiet [OF this, of "size_of b" qm] obtain r d where
    find: "GetNextFreeMultiSlot quiet qm b w = Some (r, w\<lparr>tick := tick w + d\<rparr>)"
    and spec: "is_oldest_unused (slot_values b (mem w)) (size_of b) r"
    using assms(1) by (auto simp: GetNextFreeMultiSlot_def mirrored_def)
  from spec assms(2-4) obtain s where r: "r = Some s"
    by (cases r) (auto simp: is_oldest_unused_def)
  with spec assms(1) have s: "slot_index s < size_of b" "slot_value s = slot_values b (mem w) (slot_index s)"
    "slot_values qm (mem w) (slot_index s) = slot_values b (mem w) (slot_index s)"
    by (auto simp: is_oldest_unused_def mirrored_def)
  have "AllocateNextMultiSlot_loop (Suc k) quiet qm b w =
      Some (Some (slot_index s), own_write (wr (state_slots b (slot_index s)) IN_WRITING)
        (interfere quiet (own_write (wr (state_slots qm (slot_index s)) IN_WRITING)
          (interfere quiet (w\<lparr>tick := tick w + d\<rparr>)))))" for k
    using s by (simp add: find r TryAllocateSlot_def MarkInWriting_def compare_exchange_strong_def Let_def same_size)
  from this [of 99] that spec r show thesis
    by (auto simp: AllocateNextMultiSlot_def MAX_MULTI_ALLOCATE_RETRY_COUNT_def both_updated_def)
qed

lemma composite_EventReady_quiet:
  assumes "i < size_of b"
  shows "\<exists>w'. composite_EventReady quiet (EventDataControlComposite qm (Some b)) i ts w = Some w' \<and>
    both_updated qm b (mem w) i (EventSlotStatus ts 0) (mem w')"
  using assms
  by (simp add: composite_EventReady_def EventDataControlComposite_def EventReady_def store_def same_size both_updated_def)

lemma composite_Discard_quiet:
  assumes "mirrored qm b (mem w)" "i < size_of b"
  shows "\<exists>w'. composite_Discard quiet (EventDataControlComposite qm (Some b)) i w = Some w' \<and>
    both_updated qm b (mem w) i
      (if IsInWriting (slot_values b (mem w) i) then INVALID_EVENT else slot_values b (mem w) i) (mem w')"
  using assms
  by (auto simp: composite_Discard_def EventDataControlComposite_def Discard_def load_def Let_def store_def
      same_size both_updated_def mirrored_def MarkInvalid_def INVALID_EVENT_def)

end

end
