(* ===== verification/Event_Memory.thy ===== *)
theory Event_Memory
  imports Consumer_Control Control_Composite
begin

text \<open>
  The shared memory of one service element: \<^verbatim>\<open>event_control.h/.cpp\<close>,
  \<^verbatim>\<open>event_data_control.h\<close>, \<^verbatim>\<open>transaction_log.h/.cpp\<close>, and the data members of
  \<^verbatim>\<open>TransactionLogSet\<close> and \<^verbatim>\<open>EventSubscriptionControl\<close>. A skeleton creates
  one \<^verbatim>\<open>EventControl\<close> per quality, so the memory maps a quality to its control. A
  \<^verbatim>\<open>DynamicArray\<close> has a fixed size and is a function of the index beside that size.

  The cells below are the references the local views keep into this memory, and the
  interpretations show that they are distinct objects, which is all that the lemmas about the
  views ask of the memory.
\<close>

datatype quality_type = kInvalid | kASIL_QM | kASIL_B

record transaction_log =
  log_reference_count_slots :: "nat \<Rightarrow> transaction_log_slot"
  number_of_log_slots :: nat
  log_subscribe_transactions :: transaction_log_slot
  log_subscription_max_sample_count :: "u16 option"

record transaction_log_node =
  needs_rollback :: bool
  transaction_log_id :: u32
  node_transaction_log :: transaction_log

record transaction_log_set =
  proxy_transaction_logs :: "nat \<Rightarrow> transaction_log_node"
  number_of_logs :: u8
  skeleton_tracing_transaction_log :: transaction_log_node

record event_data_control =
  control_slots :: "nat \<Rightarrow> u64"
  control_slots_size :: u16

record event_subscription_control =
  current_subscription_state :: u32
  max_subscribable_slots :: u16
  max_subscribers :: u8
  enforce_max_samples :: bool

record event_control =
  data_control :: event_data_control
  subscription_control :: event_subscription_control
  event_transaction_log_set :: transaction_log_set

type_synonym event_memory = "quality_type \<Rightarrow> event_control"

definition kInvalidTransactionLogId :: u32 where
  "kInvalidTransactionLogId = - 1"

definition kSkeletonIndexSentinel :: u8 where
  "kSkeletonIndexSentinel = - 1"

subsection \<open>Construction\<close>

definition TransactionLog :: "nat \<Rightarrow> transaction_log" where
  "TransactionLog number_of_slots =
     \<lparr>log_reference_count_slots = (\<lambda>_. bits False False), number_of_log_slots = number_of_slots,
      log_subscribe_transactions = bits False False, log_subscription_max_sample_count = None\<rparr>"

definition TransactionLogNode :: "nat \<Rightarrow> transaction_log_node" where
  "TransactionLogNode number_of_slots =
     \<lparr>needs_rollback = False, transaction_log_id = kInvalidTransactionLogId,
      node_transaction_log = TransactionLog number_of_slots\<rparr>"

definition TransactionLogSet :: "u8 \<Rightarrow> nat \<Rightarrow> transaction_log_set option" where
  "TransactionLogSet max_number_of_logs number_of_slots = do {
     assert_prd (max_number_of_logs \<noteq> kSkeletonIndexSentinel);
     Some \<lparr>proxy_transaction_logs = (\<lambda>_. TransactionLogNode number_of_slots),
           number_of_logs = max_number_of_logs,
           skeleton_tracing_transaction_log = TransactionLogNode number_of_slots\<rparr>
   }"

definition EventDataControl :: "u16 \<Rightarrow> event_data_control" where
  "EventDataControl number_of_slots =
     \<lparr>control_slots = (\<lambda>_. INVALID_EVENT), control_slots_size = number_of_slots\<rparr>"

definition EventSubscriptionControl :: "u16 \<Rightarrow> u8 \<Rightarrow> bool \<Rightarrow> event_subscription_control" where
  "EventSubscriptionControl slot_count subscribers enforce =
     \<lparr>current_subscription_state = 0, max_subscribable_slots = slot_count,
      max_subscribers = subscribers, enforce_max_samples = enforce\<rparr>"

definition EventControl :: "u16 \<Rightarrow> u8 \<Rightarrow> bool \<Rightarrow> event_control option" where
  "EventControl number_of_slots subscribers enforce = do {
     logs \<leftarrow> TransactionLogSet subscribers (unat number_of_slots);
     Some \<lparr>data_control = EventDataControl number_of_slots,
           subscription_control = EventSubscriptionControl number_of_slots subscribers enforce,
           event_transaction_log_set = logs\<rparr>
   }"

subsection \<open>References into the memory\<close>

definition control_cell ::
  "quality_type \<Rightarrow> (event_control \<Rightarrow> 'v) \<Rightarrow> (('v \<Rightarrow> 'v) \<Rightarrow> event_control \<Rightarrow> event_control) \<Rightarrow> (event_memory, 'v) cell" where
  "control_cell q get update = Cell (\<lambda>m. get (m q)) (\<lambda>x m. m(q := update (\<lambda>_. x) (m q)))"

definition slot_cell :: "quality_type \<Rightarrow> nat \<Rightarrow> (event_memory, u64) cell" where
  "slot_cell q i = control_cell q (\<lambda>c. control_slots (data_control c) i)
     (\<lambda>f. data_control_update (control_slots_update (\<lambda>s. s(i := f (s i)))))"

definition subscription_cell :: "quality_type \<Rightarrow> (event_memory, u32) cell" where
  "subscription_cell q = control_cell q (\<lambda>c. current_subscription_state (subscription_control c))
     (\<lambda>f. subscription_control_update (current_subscription_state_update f))"

text \<open>A log is the one at an index, or the skeleton's tracing log.\<close>

datatype log_position = Proxy_Log nat | Skeleton_Log

fun node_at :: "log_position \<Rightarrow> event_control \<Rightarrow> transaction_log_node" where
  "node_at (Proxy_Log k) c = proxy_transaction_logs (event_transaction_log_set c) k"
| "node_at Skeleton_Log c = skeleton_tracing_transaction_log (event_transaction_log_set c)"

fun node_update ::
  "log_position \<Rightarrow> (transaction_log_node \<Rightarrow> transaction_log_node) \<Rightarrow> event_control \<Rightarrow> event_control" where
  "node_update (Proxy_Log k) f =
     event_transaction_log_set_update (proxy_transaction_logs_update (\<lambda>s. s(k := f (s k))))"
| "node_update Skeleton_Log f =
     event_transaction_log_set_update (skeleton_tracing_transaction_log_update f)"

definition id_cell :: "quality_type \<Rightarrow> log_position \<Rightarrow> (event_memory, u32) cell" where
  "id_cell q p = control_cell q (\<lambda>c. transaction_log_id (node_at p c)) (\<lambda>f. node_update p (transaction_log_id_update f))"

definition needs_rollback_cell :: "quality_type \<Rightarrow> log_position \<Rightarrow> (event_memory, bool) cell" where
  "needs_rollback_cell q p =
     control_cell q (\<lambda>c. needs_rollback (node_at p c)) (\<lambda>f. node_update p (needs_rollback_update f))"

definition entry_cell :: "quality_type \<Rightarrow> log_position \<Rightarrow> nat \<Rightarrow> (event_memory, transaction_log_slot) cell" where
  "entry_cell q p i = control_cell q (\<lambda>c. log_reference_count_slots (node_transaction_log (node_at p c)) i)
     (\<lambda>f. node_update p (node_transaction_log_update (log_reference_count_slots_update (\<lambda>s. s(i := f (s i))))))"

definition subscribe_transactions_cell :: "quality_type \<Rightarrow> log_position \<Rightarrow> (event_memory, transaction_log_slot) cell" where
  "subscribe_transactions_cell q p =
     control_cell q (\<lambda>c. log_subscribe_transactions (node_transaction_log (node_at p c)))
       (\<lambda>f. node_update p (node_transaction_log_update (log_subscribe_transactions_update f)))"

definition sample_count_cell :: "quality_type \<Rightarrow> log_position \<Rightarrow> (event_memory, u16 option) cell" where
  "sample_count_cell q p =
     control_cell q (\<lambda>c. log_subscription_max_sample_count (node_transaction_log (node_at p c)))
       (\<lambda>f. node_update p (node_transaction_log_update (log_subscription_max_sample_count_update f)))"

text \<open>The local views, each with the sizes found in the memory when it is made.\<close>

definition ProviderEventDataControlLocalView :: "quality_type \<Rightarrow> u16 \<Rightarrow> event_memory control_view" where
  "ProviderEventDataControlLocalView q n = \<lparr>state_slots = slot_cell q, max_slots = n\<rparr>"

definition TransactionLogLocalView :: "quality_type \<Rightarrow> log_position \<Rightarrow> nat \<Rightarrow> event_memory transaction_log_view" where
  "TransactionLogLocalView q p n =
     \<lparr>reference_count_slots = entry_cell q p, reference_count_slots_size = n,
      subscribe_transactions = subscribe_transactions_cell q p,
      subscription_max_sample_count = sample_count_cell q p\<rparr>"

definition ConsumerEventDataControlLocalView :: "quality_type \<Rightarrow> u16 \<Rightarrow> event_memory consumer_view" where
  "ConsumerEventDataControlLocalView q n =
     \<lparr>state_slots = slot_cell q, max_slots = n, transaction_log_local_view = None\<rparr>"

text \<open>The view of a consumer that has registered the log at a position.\<close>

definition registered_view :: "quality_type \<Rightarrow> log_position \<Rightarrow> u16 \<Rightarrow> event_memory consumer_view" where
  "registered_view q p n =
     SetTransactionLogLocalView (TransactionLogLocalView q p (unat n)) (ConsumerEventDataControlLocalView q n)"

abbreviation registered_log :: "quality_type \<Rightarrow> log_position \<Rightarrow> u16 \<Rightarrow> event_memory transaction_log_view" where
  "registered_log q p n \<equiv> TransactionLogLocalView q p (unat n)"

lemma view_simps [simp]:
  "state_slots (registered_view q p n) = slot_cell q" "max_slots (registered_view q p n) = n"
  "state_slots (ProviderEventDataControlLocalView q n) = slot_cell q"
  "max_slots (ProviderEventDataControlLocalView q n) = n"
  "reference_count_slots_size (TransactionLogLocalView q p k) = k"
  by (simp_all add: registered_view_def SetTransactionLogLocalView_def ConsumerEventDataControlLocalView_def
      ProviderEventDataControlLocalView_def TransactionLogLocalView_def)

subsection \<open>The cells are distinct objects\<close>

lemma control_cell_simps [simp]:
  "rd (control_cell q get update) m = get (m q)"
  "wr (control_cell q get update) x m = m(q := update (\<lambda>_. x) (m q))"
  by (simp_all add: control_cell_def)

lemma node_access [simp]:
  "node_at p (node_update p' f c) = (if p = p' then f (node_at p c) else node_at p c)"
  "data_control (node_update p f c) = data_control c"
  "subscription_control (node_update p f c) = subscription_control c"
  "node_at p (data_control_update g c) = node_at p c"
  "node_at p (subscription_control_update h c) = node_at p c"
  by ((cases p; cases p'; auto), (cases p; auto)+)

lemma node_update_compose [simp]: "node_update p f (node_update p g c) = node_update p (f \<circ> g) c"
  by (cases p) (simp_all add: comp_def fun_upd_def cong: if_cong)

lemma node_update_same [simp]: "f (node_at p c) = node_at p c \<Longrightarrow> node_update p f c = c"
  by (cases p; cases c; simp)

lemma control_update_same [simp]:
  "f (data_control c) = data_control c \<Longrightarrow> data_control_update f c = c"
  "g (subscription_control c) = subscription_control c \<Longrightarrow> subscription_control_update g c = c"
  by (cases c; simp)+

lemmas memory_cells =
  slot_cell_def subscription_cell_def id_cell_def needs_rollback_cell_def entry_cell_def
  subscribe_transactions_cell_def sample_count_cell_def

interpretation slots: atomic_span "slot_cell q" for q
  by unfold_locales (simp_all add: memory_cells comp_def)

interpretation subscription: atomic_object "subscription_cell q" for q
  by unfold_locales (simp_all add: memory_cells comp_def)

interpretation log_id: atomic_object "id_cell q p" for q p
  by unfold_locales (simp_all add: memory_cells comp_def)

interpretation entries: atomic_span "entry_cell q p" for q p
  by unfold_locales (simp_all add: memory_cells comp_def)

interpretation plog: log_memory "TransactionLogLocalView q p n" for q p n
  by unfold_locales (simp_all add: TransactionLogLocalView_def memory_cells comp_def)

interpretation consumer: consumer_memory "TransactionLogLocalView q p (unat n)" "registered_view q p n" for q p n
  by unfold_locales
    (simp_all add: TransactionLogLocalView_def registered_view_def SetTransactionLogLocalView_def
      ConsumerEventDataControlLocalView_def memory_cells comp_def)

interpretation segments: composite_memory
  "ProviderEventDataControlLocalView kASIL_QM n" "ProviderEventDataControlLocalView kASIL_B n" for n
  by unfold_locales (simp_all add: ProviderEventDataControlLocalView_def memory_cells comp_def)

end
