(* ===== verification/Event_Data_Path.thy ===== *)
theory Event_Data_Path
  imports Event_Memory
begin

text \<open>
  The properties of the data path of an event: what a provider does to a control slot, what a
  consumer does to it, and what is left of it when either of them stops in the middle. They are
  stated on the event memory of \<open>Event_Memory\<close> or on any memory.
\<close>

text \<open>
  A small event for the witnesses: three slots holding a sample of time stamp 5, a sample of
  time stamp 7 and nothing, in both qualities.
\<close>

definition example_slots :: "nat \<Rightarrow> u64" where
  "example_slots = (\<lambda>_. INVALID_EVENT)(0 := EventSlotStatus 5 0, 1 := EventSlotStatus 7 0)"

definition example_memory :: event_memory where
  "example_memory = (\<lambda>_. the (EventControl 3 2 True)\<lparr>data_control :=
     \<lparr>control_slots = example_slots, control_slots_size = 3\<rparr>\<rparr>)"

abbreviation example_log :: "event_memory transaction_log_view" where
  "example_log \<equiv> registered_log kASIL_QM (Proxy_Log 0) 3"

abbreviation example_view :: "event_memory consumer_view" where
  "example_view \<equiv> registered_view kASIL_QM (Proxy_Log 0) 3"

lemmas example_defs =
  example_memory_def EventControl_def TransactionLogSet_def kSkeletonIndexSentinel_def
  EventDataControl_def EventSubscriptionControl_def TransactionLogNode_def TransactionLog_def

lemma example_entry [simp]: "log_entry (TransactionLogLocalView q p k) example_memory i = bits False False"
  by (cases p) (simp_all add: TransactionLogLocalView_def memory_cells example_defs)

lemma example_slot_values [simp]: "rd (slot_cell q i) example_memory = example_slots i"
  by (simp add: memory_cells example_defs)

lemma example_run:
  "map_option (\<lambda>w. length (own_steps w))
     (run_ops quiet example_view example_log [Reference_Specific 1] (start example_memory)) = Some 3"
  by code_simp

subsection \<open>A consumer that stops in the middle\<close>

text \<open>
  C1. A consumer starts with an empty transaction log and references, dereferences and rolls
  back in any order while other participants do anything except writing this log. It stops
  after any one of its writes to shared memory. The rollback that its successor runs on the log
  then always returns: it fails with \<open>kCouldNotRestartProxy\<close> exactly if some transaction was
  open when the consumer stopped; otherwise it empties the log, and what the two processes
  together have added to the word of every control slot is zero, so no reference is leaked and
  none is given back twice.
\<close>

theorem rollback_undoes_crashed_consumer:
  assumes "log_private e (registered_log q p n)"
    and "\<And>i. log_entry (registered_log q p n) (mem w) i = bits False False"
    and "run_ops e (registered_view q p n) (registered_log q p n) ops w = Some w'"
    and "own_steps w' = own_steps w @ done_steps @ [last_step] @ lost_steps"
    and "log_private e2 (registered_log q p n)"
    and "\<And>i. log_entry (registered_log q p n) m i = log_entry (registered_log q p n) (snd last_step) i"
  shows "\<exists>r w2. RollbackIncrementTransactions e2 (registered_log q p n)
      (DereferenceEventWithoutTransactionLogging e2 (registered_view q p n)) (start m) = Some (r, w2) \<and>
    (if \<forall>i < size_of (registered_view q p n).
          log_entry (registered_log q p n) m i \<in> {bits False False, bits True True}
     then r = Inr () \<and> (\<forall>i < size_of (registered_view q p n).
       log_entry (registered_log q p n) (mem w2) i = bits False False \<and>
       contribution (registered_view q p n) (done_steps @ [last_step]) i +
         contribution (registered_view q p n) (own_steps w2) i = 0)
     else r = Inl kCouldNotRestartProxy)"
  by (rule consumer.rollback_after_crash [OF assms(1) _ assms(3-6)]) (simp add: wal_ok_def assms(2))

lemma split_three: "length xs = 3 \<Longrightarrow> xs = [xs ! 0, xs ! 1] @ [xs ! 2] @ []"
  by (simp add: list_eq_iff_nth_eq less_Suc_eq numeral_3_eq_3 numeral_2_eq_2)

theorem rollback_undoes_crashed_consumer_witness:
  "\<exists>w' r w2.
     run_ops quiet example_view example_log [Reference_Specific 1] (start example_memory) = Some w' \<and>
     RollbackIncrementTransactions quiet example_log
       (DereferenceEventWithoutTransactionLogging quiet example_view) (start (snd (own_steps w' ! 2))) = Some (r, w2)"
proof -
  obtain w' where w': "run_ops quiet example_view example_log [Reference_Specific 1] (start example_memory) = Some w'"
      "length (own_steps w') = 3"
    using example_run by (auto simp del: run_ops.simps)
  have "own_steps w' = own_steps (start example_memory) @
      [own_steps w' ! 0, own_steps w' ! 1] @ [own_steps w' ! 2] @ []"
    using split_three [OF w'(2)] by simp
  from rollback_undoes_crashed_consumer [OF _ _ w'(1) this, of quiet "snd (own_steps w' ! 2)"]
  show ?thesis using w'(1) by (auto simp del: run_ops.simps)
qed

text \<open>
  C2. Rolling back a log that is truthful about what its owner has added to the slots so far
  cannot terminate the process, whatever other participants do to the rest of the memory. It
  succeeds exactly if no entry is inside a transaction, and then every entry is clear and the
  owner has nothing left on any slot. The log is truthful after every single write of the
  rollback itself, so a rollback that is interrupted can be repeated.
\<close>

theorem rollback_total:
  assumes "log_private e (registered_log q p n)" "wal_ok (registered_log q p n) (mem w) c"
  shows "\<exists>r w' c'. RollbackIncrementTransactions e (registered_log q p n)
      (DereferenceEventWithoutTransactionLogging e (registered_view q p n)) w = Some (r, w') \<and>
    rolled_back (registered_view q p n) (registered_log q p n) [0..<unat n] c w c' r w'"
  using consumer.RollbackIncrementTransactions_rolled_back [OF assms] by (metis view_simps(2))

theorem rollback_total_witness:
  "\<exists>r w' c'. RollbackIncrementTransactions quiet example_log
      (DereferenceEventWithoutTransactionLogging quiet example_view) (start example_memory) = Some (r, w') \<and>
    rolled_back example_view example_log [0..<unat (3::u16)] (\<lambda>_. 0) (start example_memory) c' r w'"
  by (rule rollback_total) (simp_all add: wal_ok_def)

subsection \<open>Taking references\<close>

text \<open>
  C3. Whatever the other participants do, a consumer that obtains a slot from
  \<open>ReferenceNextEvent\<close> has changed the control slots by exactly one write, which added one to
  the word of that slot while it held a sample whose time stamp is inside the requested range,
  neither invalid nor being written. If it obtains none, none of its writes has changed a slot.
\<close>

theorem ReferenceNextEvent_takes_one_reference:
  assumes "ReferenceNextEvent e (registered_view q p n) lo hi c w = Some (r, c', w')"
  shows "case r of
      Some i \<Rightarrow> referenced (registered_view q p n) lo hi w i w'
    | None \<Rightarrow> log_only (registered_view q p n) w w'"
proof -
  from assms obtain outcome where
    "ReferenceNextEvent_loop e (registered_view q p n) lo hi 0 w = Some (outcome, w')"
    "r = (case outcome of Referenced i _ \<Rightarrow> Some i | _ \<Rightarrow> None)"
    by (rule ReferenceNextEvent_outcome)
  with consumer.ReferenceNextEvent_loop_safe [of e q p n lo hi 0 w outcome w'] show ?thesis
    by (cases outcome) auto
qed

text \<open>
  C7. When nobody interferes and the log is empty, \<open>ReferenceNextEvent\<close> returns the youngest
  sample of the requested range (the first of them if several are equally old), and none
  exactly if there is no such sample. The reference count of that slot grows by one, the log
  records the reference, and nothing else changes; the retry statistics stay as they are.
\<close>

theorem ReferenceNextEvent_newest:
  assumes "\<And>i. i < unat n \<Longrightarrow> log_entry (registered_log q p n) (mem w) i = bits False False"
  shows "\<exists>r w'. ReferenceNextEvent quiet (registered_view q p n) lo hi c w = Some (r, c, w') \<and>
    is_newest_between (slot_values (registered_view q p n) (mem w)) (unat n) lo hi r \<and>
    (\<forall>j. slot_values (registered_view q p n) (mem w') j =
       slot_values (registered_view q p n) (mem w) j + (if r = Some j then 1 else 0)) \<and>
    (\<forall>j. log_entry (registered_log q p n) (mem w') j =
       (if r = Some j then bits True True else log_entry (registered_log q p n) (mem w) j))"
  using consumer.ReferenceNextEvent_quiet [where n = n and q = q and p = p and w = w] assms by simp

theorem ReferenceNextEvent_newest_witness:
  "\<exists>r w'. ReferenceNextEvent quiet example_view 0 9 \<lparr>num_ref_misses = 0, num_ref_retries = 0\<rparr> (start example_memory) =
      Some (r, \<lparr>num_ref_misses = 0, num_ref_retries = 0\<rparr>, w') \<and>
    is_newest_between example_slots 3 0 9 r"
  using ReferenceNextEvent_newest
    [of 3 kASIL_QM "Proxy_Log 0" "start example_memory" 0 9 "\<lparr>num_ref_misses = 0, num_ref_retries = 0\<rparr>"] by auto

lemma example_reference:
  obtains r w' where
    "ReferenceNextEvent quiet example_view 0 9 \<lparr>num_ref_misses = 0, num_ref_retries = 0\<rparr> (start example_memory) =
      Some (r, \<lparr>num_ref_misses = 0, num_ref_retries = 0\<rparr>, w')"
  using consumer.ReferenceNextEvent_quiet
    [where n = 3 and q = kASIL_QM and p = "Proxy_Log 0" and w = "start example_memory"] by simp blast

theorem ReferenceNextEvent_takes_one_reference_witness:
  "\<exists>r w'. ReferenceNextEvent quiet example_view 0 9 \<lparr>num_ref_misses = 0, num_ref_retries = 0\<rparr> (start example_memory) =
      Some (r, \<lparr>num_ref_misses = 0, num_ref_retries = 0\<rparr>, w') \<and>
    (case r of
      Some i \<Rightarrow> referenced example_view 0 9 (start example_memory) i w'
    | None \<Rightarrow> log_only example_view (start example_memory) w')"
proof -
  obtain r w' where
    "ReferenceNextEvent quiet example_view 0 9 \<lparr>num_ref_misses = 0, num_ref_retries = 0\<rparr> (start example_memory) =
      Some (r, \<lparr>num_ref_misses = 0, num_ref_retries = 0\<rparr>, w')"
    by (rule example_reference)
  with ReferenceNextEvent_takes_one_reference [OF this] show ?thesis by blast
qed

text \<open>
  Each of the five operations around a reference is one step of a four-state automaton on
  the two bits of a log entry: it runs exactly if the entry is in its source state and
  terminates the process otherwise, and it changes nothing but that entry, which it leaves in
  its target state.
\<close>

lemma transaction_automaton:
  assumes "log_private e (registered_log q p n)" "i < unat n"
  shows "moves (registered_log q p n) (ReferenceTransactionBegin e (registered_log q p n) i) i
      (bits False False) (bits True False) w \<and>
    moves (registered_log q p n) (ReferenceTransactionCommit e (registered_log q p n) i) i
      (bits True False) (bits True True) w \<and>
    moves (registered_log q p n) (ReferenceTransactionAbort e (registered_log q p n) i) i
      (bits True False) (bits False False) w \<and>
    moves (registered_log q p n) (DereferenceTransactionBegin e (registered_log q p n) i) i
      (bits True True) (bits False True) w \<and>
    moves (registered_log q p n) (DereferenceTransactionCommit e (registered_log q p n) i) i
      (bits False True) (bits False False) w"
  using plog.transactions_move [OF assms(1)] assms(2) by simp


text \<open>
  Counting the new events when nobody interferes gives the number of slots whose sample is
  younger than the reference time.
\<close>

lemma GetNumNewEvents_counts:
  "fst (GetNumNewEvents quiet v t w) =
     card {i. i < size_of v \<and> IsTimeStampBetween t TIMESTAMP_MAX (slot_values v (mem w) i)}"
proof -
  let ?P = "\<lambda>i. IsTimeStampBetween t TIMESTAMP_MAX (slot_values v (mem w) i)"
  have "length (filter ?P [0..<size_of v]) = card (set (filter ?P [0..<size_of v]))"
    by (simp add: distinct_card del: set_filter)
  also have "set (filter ?P [0..<size_of v]) = {i. i < size_of v \<and> ?P i}" by auto
  finally show ?thesis by (simp add: GetNumNewEvents_def GetNumNewEvents_loop_quiet)
qed

subsection \<open>Allocating slots\<close>

text \<open>
  C4. \<open>AllocateNextSlot\<close> always returns, whatever the other participants do. It writes at most
  once: a slot is returned exactly if one write has turned a slot that was unused at that
  instant into one that is being written, so no sample that a consumer holds is overwritten.
\<close>

theorem AllocateNextSlot_safe:
  "\<exists>slot c' w'. AllocateNextSlot e v c w = Some (slot, c', w') \<and> allocated v w slot w'"
  using AllocateNextSlot_allocated by metis

text \<open>
  C8. When nobody interferes and some slot is unused, \<open>AllocateNextSlot\<close> succeeds at the first
  attempt and marks the oldest unused slot (the first of them if several are equally old).
\<close>

theorem AllocateNextSlot_oldest:
  assumes "i < size_of v" "\<not> IsUsed (slot_values v (mem w) i)"
    and "GetTimeStamp (slot_values v (mem w) i) < TIMESTAMP_MAX"
  shows "\<exists>s w'. is_oldest_unused (slot_values v (mem w)) (size_of v) (Some s) \<and>
    AllocateNextSlot quiet v c w = Some (Some (slot_index s), c, w') \<and>
    mem w' = wr (state_slots v (slot_index s)) IN_WRITING (mem w)"
proof -
  obtain s w' where "is_oldest_unused (slot_values v (mem w)) (size_of v) (Some s)"
    "AllocateNextSlot_loop quiet v 0 w = Some (Some (slot_index s), 0, w')"
    "mem w' = wr (state_slots v (slot_index s)) IN_WRITING (mem w)"
    by (rule AllocateNextSlot_loop_quiet [OF assms])
  then show ?thesis by (auto simp: AllocateNextSlot_def LogPerformanceMetrics_def)
qed

lemma example_unused: "\<not> IsUsed (example_slots 0)" "GetTimeStamp (example_slots 0) < TIMESTAMP_MAX"
  by (simp_all add: example_slots_def TIMESTAMP_MAX_def)

theorem AllocateNextSlot_oldest_witness:
  "\<exists>s w'. is_oldest_unused example_slots 3 (Some s) \<and>
    AllocateNextSlot quiet (ProviderEventDataControlLocalView kASIL_QM 3)
      \<lparr>num_alloc_misses = 0, num_alloc_retries = 0\<rparr> (start example_memory) =
      Some (Some (slot_index s), \<lparr>num_alloc_misses = 0, num_alloc_retries = 0\<rparr>, w')"
  using AllocateNextSlot_oldest [of 0 "ProviderEventDataControlLocalView kASIL_QM 3" "start example_memory"
      "\<lparr>num_alloc_misses = 0, num_alloc_retries = 0\<rparr>"] example_unused by auto

text \<open>
  A restarted provider frees the slots its predecessor was writing: when nobody interferes
  those slots become invalid and every other slot keeps its word.
\<close>

lemma RemoveAllocationsForWriting_frees:
  "\<exists>w'. RemoveAllocationsForWriting quiet (ProviderEventDataControlLocalView q n) w = Some w' \<and>
    (\<forall>j. slot_values (ProviderEventDataControlLocalView q n) (mem w') j =
       (if j < unat n \<and> IsInWriting (slot_values (ProviderEventDataControlLocalView q n) (mem w) j) then INVALID_EVENT
        else slot_values (ProviderEventDataControlLocalView q n) (mem w) j))"
  using remove_loop_quiet [of "ProviderEventDataControlLocalView q n" "[0..<unat n]" w] slots.atomic_span_axioms [of q]
  by (auto simp: RemoveAllocationsForWriting_def)

text \<open>
  Whatever the other participants do, cleaning up changes only slots that are being
  written at that instant, and turns them into invalid ones.
\<close>

lemma RemoveAllocationsForWriting_only_writing:
  assumes "RemoveAllocationsForWriting e v w = Some w'"
  shows "\<exists>ss. own_steps w' = own_steps w @ ss \<and>
    (\<forall>(m, m')\<in>set ss. \<exists>i < size_of v. IsInWriting (slot_values v m i) \<and>
       m' = wr (state_slots v i) INVALID_EVENT m)"
  using remove_loop_steps [OF assms [unfolded RemoveAllocationsForWriting_def]] by fastforce


subsection \<open>Two qualities in step\<close>

abbreviation qm_view :: "u16 \<Rightarrow> event_memory control_view" where
  "qm_view n \<equiv> ProviderEventDataControlLocalView kASIL_QM n"

abbreviation b_view :: "u16 \<Rightarrow> event_memory control_view" where
  "b_view n \<equiv> ProviderEventDataControlLocalView kASIL_B n"

text \<open>
  C6. Whatever the other participants do, the multi-slot allocation leaves nothing behind from
  attempts that failed half way: each of its QM markings is followed by the write that puts the
  old value back, except for the last one of a successful call, which is followed by marking
  the same slot for ASIL-B; both controls held the same unused value at those instants.
\<close>

theorem AllocateNextMultiSlot_safe:
  assumes "AllocateNextMultiSlot e qm b w = Some (slot, w')" "max_slots qm = max_slots b"
  shows "multi_allocated qm b w slot w'"
  by (rule AllocateNextMultiSlot_loop_safe [OF assms(1) [unfolded AllocateNextMultiSlot_def]])
    (simp add: assms(2))

text \<open>
  C5. When the two controls are in step, nobody interferes and some slot is unused, the
  composite allocates exactly the slot a single control would allocate, the oldest unused one,
  marks it in both, reports no QM misbehaviour and leaves the controls in step.
\<close>

theorem composite_allocates_oldest:
  assumes "mirrored (qm_view n) (b_view n) (mem w)" "i < unat n"
    and "\<not> IsUsed (slot_values (b_view n) (mem w) i)"
    and "GetTimeStamp (slot_values (b_view n) (mem w) i) < TIMESTAMP_MAX"
  shows "\<exists>s w'. is_oldest_unused (slot_values (b_view n) (mem w)) (unat n) (Some s) \<and>
    composite_AllocateNextSlot quiet (EventDataControlComposite (qm_view n) (Some (b_view n))) c w =
      Some (\<lparr>allocated_slot_index = Some (slot_index s), qm_misbehaved = False\<rparr>,
            EventDataControlComposite (qm_view n) (Some (b_view n)), c, w') \<and>
    both_updated (qm_view n) (b_view n) (mem w) (slot_index s) IN_WRITING (mem w') \<and>
    mirrored (qm_view n) (b_view n) (mem w')"
proof -
  obtain s w' where "is_oldest_unused (slot_values (b_view n) (mem w)) (unat n) (Some s)"
    "AllocateNextMultiSlot quiet (qm_view n) (b_view n) w = Some (Some (slot_index s), w')"
    "both_updated (qm_view n) (b_view n) (mem w) (slot_index s) IN_WRITING (mem w')"
    by (rule segments.AllocateNextMultiSlot_quiet [OF assms(1), of i]) (use assms(2-4) in simp_all)
  then show ?thesis
    using segments.both_updated_mirrored [OF _ assms(1)]
    by (auto simp: composite_AllocateNextSlot_def EventDataControlComposite_def)
qed

lemma example_mirrored: "mirrored (qm_view 3) (b_view 3) example_memory"
  by (simp add: mirrored_def)

theorem composite_allocates_oldest_witness:
  "\<exists>s w'. is_oldest_unused example_slots 3 (Some s) \<and>
    composite_AllocateNextSlot quiet (EventDataControlComposite (qm_view 3) (Some (b_view 3)))
      \<lparr>num_alloc_misses = 0, num_alloc_retries = 0\<rparr> (start example_memory) =
      Some (\<lparr>allocated_slot_index = Some (slot_index s), qm_misbehaved = False\<rparr>,
            EventDataControlComposite (qm_view 3) (Some (b_view 3)),
            \<lparr>num_alloc_misses = 0, num_alloc_retries = 0\<rparr>, w') \<and>
    mirrored (qm_view 3) (b_view 3) (mem w')"
  using composite_allocates_oldest [of 3 "start example_memory" 0 "\<lparr>num_alloc_misses = 0, num_alloc_retries = 0\<rparr>"]
    example_mirrored example_unused by auto

lemma example_multi_alloc:
  "\<exists>i w'. AllocateNextMultiSlot quiet (qm_view 3) (b_view 3) (start example_memory) = Some (Some i, w')"
  by (rule segments.AllocateNextMultiSlot_quiet [where n = 3 and w = "start example_memory" and i = 0])
    (use example_mirrored example_unused in auto)

theorem AllocateNextMultiSlot_safe_witness:
  "\<exists>i w'. AllocateNextMultiSlot quiet (qm_view 3) (b_view 3) (start example_memory) = Some (Some i, w') \<and>
    multi_allocated (qm_view 3) (b_view 3) (start example_memory) (Some i) w'"
proof -
  obtain i w' where
    "AllocateNextMultiSlot quiet (qm_view 3) (b_view 3) (start example_memory) = Some (Some i, w')"
    using example_multi_alloc by blast
  with AllocateNextMultiSlot_safe [OF this] show ?thesis by auto
qed

text \<open>
  C9. A QM consumer that keeps every QM slot in use cannot stop an ASIL-B provider: the
  composite then disconnects the QM side, reports the misbehaviour and allocates the oldest
  unused slot of the ASIL-B control, without touching the QM control.
\<close>

theorem composite_survives_qm_exhaustion:
  assumes "\<forall>j < unat n. IsUsed (slot_values (qm_view n) (mem w) j)"
    and "i < unat n" "\<not> IsUsed (slot_values (b_view n) (mem w) i)"
    and "GetTimeStamp (slot_values (b_view n) (mem w) i) < TIMESTAMP_MAX"
  shows "\<exists>s w'. is_oldest_unused (slot_values (b_view n) (mem w)) (unat n) (Some s) \<and>
    composite_AllocateNextSlot quiet (EventDataControlComposite (qm_view n) (Some (b_view n))) c w =
      Some (\<lparr>allocated_slot_index = Some (slot_index s), qm_misbehaved = True\<rparr>,
            (EventDataControlComposite (qm_view n) (Some (b_view n)))\<lparr>ignore_qm_control := True\<rparr>, c, w') \<and>
    mem w' = wr (slot_cell kASIL_B (slot_index s)) IN_WRITING (mem w)"
proof -
  obtain d where "AllocateNextMultiSlot quiet (qm_view n) (b_view n) w = Some (None, w\<lparr>tick := tick w + d\<rparr>)"
    using multi_alloc_blocked [of "b_view n" "qm_view n" w] assms(1) by (auto simp: AllocateNextMultiSlot_def)
  moreover obtain s w' where "is_oldest_unused (slot_values (b_view n) (mem w)) (unat n) (Some s)"
    "AllocateNextSlot_loop quiet (b_view n) 0 (w\<lparr>tick := tick w + d\<rparr>) = Some (Some (slot_index s), 0, w')"
    "mem w' = wr (slot_cell kASIL_B (slot_index s)) IN_WRITING (mem w)"
    by (rule AllocateNextSlot_loop_quiet [of i "b_view n" "w\<lparr>tick := tick w + d\<rparr>"]) (use assms(2-4) in simp_all)
  ultimately show ?thesis
    by (auto simp: composite_AllocateNextSlot_def EventDataControlComposite_def AllocateNextSlot_def
        LogPerformanceMetrics_def)
qed

text \<open>The same event with other words in the QM control.\<close>

definition with_qm_slots :: "(nat \<Rightarrow> u64) \<Rightarrow> event_memory" where
  "with_qm_slots val = example_memory(kASIL_QM := (example_memory kASIL_QM)
     \<lparr>data_control := \<lparr>control_slots = val, control_slots_size = 3\<rparr>\<rparr>)"

lemma with_qm_slots_values [simp]:
  "rd (slot_cell kASIL_QM i) (with_qm_slots val) = val i"
  "rd (slot_cell kASIL_B i) (with_qm_slots val) = example_slots i"
  by (simp_all add: with_qm_slots_def memory_cells example_defs)

theorem composite_survives_qm_exhaustion_witness:
  "\<exists>s w'. is_oldest_unused example_slots 3 (Some s) \<and>
    composite_AllocateNextSlot quiet (EventDataControlComposite (qm_view 3) (Some (b_view 3)))
      \<lparr>num_alloc_misses = 0, num_alloc_retries = 0\<rparr> (start (with_qm_slots (\<lambda>_. EventSlotStatus 9 1))) =
      Some (\<lparr>allocated_slot_index = Some (slot_index s), qm_misbehaved = True\<rparr>,
            (EventDataControlComposite (qm_view 3) (Some (b_view 3)))\<lparr>ignore_qm_control := True\<rparr>,
            \<lparr>num_alloc_misses = 0, num_alloc_retries = 0\<rparr>, w')"
  using composite_survives_qm_exhaustion [of 3 "start (with_qm_slots (\<lambda>_. EventSlotStatus 9 1))" 0
      "\<lparr>num_alloc_misses = 0, num_alloc_retries = 0\<rparr>"] example_unused
  by (auto simp: IsUsed_iff)

text \<open>
  C10. Damage to the QM control that only changes the time stamp of an unused slot does stop the
  ASIL-B provider: if the first slot is unused in both controls but holds different words, the
  allocation terminates the process instead of disconnecting the QM side. Only the case of a
  slot that is invalid for ASIL-B and not invalid for QM is caught before.
\<close>

theorem qm_time_stamp_terminates_provider:
  assumes "0 < unat n" "\<not> IsUsed (slot_values (qm_view n) (mem w) 0)" "\<not> IsUsed (slot_values (b_view n) (mem w) 0)"
    and "\<not> IsInvalid (slot_values (b_view n) (mem w) 0)" "GetTimeStamp (slot_values (b_view n) (mem w) 0) < TIMESTAMP_MAX"
    and "slot_values (qm_view n) (mem w) 0 \<noteq> slot_values (b_view n) (mem w) 0"
  shows "composite_AllocateNextSlot quiet (EventDataControlComposite (qm_view n) (Some (b_view n))) c w = None"
proof -
  have "[0..<unat n] = 0 # [1..<unat n]" using assms(1) by (simp add: upt_conv_Cons)
  then have "GetNextFreeMultiSlot quiet (qm_view n) (b_view n) w = None"
    using assms(2-6) by (simp add: GetNextFreeMultiSlot_def load_quiet Let_def)
  then have "AllocateNextMultiSlot_loop (Suc k) quiet (qm_view n) (b_view n) w = None" for k by simp
  from this [of 99] show ?thesis
    by (simp add: composite_AllocateNextSlot_def EventDataControlComposite_def AllocateNextMultiSlot_def
        MAX_MULTI_ALLOCATE_RETRY_COUNT_def)
qed

theorem qm_time_stamp_terminates_provider_witness:
  "composite_AllocateNextSlot quiet (EventDataControlComposite (qm_view 3) (Some (b_view 3)))
     \<lparr>num_alloc_misses = 0, num_alloc_retries = 0\<rparr>
     (start (with_qm_slots (example_slots(0 := EventSlotStatus 6 0)))) = None"
  by (rule qm_time_stamp_terminates_provider)
    (simp_all add: example_unused, simp_all add: example_slots_def slot_simps)

subsection \<open>The word of a slot\<close>

text \<open>
  The 64-bit word of a slot is the pair of its time stamp and its reference count: both
  parts are recovered from it, and it is determined by them. The two markers are such words
  with time stamp 0, so no sample of a positive time stamp is ever taken for one of them.
\<close>

lemma slot_word_round_trip:
  "GetTimeStamp (EventSlotStatus ts rc) = ts \<and> GetReferenceCount (EventSlotStatus ts rc) = rc \<and>
   EventSlotStatus (GetTimeStamp d) (GetReferenceCount d) = d \<and>
   (IsInvalid (EventSlotStatus ts rc) \<longleftrightarrow> ts = 0 \<and> rc = 0) \<and>
   (IsInWriting (EventSlotStatus ts rc) \<longleftrightarrow> ts = 0 \<and> rc = - 1)"
  by (simp add: slot_simps)

text \<open>
  C11. \<open>ReferenceNextEvent\<close> does not notice that a reference count is full, because its check
  compares the whole word. Referencing a slot whose 32-bit count is at its maximum clears the
  count and makes the sample appear one time unit younger.
\<close>

theorem full_reference_count_spills:
  assumes "\<And>i. i < unat n \<Longrightarrow> log_entry (registered_log q p n) (mem w) i = bits False False"
    and "ReferenceNextEvent quiet (registered_view q p n) lo hi c w = Some (Some i, c', w')"
    and "slot_values (registered_view q p n) (mem w) i = EventSlotStatus ts (- 1)"
  shows "slot_values (registered_view q p n) (mem w') i = EventSlotStatus (ts + 1) 0"
  using consumer.ReferenceNextEvent_quiet [where n = n and q = q and p = p and w = w and lo = lo and hi = hi and c = c]
    assms by (auto simp: add_reference_overflow)

lemma with_qm_slots_entry [simp]:
  "log_entry (TransactionLogLocalView kASIL_QM p k) (with_qm_slots val) i = bits False False"
  by (cases p) (simp_all add: with_qm_slots_def TransactionLogLocalView_def memory_cells example_defs)

lemma full_count_candidate:
  assumes "is_newest_between (\<lambda>i. if i = 0 then EventSlotStatus 5 (- 1) else INVALID_EVENT) 3 0 9 r"
  shows "r = Some 0"
  using assms by (cases r) (auto simp: is_newest_between_def IsTimeStampBetween_def slot_simps split: if_splits)

theorem full_reference_count_spills_witness:
  "\<exists>w'. ReferenceNextEvent quiet example_view 0 9 \<lparr>num_ref_misses = 0, num_ref_retries = 0\<rparr>
      (start (with_qm_slots ((\<lambda>_. INVALID_EVENT)(0 := EventSlotStatus 5 (- 1))))) =
      Some (Some 0, \<lparr>num_ref_misses = 0, num_ref_retries = 0\<rparr>, w') \<and>
    rd (slot_cell kASIL_QM 0) (mem w') = EventSlotStatus 6 0"
proof -
  let ?w = "start (with_qm_slots ((\<lambda>_. INVALID_EVENT)(0 := EventSlotStatus 5 (- 1))))"
    and ?c = "\<lparr>num_ref_misses = 0, num_ref_retries = 0\<rparr>"
  obtain w' where run: "ReferenceNextEvent quiet example_view 0 9 ?c ?w = Some (Some 0, ?c, w')"
    using consumer.ReferenceNextEvent_quiet
      [where n = 3 and q = kASIL_QM and p = "Proxy_Log 0" and w = ?w and lo = 0 and hi = 9 and c = ?c]
      full_count_candidate by auto
  from full_reference_count_spills [OF _ run, of 5] run show ?thesis by auto
qed

end
