(* ===== verification/Slot_Collector.thy ===== *)
theory Slot_Collector
  imports Event_Data_Path
begin

text \<open>
  \<^verbatim>\<open>slot_collector.h/.cpp\<close> and \<^verbatim>\<open>slot_decrementer.h/.cpp\<close>: how a proxy event
  gathers the samples that are new to it, and how a sample handed to the user gives its
  reference back. The collector fills a vector allocated at subscription, youngest sample
  first, and hands it out in reverse, so that the user sees the samples in the order they were
  sent.
\<close>

record 'm slot_collector =
  event_data_control_local :: "'m consumer_view"
  last_ts :: event_time_stamp
  collected_slots :: "nat list"

definition SlotCollector :: "'m consumer_view \<Rightarrow> nat \<Rightarrow> 'm slot_collector option" where
  "SlotCollector v slot_count = do {
     assert_prd (slot_count > 0);
     Some \<lparr>event_data_control_local = v, last_ts = 0, collected_slots = replicate slot_count 0\<rparr>
   }"

definition GetNumNewSamplesAvailable :: "'m environment \<Rightarrow> 'm slot_collector \<Rightarrow> 'm world \<Rightarrow> nat \<times> 'm world" where
  "GetNumNewSamplesAvailable e s w = GetNumNewEvents e (event_data_control_local s) (last_ts s) w"

text \<open>The position in the vector stands for the iterator \<^verbatim>\<open>collected_slot\<close>.\<close>

fun CollectSlots_loop ::
  "nat \<Rightarrow> 'm environment \<Rightarrow> 'm consumer_view \<Rightarrow> event_time_stamp \<Rightarrow> event_time_stamp \<Rightarrow> nat \<Rightarrow> nat list \<Rightarrow>
   consumer_counters \<Rightarrow> 'm world \<Rightarrow> (nat \<times> nat list \<times> consumer_counters \<times> 'm world) option" where
  "CollectSlots_loop 0 e v last_time current_highest collected_slot slots c w = Some (collected_slot, slots, c, w)"
| "CollectSlots_loop (Suc count) e v last_time current_highest collected_slot slots c w = do {
     (slot, c, w) \<leftarrow> ReferenceNextEvent e v last_time current_highest c w;
     case slot of
       None \<Rightarrow> Some (collected_slot, slots, c, w)
     | Some i \<Rightarrow> do {
         (event_status, w) \<leftarrow> consumer_slot_status_at e v i w;
         let slots = slots[collected_slot := i];
         if Suc collected_slot = length slots then Some (Suc collected_slot, slots, c, w)
         else CollectSlots_loop count e v last_time (GetTimeStamp event_status) (Suc collected_slot) slots c w
       }
   }"

definition CollectSlots ::
  "'m environment \<Rightarrow> 'm slot_collector \<Rightarrow> nat \<Rightarrow> consumer_counters \<Rightarrow> 'm world \<Rightarrow>
   (nat \<times> 'm slot_collector \<times> consumer_counters \<times> 'm world) option" where
  "CollectSlots e s max_count c w = do {
     assert_prd (collected_slots s \<noteq> []);
     (collected_end, slots, c, w) \<leftarrow>
       CollectSlots_loop max_count e (event_data_control_local s) (last_ts s) TIMESTAMP_MAX 0 (collected_slots s) c w;
     Some (collected_end, s\<lparr>collected_slots := slots\<rparr>, c, w)
   }"

fun newest_delivered_loop ::
  "'m environment \<Rightarrow> 'm consumer_view \<Rightarrow> nat list \<Rightarrow> event_time_stamp \<Rightarrow> 'm world \<Rightarrow> (event_time_stamp \<times> 'm world) option" where
  "newest_delivered_loop e v [] newest_delivered w = Some (newest_delivered, w)"
| "newest_delivered_loop e v (i # is) newest_delivered w = do {
     (slot_status, w) \<leftarrow> consumer_slot_status_at e v i w;
     newest_delivered_loop e v is (max newest_delivered (GetTimeStamp slot_status)) w
   }"

text \<open>The pair of reverse iterators that is returned is the list between them.\<close>

definition GetNewSamplesSlotIndices ::
  "'m environment \<Rightarrow> 'm slot_collector \<Rightarrow> nat \<Rightarrow> consumer_counters \<Rightarrow> 'm world \<Rightarrow>
   (nat list \<times> 'm slot_collector \<times> consumer_counters \<times> 'm world) option" where
  "GetNewSamplesSlotIndices e s max_count c w = do {
     (collected_end, s, c, w) \<leftarrow> CollectSlots e s max_count c w;
     let indices = rev (take collected_end (collected_slots s));
     (newest_delivered, w) \<leftarrow> newest_delivered_loop e (event_data_control_local s) indices (last_ts s) w;
     Some (indices, s\<lparr>last_ts := newest_delivered\<rparr>, c, w)
   }"

subsection \<open>Giving a reference back\<close>

text \<open>
  A decrementer owns one reference until it is moved from, which leaves it without a control.
  Assigning to a decrementer first gives back the reference it owned.
\<close>

record 'm slot_decrementer =
  decrementer_control :: "'m consumer_view option"
  event_slot_index :: nat

definition SlotDecrementer :: "'m consumer_view \<Rightarrow> nat \<Rightarrow> 'm slot_decrementer" where
  "SlotDecrementer v i = \<lparr>decrementer_control = Some v, event_slot_index = i\<rparr>"

definition internal_delete :: "'m environment \<Rightarrow> 'm slot_decrementer \<Rightarrow> 'm world \<Rightarrow> 'm world option" where
  "internal_delete e d w = (case decrementer_control d of
       None \<Rightarrow> Some w
     | Some v \<Rightarrow> DereferenceEvent e v (event_slot_index d) w)"

definition SlotDecrementer_destroy :: "'m environment \<Rightarrow> 'm slot_decrementer \<Rightarrow> 'm world \<Rightarrow> 'm world option" where
  "SlotDecrementer_destroy e d w = internal_delete e d w"

definition SlotDecrementer_move :: "'m slot_decrementer \<Rightarrow> 'm slot_decrementer \<times> 'm slot_decrementer" where
  "SlotDecrementer_move other = (other, other\<lparr>decrementer_control := None\<rparr>)"

text \<open>Assignment between two different objects; assigning an object to itself does nothing.\<close>

definition SlotDecrementer_assign ::
  "'m environment \<Rightarrow> 'm slot_decrementer \<Rightarrow> 'm slot_decrementer \<Rightarrow> 'm world \<Rightarrow>
   ('m slot_decrementer \<times> 'm slot_decrementer \<times> 'm world) option" where
  "SlotDecrementer_assign e this other w = do {
     w \<leftarrow> internal_delete e this w;
     Some (this\<lparr>decrementer_control := decrementer_control other, event_slot_index := event_slot_index other\<rparr>,
           other\<lparr>decrementer_control := None\<rparr>, w)
   }"

fun destroy_all :: "'m environment \<Rightarrow> 'm slot_decrementer list \<Rightarrow> 'm world \<Rightarrow> 'm world option" where
  "destroy_all e [] w = Some w"
| "destroy_all e (d # ds) w = SlotDecrementer_destroy e d w \<bind> destroy_all e ds"

subsection \<open>The newest samples of a range\<close>

text \<open>
  \<open>newest_slots\<close> describes a list of slots, youngest first: their time stamps are in the range
  and strictly decrease, and a sample of the range that is not in the list has the time stamp
  of a listed one, or is older than all of them and the list has its full length.
\<close>

definition newest_slots ::
  "(nat \<Rightarrow> u64) \<Rightarrow> nat \<Rightarrow> event_time_stamp \<Rightarrow> event_time_stamp \<Rightarrow> nat \<Rightarrow> nat list \<Rightarrow> bool" where
  "newest_slots val n lo hi k is \<longleftrightarrow>
     length is \<le> k \<and>
     (\<forall>i \<in> set is. i < n \<and> IsTimeStampBetween lo hi (val i)) \<and>
     sorted_wrt (\<lambda>i j. GetTimeStamp (val j) < GetTimeStamp (val i)) is \<and>
     (\<forall>j < n. IsTimeStampBetween lo hi (val j) \<longrightarrow>
        (\<exists>i \<in> set is. GetTimeStamp (val j) = GetTimeStamp (val i)) \<or>
        length is = k \<and> (\<forall>i \<in> set is. GetTimeStamp (val j) < GetTimeStamp (val i)))"

lemma newest_slots_0: "newest_slots val n lo hi 0 []"
  by (simp add: newest_slots_def)

lemma newest_slots_none: "is_newest_between val n lo hi None \<Longrightarrow> newest_slots val n lo hi k []"
  by (simp add: newest_slots_def is_newest_between_def)

lemma newest_slots_Cons:
  assumes "is_newest_between val n lo hi (Some i)" "newest_slots val n lo (GetTimeStamp (val i)) k is"
  shows "newest_slots val n lo hi (Suc k) (i # is)"
proof -
  have older: "GetTimeStamp (val j) = GetTimeStamp (val i) \<or> IsTimeStampBetween lo (GetTimeStamp (val i)) (val j)"
    if "j < n" "IsTimeStampBetween lo hi (val j)" for j
    using assms(1) that by (force simp: is_newest_between_def IsTimeStampBetween_iff)
  have below: "j < n \<and> IsTimeStampBetween lo hi (val j) \<and> GetTimeStamp (val j) < GetTimeStamp (val i)" if "j \<in> set is" for j
    using assms that by (auto simp: newest_slots_def is_newest_between_def IsTimeStampBetween_iff)
  have rest: "(\<exists>l \<in> set is. GetTimeStamp (val j) = GetTimeStamp (val l)) \<or>
      length is = k \<and> (\<forall>l \<in> set is. GetTimeStamp (val j) < GetTimeStamp (val l))"
    if "j < n" "IsTimeStampBetween lo (GetTimeStamp (val i)) (val j)" for j
    using assms(2) that unfolding newest_slots_def by blast
  have "(\<exists>l \<in> set (i # is). GetTimeStamp (val j) = GetTimeStamp (val l)) \<or>
      length (i # is) = Suc k \<and> (\<forall>l \<in> set (i # is). GetTimeStamp (val j) < GetTimeStamp (val l))"
    if "j < n" "IsTimeStampBetween lo hi (val j)" for j
    using older [OF that] rest [OF that(1)] by (auto simp: IsTimeStampBetween_iff)
  then show ?thesis
    using assms below by (simp add: newest_slots_def is_newest_between_def)
qed

text \<open>Only the time stamps matter.\<close>

lemma newest_slots_cong:
  assumes "\<And>j. j < n \<Longrightarrow> GetTimeStamp (val j) = GetTimeStamp (val' j)" "newest_slots val n lo hi k is"
  shows "newest_slots val' n lo hi k is"
proof -
  have between: "IsTimeStampBetween lo hi (val' j) = IsTimeStampBetween lo hi (val j)" if "j < n" for j
    using assms(1) [OF that] by (simp add: IsTimeStampBetween_iff)
  have listed: "i < n" if "i \<in> set is" for i using assms(2) that by (simp add: newest_slots_def)
  have "sorted_wrt (\<lambda>i j. GetTimeStamp (val' j) < GetTimeStamp (val' i)) is"
    using assms(2) listed assms(1) by (auto simp: newest_slots_def elim!: sorted_wrt_mono_rel [rotated])
  then show ?thesis
    using assms listed between unfolding newest_slots_def by (metis (no_types, lifting))
qed

lemma newest_slots_distinct:
  assumes "newest_slots val n lo hi k is"
  shows "distinct is"
proof -
  have "sorted_wrt (\<lambda>i j. GetTimeStamp (val j) < GetTimeStamp (val i)) is"
    using assms by (simp add: newest_slots_def)
  then show ?thesis by (induction "is") auto
qed

context consumer_memory
begin

text \<open>What a collecting consumer needs: the samples of the range are not held yet, and their counts are not full.\<close>

definition collectable :: "event_time_stamp \<Rightarrow> event_time_stamp \<Rightarrow> 'm \<Rightarrow> bool" where
  "collectable lo hi m \<longleftrightarrow> (\<forall>i < size_of v. IsTimeStampBetween lo hi (slot_values v m i) \<longrightarrow>
     log_entry log m i = bits False False \<and> GetReferenceCount (slot_values v m i) \<noteq> - 1)"

definition references_added :: "nat set \<Rightarrow> 'm \<Rightarrow> 'm \<Rightarrow> bool" where
  "references_added I m m' \<longleftrightarrow>
     (\<forall>j. slot_values v m' j = slot_values v m j + (if j \<in> I then 1 else 0)) \<and>
     (\<forall>j. log_entry log m' j = (if j \<in> I then bits True True else log_entry log m j))"

lemma references_added_empty: "references_added {} m m"
  by (simp add: references_added_def)

lemma references_added_insert:
  "references_added {i} m m1 \<Longrightarrow> references_added I m1 m2 \<Longrightarrow> i \<notin> I \<Longrightarrow> references_added (insert i I) m m2"
  by (auto simp: references_added_def)

lemma collect_step:
  assumes "collectable lo hi (mem w)"
  shows "\<exists>r w1. ReferenceNextEvent quiet v lo hi c w = Some (r, c, w1) \<and>
    is_newest_between (slot_values v (mem w)) (size_of v) lo hi r \<and>
    references_added (set_option r) (mem w) (mem w1)"
proof -
  have "log_entry log (mem w) i = bits False False"
    if "i < size_of v" "IsTimeStampBetween lo hi (slot_values v (mem w) i)" for i
    using assms that by (simp add: collectable_def)
  from ReferenceNextEvent_quiet [OF this] show ?thesis
    by (simp add: references_added_def elem_set)
qed

lemma references_added_time_stamp:
  assumes "references_added I m m'" "collectable lo hi m" "\<And>i. i \<in> I \<Longrightarrow> i < size_of v \<and> IsTimeStampBetween lo hi (slot_values v m i)"
  shows "GetTimeStamp (slot_values v m' j) = GetTimeStamp (slot_values v m j)"
  using assms(1,2) assms(3) [of j] by (simp add: references_added_def collectable_def slot_simps)

lemma collectable_older:
  assumes "references_added {i} m m'" "collectable lo hi m" "i < size_of v" "IsTimeStampBetween lo hi (slot_values v m i)"
  shows "collectable lo (GetTimeStamp (slot_values v m i)) m'"
  unfolding collectable_def
proof (intro allI impI)
  fix j
  assume j: "j < size_of v" "IsTimeStampBetween lo (GetTimeStamp (slot_values v m i)) (slot_values v m' j)"
  have ts: "GetTimeStamp (slot_values v m' j) = GetTimeStamp (slot_values v m j)"
    by (rule references_added_time_stamp [OF assms(1,2)]) (use assms(3,4) in simp)
  then have "j \<noteq> i" "IsTimeStampBetween lo hi (slot_values v m j)"
    using j(2) assms(4) by (auto simp: IsTimeStampBetween_iff)
  with j(1) assms(1,2) show "log_entry log m' j = bits False False \<and> GetReferenceCount (slot_values v m' j) \<noteq> - 1"
    by (simp add: collectable_def references_added_def)
qed

lemma CollectSlots_loop_quiet:
  assumes "collectable lo hi (mem w)" "pos < length slots"
  shows "\<exists>is slots' w'. CollectSlots_loop k quiet v lo hi pos slots c w = Some (pos + length is, slots', c, w') \<and>
    take (pos + length is) slots' = take pos slots @ is \<and> length slots' = length slots \<and>
    newest_slots (slot_values v (mem w)) (size_of v) lo hi (min k (length slots - pos)) is \<and>
    references_added (set is) (mem w) (mem w')"
  using assms
proof (induction k arbitrary: hi pos slots w)
  case 0
  then show ?case
    by (intro exI [of _ "[]"] exI [of _ slots] exI [of _ w]) (simp add: newest_slots_0 references_added_empty)
next
  case (Suc k)
  let ?val = "slot_values v (mem w)"
  obtain r w1 where w1: "ReferenceNextEvent quiet v lo hi c w = Some (r, c, w1)"
      "is_newest_between ?val (size_of v) lo hi r" "references_added (set_option r) (mem w) (mem w1)"
    using collect_step [OF Suc.prems(1)] by blast
  show ?case
  proof (cases r)
    case None
    with w1(1-3) show ?thesis
      by (intro exI [of _ "[]"] exI [of _ slots] exI [of _ w1]) (simp add: newest_slots_none)
  next
    case (Some i)
    let ?w = "w1\<lparr>tick := Suc (tick w1)\<rparr>" and ?slots = "slots[pos := i]" and ?hi = "GetTimeStamp (?val i)"
    from w1(2) Some have i: "i < size_of v" "IsTimeStampBetween lo hi (?val i)"
      by (simp_all add: is_newest_between_def)
    from w1(3) Some have added: "references_added {i} (mem w) (mem w1)" by simp
    have ts: "GetTimeStamp (slot_values v (mem w1) j) = GetTimeStamp (?val j)" for j
      by (rule references_added_time_stamp [OF added Suc.prems(1)]) (use i in simp)
    have status: "consumer_slot_status_at quiet v i w1 = Some (slot_values v (mem w1) i, ?w)"
      using i by (simp add: consumer_slot_status_at_def load_quiet)
    note step = w1(1) Some status ts [of i]
    have taken: "take (Suc pos) ?slots = take pos slots @ [i]"
      using Suc.prems(2) by (simp add: take_Suc_conv_app_nth)
    show ?thesis
    proof (cases "Suc pos = length slots")
      case True
      then have "min (Suc k) (length slots - pos) = Suc 0" using Suc.prems(2) by simp
      moreover have "newest_slots ?val (size_of v) lo hi (Suc 0) [i]"
        using newest_slots_Cons [OF w1(2) [unfolded Some] newest_slots_0] .
      ultimately show ?thesis
        using step added taken True
        by (intro exI [of _ "[i]"] exI [of _ ?slots] exI [of _ ?w]) simp
    next
      case False
      have "collectable lo ?hi (mem ?w)" using collectable_older [OF added Suc.prems(1) i] by simp
      from Suc.IH [OF this, of "Suc pos" ?slots] False Suc.prems(2) obtain is' slots' w' where
        rec: "CollectSlots_loop k quiet v lo ?hi (Suc pos) ?slots c ?w = Some (Suc pos + length is', slots', c, w')"
          "take (Suc pos + length is') slots' = take (Suc pos) ?slots @ is'" "length slots' = length slots"
          "newest_slots (slot_values v (mem w1)) (size_of v) lo ?hi (min k (length slots - Suc pos)) is'"
          "references_added (set is') (mem w1) (mem w')" by auto
      have new: "newest_slots ?val (size_of v) lo hi (Suc (min k (length slots - Suc pos))) (i # is')"
        by (rule newest_slots_Cons [OF w1(2) [unfolded Some] newest_slots_cong [OF _ rec(4)]]) (rule ts)
      have "i \<notin> set is'" using newest_slots_distinct [OF new] by simp
      then have "references_added (insert i (set is')) (mem w) (mem w')"
        by (rule references_added_insert [OF added rec(5)])
      moreover have "min (Suc k) (length slots - pos) = Suc (min k (length slots - Suc pos))"
        using Suc.prems(2) by simp
      ultimately show ?thesis
        using step rec(1-3) new taken False
        by (intro exI [of _ "i # is'"] exI [of _ slots'] exI [of _ w']) simp
    qed
  qed
qed

lemma newest_delivered_quiet:
  assumes "\<forall>i \<in> set is. i < size_of v"
  shows "\<exists>d. newest_delivered_loop quiet v is t w =
    Some (Max (insert t ((\<lambda>i. GetTimeStamp (slot_values v (mem w) i)) ` set is)), w\<lparr>tick := tick w + d\<rparr>)"
  using assms
proof (induction "is" arbitrary: t w)
  case Nil
  then show ?case by (intro exI [of _ 0]) simp
next
  case (Cons i "is")
  let ?ts = "GetTimeStamp (slot_values v (mem w) i)"
  from Cons.IH [of "max t ?ts" "w\<lparr>tick := Suc (tick w)\<rparr>"] Cons.prems obtain d where
    "newest_delivered_loop quiet v is (max t ?ts) (w\<lparr>tick := Suc (tick w)\<rparr>) =
       Some (Max (insert (max t ?ts) ((\<lambda>i. GetTimeStamp (slot_values v (mem w) i)) ` set is)), w\<lparr>tick := Suc (tick w) + d\<rparr>)"
    by auto
  moreover have "Max (insert (max t ?ts) A) = Max (insert t (insert ?ts A))" if "finite A" for A
    using that by (cases "A = {}") (simp_all add: max.assoc)
  ultimately show ?case
    using Cons.prems by (intro exI [of _ "Suc d"]) (simp add: consumer_slot_status_at_def load_quiet)
qed

lemma GetNewSamplesSlotIndices_quiet:
  assumes "event_data_control_local s = v" "collected_slots s \<noteq> []" "collectable (last_ts s) TIMESTAMP_MAX (mem w)"
  shows "\<exists>is s' w'. GetNewSamplesSlotIndices quiet s k c w = Some (rev is, s', c, w') \<and>
    newest_slots (slot_values v (mem w)) (size_of v) (last_ts s) TIMESTAMP_MAX (min k (length (collected_slots s))) is \<and>
    references_added (set is) (mem w) (mem w') \<and>
    event_data_control_local s' = v \<and> length (collected_slots s') = length (collected_slots s) \<and>
    last_ts s' = Max (insert (last_ts s) ((\<lambda>i. GetTimeStamp (slot_values v (mem w) i)) ` set is))"
proof -
  let ?val = "slot_values v (mem w)"
  obtain is' slots w1 where w1:
    "CollectSlots_loop k quiet v (last_ts s) TIMESTAMP_MAX 0 (collected_slots s) c w = Some (length is', slots, c, w1)"
    "take (length is') slots = is'" "length slots = length (collected_slots s)"
    "newest_slots ?val (size_of v) (last_ts s) TIMESTAMP_MAX (min k (length (collected_slots s))) is'"
    "references_added (set is') (mem w) (mem w1)"
    using CollectSlots_loop_quiet [OF assms(3), of 0 "collected_slots s" k c] assms(2) by auto
  have bound: "\<forall>i \<in> set is'. i < size_of v \<and> IsTimeStampBetween (last_ts s) TIMESTAMP_MAX (?val i)"
    using w1(4) by (simp add: newest_slots_def)
  have ts: "GetTimeStamp (slot_values v (mem w1) i) = GetTimeStamp (?val i)" if "i \<in> set is'" for i
    using w1(5) bound that assms(3) by (simp add: references_added_def collectable_def slot_simps)
  from newest_delivered_quiet [of "rev is'" "last_ts s" w1] bound obtain d where
    "newest_delivered_loop quiet v (rev is') (last_ts s) w1 =
      Some (Max (insert (last_ts s) ((\<lambda>i. GetTimeStamp (slot_values v (mem w1) i)) ` set is')), w1\<lparr>tick := tick w1 + d\<rparr>)"
    by auto
  moreover have "(\<lambda>i. GetTimeStamp (slot_values v (mem w1) i)) ` set is' = (\<lambda>i. GetTimeStamp (?val i)) ` set is'"
    using ts by (rule image_cong [OF refl])
  ultimately show ?thesis
    using w1 assms(1,2)
    by (intro exI [of _ is'] exI [of _ "s\<lparr>collected_slots := slots,
          last_ts := Max (insert (last_ts s) ((\<lambda>i. GetTimeStamp (?val i)) ` set is'))\<rparr>"]
        exI [of _ "w1\<lparr>tick := tick w1 + d\<rparr>"])
      (simp add: GetNewSamplesSlotIndices_def CollectSlots_def)
qed

lemma newest_slots_exhaust:
  assumes "newest_slots val n lo hi k is" "k > 0" "j < n"
    and "\<And>i. i \<in> set is \<Longrightarrow> GetTimeStamp (val i) \<le> t" "lo \<le> t"
  shows "\<not> IsTimeStampBetween t hi (val j)"
proof
  assume j: "IsTimeStampBetween t hi (val j)"
  then have "IsTimeStampBetween lo hi (val j)" using assms(5) by (auto simp: IsTimeStampBetween_iff)
  then consider i where "i \<in> set is" "GetTimeStamp (val j) = GetTimeStamp (val i)"
    | "is \<noteq> []" "\<forall>i \<in> set is. GetTimeStamp (val j) < GetTimeStamp (val i)"
    using assms(1-3) unfolding newest_slots_def by (metis length_0_conv less_numeral_extra(3))
  then obtain i where "i \<in> set is" "GetTimeStamp (val j) \<le> GetTimeStamp (val i)"
    by cases (metis order_refl less_imp_le list.set_intros(1) neq_Nil_conv)+
  with assms(4) [of i] j show False by (auto simp: IsTimeStampBetween_iff)
qed

text \<open>Nothing is new after a collection.\<close>

lemma nothing_new:
  assumes "newest_slots (slot_values v m) (size_of v) lo TIMESTAMP_MAX k is" "k > 0" "collectable lo TIMESTAMP_MAX m"
    and "references_added (set is) m m'" "j < size_of v"
    and t: "t = Max (insert lo ((\<lambda>i. GetTimeStamp (slot_values v m i)) ` set is))"
  shows "\<not> IsTimeStampBetween t TIMESTAMP_MAX (slot_values v m' j)"
proof -
  have "GetTimeStamp (slot_values v m' j) = GetTimeStamp (slot_values v m j)"
    by (rule references_added_time_stamp [OF assms(4,3)]) (use assms(1) in \<open>simp add: newest_slots_def\<close>)
  moreover have "\<not> IsTimeStampBetween t TIMESTAMP_MAX (slot_values v m j)"
    by (rule newest_slots_exhaust [OF assms(1,2,5)]) (simp_all add: t)
  ultimately show ?thesis by (simp add: IsTimeStampBetween_iff)
qed

lemma DereferenceEvent_quiet:
  assumes "log_entry log (mem w) i = bits True True" "i < size_of v"
  shows "\<exists>w'. DereferenceEvent quiet v i w = Some w' \<and>
    (\<forall>j. slot_values v (mem w') j = slot_values v (mem w) j - (if j = i then 1 else 0)) \<and>
    (\<forall>j. log_entry log (mem w') j = (if j = i then bits False False else log_entry log (mem w) j))"
proof -
  have begin_quiet: "DereferenceTransactionBegin quiet log i w = Some w' \<Longrightarrow> slot_values v (mem w') j = slot_values v (mem w) j"
    "DereferenceTransactionCommit quiet log i w = Some w' \<Longrightarrow> slot_values v (mem w') j = slot_values v (mem w) j" for w w' j
    by (auto simp: transaction_defs Let_def split_beta dest!: wait_quiet)
  obtain w1 where w1: "DereferenceTransactionBegin quiet log i w = Some w1"
      "log_moved log i (bits True True) (bits False True) w w1"
    using moves_runs [OF transactions_move(4) [of quiet i w]] assms by auto
  let ?w2 = "own_write (wr (state_slots v i) (slot_values v (mem w1) i - 1)) (interfere quiet w1)"
  have w2: "DereferenceEventWithoutTransactionLogging quiet v i w1 = Some ?w2"
    using assms(2) by (simp add: DereferenceEventWithoutTransactionLogging_def fetch_modify_def Let_def)
  obtain w3 where w3: "DereferenceTransactionCommit quiet log i ?w2 = Some w3"
      "log_moved log i (bits False True) (bits False False) ?w2 w3"
    using moves_runs [OF transactions_move(5) [of quiet i ?w2]] assms(2) w1(2) by (auto simp: log_moved_def)
  have "DereferenceEvent quiet v i w = Some w3" using w1(1) w2 w3(1) by (simp add: DereferenceEvent_def)
  then show ?thesis
    using w1(2) w3(2) begin_quiet(1) [OF w1(1)] begin_quiet(2) [OF w3(1)] by (auto simp: log_moved_def)
qed

text \<open>Destroying the holders of the collected samples, in any order, undoes the collection.\<close>

lemma SlotDecrementer_destroy: "SlotDecrementer_destroy e (SlotDecrementer v i) w = DereferenceEvent e v i w"
  by (simp add: SlotDecrementer_destroy_def internal_delete_def SlotDecrementer_def)

lemma destroy_all_quiet:
  assumes "distinct is" "\<And>i. i \<in> set is \<Longrightarrow> i < size_of v \<and> log_entry log (mem w) i = bits True True"
  shows "\<exists>w'. destroy_all quiet (map (SlotDecrementer v) is) w = Some w' \<and>
    (\<forall>j. slot_values v (mem w') j = slot_values v (mem w) j - (if j \<in> set is then 1 else 0)) \<and>
    (\<forall>j. log_entry log (mem w') j = (if j \<in> set is then bits False False else log_entry log (mem w) j))"
  using assms
proof (induction "is" arbitrary: w)
  case (Cons i "is")
  obtain w1 where w1: "DereferenceEvent quiet v i w = Some w1"
      "\<And>j. slot_values v (mem w1) j = slot_values v (mem w) j - (if j = i then 1 else 0)"
      "\<And>j. log_entry log (mem w1) j = (if j = i then bits False False else log_entry log (mem w) j)"
    using DereferenceEvent_quiet [of i w] Cons.prems(2) [of i] by auto
  have "j < size_of v \<and> log_entry log (mem w1) j = bits True True" if "j \<in> set is" for j
    using Cons.prems that w1(3) [of j] by auto
  then obtain w2 where "destroy_all quiet (map (SlotDecrementer v) is) w1 = Some w2"
      "\<forall>j. slot_values v (mem w2) j = slot_values v (mem w1) j - (if j \<in> set is then 1 else 0)"
      "\<forall>j. log_entry log (mem w2) j = (if j \<in> set is then bits False False else log_entry log (mem w1) j)"
    using Cons.IH [of w1] Cons.prems(1) by auto
  then show ?case
    using w1 Cons.prems(1) by (auto simp: SlotDecrementer_destroy)
qed simp

end

subsection \<open>The samples a proxy event receives\<close>

abbreviation new_samples_collectable :: "quality_type \<Rightarrow> log_position \<Rightarrow> u16 \<Rightarrow> event_time_stamp \<Rightarrow> event_memory \<Rightarrow> bool" where
  "new_samples_collectable q p n t m \<equiv>
     (\<forall>i < unat n. IsTimeStampBetween t TIMESTAMP_MAX (slot_values (registered_view q p n) m i) \<longrightarrow>
        log_entry (registered_log q p n) m i = bits False False \<and>
        GetReferenceCount (slot_values (registered_view q p n) m i) \<noteq> - 1)"

lemma collectable_view:
  "new_samples_collectable q p n t m \<Longrightarrow>
   consumer_memory.collectable (registered_log q p n) (registered_view q p n) t TIMESTAMP_MAX m"
  by (simp add: consumer.collectable_def)

text \<open>
  C20. When nobody interferes, collecting new samples always returns. The collected slots are the
  youngest samples that are newer than the last delivered one, at most as many as requested and as
  the collector has room for; they come in the order they were sent, strictly by time stamp.
  Each of them, and no other slot, gains one reference that the log records, and the collector
  remembers the youngest time stamp it delivered.
\<close>

theorem GetNewSamples_newest_in_order:
  assumes "event_data_control_local s = registered_view q p n" "collected_slots s \<noteq> []"
    and "new_samples_collectable q p n (last_ts s) (mem w)"
  shows "\<exists>is s' w'. GetNewSamplesSlotIndices quiet s k c w = Some (rev is, s', c, w') \<and>
    newest_slots (slot_values (registered_view q p n) (mem w)) (unat n) (last_ts s) TIMESTAMP_MAX
      (min k (length (collected_slots s))) is \<and>
    (\<forall>j. slot_values (registered_view q p n) (mem w') j =
       slot_values (registered_view q p n) (mem w) j + (if j \<in> set is then 1 else 0)) \<and>
    (\<forall>j. log_entry (registered_log q p n) (mem w') j =
       (if j \<in> set is then bits True True else log_entry (registered_log q p n) (mem w) j)) \<and>
    last_ts s' = Max (insert (last_ts s) ((\<lambda>i. GetTimeStamp (slot_values (registered_view q p n) (mem w) i)) ` set is))"
proof -
  from consumer.GetNewSamplesSlotIndices_quiet [OF assms(1,2) collectable_view [OF assms(3)], of k c] show ?thesis
    by (fastforce simp: consumer.references_added_def)
qed

abbreviation example_collector :: "event_memory slot_collector" where
  "example_collector \<equiv> \<lparr>event_data_control_local = example_view, last_ts = 0, collected_slots = replicate 2 0\<rparr>"

abbreviation no_counts :: consumer_counters where
  "no_counts \<equiv> \<lparr>num_ref_misses = 0, num_ref_retries = 0\<rparr>"

lemma example_collectable:
  "new_samples_collectable kASIL_QM (Proxy_Log 0) 3 (last_ts example_collector) (mem (start example_memory))"
  by (simp add: example_slots_def)

lemma example_collection:
  obtains "is" s w where "GetNewSamplesSlotIndices quiet example_collector 5 no_counts (start example_memory) = Some (rev is, s, no_counts, w)"
    "event_data_control_local s = example_view" "collected_slots s \<noteq> []" "distinct is"
    "consumer_memory.collectable example_log example_view (last_ts s) TIMESTAMP_MAX (mem w)"
proof -
  note C = collectable_view [OF example_collectable]
  obtain "is" s w where s: "GetNewSamplesSlotIndices quiet example_collector 5 no_counts (start example_memory) = Some (rev is, s, no_counts, w)"
      "newest_slots (slot_values example_view (mem (start example_memory))) (size_of example_view) 0 TIMESTAMP_MAX 2 is"
      "consumer_memory.references_added example_log example_view (set is) (mem (start example_memory)) (mem w)"
      "event_data_control_local s = example_view" "length (collected_slots s) = 2"
      "last_ts s = Max (insert 0 ((\<lambda>i. GetTimeStamp (slot_values example_view (mem (start example_memory)) i)) ` set is))"
    using consumer.GetNewSamplesSlotIndices_quiet [OF _ _ C, of 5 no_counts] by (auto simp: min_def)
  have "\<not> IsTimeStampBetween (last_ts s) TIMESTAMP_MAX (slot_values example_view (mem w) j)" if "j < 3" for j
    using consumer.nothing_new [OF s(2) _ _ s(3) _ s(6)] C that by simp
  then have "consumer_memory.collectable example_log example_view (last_ts s) TIMESTAMP_MAX (mem w)"
    by (intro collectable_view) simp
  with s newest_slots_distinct [OF s(2)] show thesis by (intro that [of "is" s w]) auto
qed

theorem GetNewSamples_newest_in_order_witness:
  "SlotCollector example_view 2 = Some example_collector \<and>
   (\<exists>is s' w'. GetNewSamplesSlotIndices quiet example_collector 5 no_counts (start example_memory) =
       Some (rev is, s', no_counts, w') \<and> newest_slots example_slots 3 0 TIMESTAMP_MAX 2 is)"
  using GetNewSamples_newest_in_order [OF _ _ example_collectable, of 5 no_counts]
  by (auto simp: SlotCollector_def min_def)

text \<open>
  No sample is delivered twice: after a collection that asked for at least one sample, a
  second collection finds nothing and changes nothing, as long as nothing is sent in between.
  Samples that did not fit into the first collection are skipped for good.
\<close>

lemma GetNewSamples_delivers_once:
  assumes "event_data_control_local s = registered_view q p n" "collected_slots s \<noteq> []" "k > 0"
    and "new_samples_collectable q p n (last_ts s) (mem w)"
    and "GetNewSamplesSlotIndices quiet s k c w = Some (is1, s1, c1, w1)"
    and "GetNewSamplesSlotIndices quiet s1 k' c1 w1 = Some (is2, s2, c2, w2)"
  shows "is2 = [] \<and> last_ts s2 = last_ts s1 \<and>
    (\<forall>j. slot_values (registered_view q p n) (mem w2) j = slot_values (registered_view q p n) (mem w1) j)"
proof -
  note C = collectable_view [OF assms(4)]
  obtain "is" where first: "is1 = rev is"
      "newest_slots (slot_values (registered_view q p n) (mem w)) (size_of (registered_view q p n)) (last_ts s) TIMESTAMP_MAX
        (min k (length (collected_slots s))) is"
      "consumer_memory.references_added (registered_log q p n) (registered_view q p n) (set is) (mem w) (mem w1)"
      "event_data_control_local s1 = registered_view q p n" "length (collected_slots s1) = length (collected_slots s)"
      "last_ts s1 = Max (insert (last_ts s) ((\<lambda>i. GetTimeStamp (slot_values (registered_view q p n) (mem w) i)) ` set is))"
    using consumer.GetNewSamplesSlotIndices_quiet [OF assms(1,2) C, of k c] assms(5) by auto
  have none: "\<not> IsTimeStampBetween (last_ts s1) TIMESTAMP_MAX (slot_values (registered_view q p n) (mem w1) j)"
    if "j < unat n" for j
    using consumer.nothing_new [OF first(2) _ C first(3) _ first(6)] that assms(2,3) by simp
  have "consumer_memory.collectable (registered_log q p n) (registered_view q p n) (last_ts s1) TIMESTAMP_MAX (mem w1)"
    using none by (simp add: consumer.collectable_def)
  moreover have "collected_slots s1 \<noteq> []" using first(5) assms(2) by auto
  ultimately obtain js where
    second: "is2 = rev js"
      "newest_slots (slot_values (registered_view q p n) (mem w1)) (unat n) (last_ts s1) TIMESTAMP_MAX
        (min k' (length (collected_slots s))) js"
      "consumer_memory.references_added (registered_log q p n) (registered_view q p n) (set js) (mem w1) (mem w2)"
      "last_ts s2 = Max (insert (last_ts s1) ((\<lambda>i. GetTimeStamp (slot_values (registered_view q p n) (mem w1) i)) ` set js))"
    using consumer.GetNewSamplesSlotIndices_quiet [OF first(4), of w1 k' c1] first(5) assms(6) by auto
  have "set js = {}"
  proof (rule equals0I)
    fix i
    assume "i \<in> set js"
    with second(2) none [of i] show False by (simp add: newest_slots_def)
  qed
  then show ?thesis using second by (simp add: consumer.references_added_def)
qed


text \<open>
  C21. Receiving samples and letting them go restores the control: if the holders of all
  collected samples are destroyed, in whatever order, every slot word is what it was before
  the collection and the log holds no entry for them.
\<close>

theorem received_samples_round_trip:
  assumes "event_data_control_local s = registered_view q p n" "collected_slots s \<noteq> []"
    and "new_samples_collectable q p n (last_ts s) (mem w)"
    and "GetNewSamplesSlotIndices quiet s k c w = Some (indices, s', c', w')"
    and "distinct order" "set order = set indices"
  shows "\<exists>w''. destroy_all quiet (map (SlotDecrementer (registered_view q p n)) order) w' = Some w'' \<and>
    (\<forall>j. slot_values (registered_view q p n) (mem w'') j = slot_values (registered_view q p n) (mem w) j) \<and>
    (\<forall>j. log_entry (registered_log q p n) (mem w'') j = log_entry (registered_log q p n) (mem w) j)"
proof -
  note C = collectable_view [OF assms(3)]
  obtain "is" where first: "indices = rev is"
      "newest_slots (slot_values (registered_view q p n) (mem w)) (size_of (registered_view q p n)) (last_ts s) TIMESTAMP_MAX
        (min k (length (collected_slots s))) is"
      "consumer_memory.references_added (registered_log q p n) (registered_view q p n) (set is) (mem w) (mem w')"
    using consumer.GetNewSamplesSlotIndices_quiet [OF assms(1,2) C, of k c] assms(4) by auto
  have order: "set order = set is" using assms(6) first(1) by simp
  have fresh: "i < unat n \<and> log_entry (registered_log q p n) (mem w) i = bits False False" if "i \<in> set is" for i
    using first(2) assms(3) that by (simp add: newest_slots_def)
  have "i < size_of (registered_view q p n) \<and> log_entry (registered_log q p n) (mem w') i = bits True True" if "i \<in> set order" for i
    using that fresh first(3) order by (simp add: consumer.references_added_def)
  from consumer.destroy_all_quiet [OF assms(5) this] obtain w'' where
    "destroy_all quiet (map (SlotDecrementer (registered_view q p n)) order) w' = Some w''"
    "\<forall>j. slot_values (registered_view q p n) (mem w'') j =
      slot_values (registered_view q p n) (mem w') j - (if j \<in> set order then 1 else 0)"
    "\<forall>j. log_entry (registered_log q p n) (mem w'') j =
      (if j \<in> set order then bits False False else log_entry (registered_log q p n) (mem w') j)" by blast
  then show ?thesis
    using order first(3) fresh by (intro exI [of _ w'']) (simp add: consumer.references_added_def)
qed

theorem received_samples_round_trip_witness:
  "\<exists>indices s w' w''. GetNewSamplesSlotIndices quiet example_collector 5 no_counts (start example_memory) = Some (indices, s, no_counts, w') \<and>
     destroy_all quiet (map (SlotDecrementer example_view) indices) w' = Some w''"
proof -
  obtain "is" s w where s: "GetNewSamplesSlotIndices quiet example_collector 5 no_counts (start example_memory) = Some (rev is, s, no_counts, w)"
    "distinct is"
    by (rule example_collection)
  from received_samples_round_trip [OF _ _ example_collectable s(1), of "rev is"] s show ?thesis by auto
qed

end
