(* ===== verification/Service_Identifiers.thy ===== *)
theory Service_Identifiers
  imports Lola_Prelude
begin

text \<open>
  The identifiers of the LoLa binding: \<^verbatim>\<open>element_fq_id\<close>,
  \<^verbatim>\<open>skeleton_instance_identifier\<close>, \<^verbatim>\<open>proxy_instance_identifier\<close>, the method
  identifiers, and the enumerations they use. Numbers are written to streams in decimal,
  padded by the stream's fill character when a width is set; as in the standard library, the
  fill character of a stream persists while the width holds for one value.
\<close>

subsection \<open>Numbers as text\<close>

definition digit :: "nat \<Rightarrow> char" where
  "digit d = char_of (48 + d)"

fun decimal :: "nat \<Rightarrow> string" where
  "decimal n = (if n < 10 then [digit n] else decimal (n div 10) @ [digit (n mod 10)])"

declare decimal.simps [simp del]

record ostream =
  out_text :: string
  out_fill :: char

definition new_ostream :: ostream where
  "new_ostream = \<lparr>out_text = '''', out_fill = CHR '' ''\<rparr>"

definition put :: "string \<Rightarrow> ostream \<Rightarrow> ostream" where
  "put s out = out\<lparr>out_text := out_text out @ s\<rparr>"

definition setfill :: "char \<Rightarrow> ostream \<Rightarrow> ostream" where
  "setfill c out = out\<lparr>out_fill := c\<rparr>"

definition padded :: "char \<Rightarrow> nat \<Rightarrow> string \<Rightarrow> string" where
  "padded c width s = replicate (width - length s) c @ s"

definition put_number :: "nat \<Rightarrow> nat \<Rightarrow> ostream \<Rightarrow> ostream" where
  "put_number width n out = put (padded (out_fill out) width (decimal n)) out"

subsection \<open>Service elements\<close>

datatype service_element_type = INVALID | EVENT | FIELD | METHOD

definition element_type_number :: "service_element_type \<Rightarrow> nat" where
  "element_type_number t = (case t of INVALID \<Rightarrow> 0 | EVENT \<Rightarrow> 1 | FIELD \<Rightarrow> 2 | METHOD \<Rightarrow> 3)"

definition ServiceElementType_print :: "service_element_type \<Rightarrow> string" where
  "ServiceElementType_print t =
     (case t of INVALID \<Rightarrow> ''INVALID'' | EVENT \<Rightarrow> ''EVENT'' | FIELD \<Rightarrow> ''FIELD'' | METHOD \<Rightarrow> ''METHOD'')"

record element_fq_id =
  fq_service_id :: u16
  fq_element_id :: u16
  fq_instance_id :: u16
  fq_element_type :: service_element_type

definition ElementFqId :: "u16 \<Rightarrow> u16 \<Rightarrow> u16 \<Rightarrow> service_element_type \<Rightarrow> element_fq_id" where
  "ElementFqId service_id element_id instance_id element_type =
     \<lparr>fq_service_id = service_id, fq_element_id = element_id, fq_instance_id = instance_id, fq_element_type = element_type\<rparr>"

definition ElementFqId_default :: element_fq_id where
  "ElementFqId_default = ElementFqId (- 1) (- 1) (- 1) INVALID"

text \<open>The constructor from a number refuses everything above \<open>FIELD\<close>.\<close>

definition ElementFqId_from_number :: "u16 \<Rightarrow> u16 \<Rightarrow> u16 \<Rightarrow> u8 \<Rightarrow> element_fq_id option" where
  "ElementFqId_from_number service_id element_id instance_id element_type =
     (if element_type > 2 then None
      else Some (ElementFqId service_id element_id instance_id
        (if element_type = 0 then INVALID else if element_type = 1 then EVENT else FIELD)))"

definition ElementFqId_ToString :: "element_fq_id \<Rightarrow> string" where
  "ElementFqId_ToString x =
     ''ElementFqId{S:'' @ decimal (unat (fq_service_id x)) @ '', E:'' @ decimal (unat (fq_element_id x)) @
     '', I:'' @ decimal (unat (fq_instance_id x)) @ '', T:'' @ decimal (element_type_number (fq_element_type x)) @ ''}''"

definition IsElementEvent :: "element_fq_id \<Rightarrow> bool" where
  "IsElementEvent x \<longleftrightarrow> fq_element_type x = EVENT"

definition IsElementField :: "element_fq_id \<Rightarrow> bool" where
  "IsElementField x \<longleftrightarrow> fq_element_type x = FIELD"

definition ElementFqId_equal :: "element_fq_id \<Rightarrow> element_fq_id \<Rightarrow> bool" where
  "ElementFqId_equal lhs rhs \<longleftrightarrow>
     fq_service_id lhs = fq_service_id rhs \<and> fq_element_id lhs = fq_element_id rhs \<and> fq_instance_id lhs = fq_instance_id rhs"

definition ElementFqId_less :: "element_fq_id \<Rightarrow> element_fq_id \<Rightarrow> bool" where
  "ElementFqId_less lhs rhs =
     (if fq_service_id lhs = fq_service_id rhs then
        (if fq_instance_id lhs = fq_instance_id rhs then fq_element_id lhs < fq_element_id rhs
         else fq_instance_id lhs < fq_instance_id rhs)
      else fq_service_id lhs < fq_service_id rhs)"

text \<open>The number that is handed to the hash function of the standard library.\<close>

definition ElementFqId_hash_key :: "element_fq_id \<Rightarrow> u64" where
  "ElementFqId_hash_key x =
     or (or (push_bit 32 (ucast (fq_service_id x))) (push_bit 16 (ucast (fq_element_id x)))) (ucast (fq_instance_id x))"

subsection \<open>Instances\<close>

record skeleton_instance_identifier =
  skeleton_service_id :: u16
  skeleton_instance_id :: u16

definition SkeletonInstanceIdentifier_equal :: "skeleton_instance_identifier \<Rightarrow> skeleton_instance_identifier \<Rightarrow> bool" where
  "SkeletonInstanceIdentifier_equal lhs rhs \<longleftrightarrow>
     skeleton_service_id lhs = skeleton_service_id rhs \<and> skeleton_instance_id lhs = skeleton_instance_id rhs"

definition SkeletonInstanceIdentifier_hash_key :: "skeleton_instance_identifier \<Rightarrow> u64" where
  "SkeletonInstanceIdentifier_hash_key x =
     or (push_bit 16 (ucast (skeleton_service_id x))) (ucast (skeleton_instance_id x))"

record proxy_instance_identifier =
  proxy_application_id :: u32
  proxy_instance_counter :: u16

definition ProxyInstanceIdentifier_equal :: "proxy_instance_identifier \<Rightarrow> proxy_instance_identifier \<Rightarrow> bool" where
  "ProxyInstanceIdentifier_equal lhs rhs \<longleftrightarrow>
     proxy_application_id lhs = proxy_application_id rhs \<and> proxy_instance_counter lhs = proxy_instance_counter rhs"

definition ProxyInstanceIdentifier_hash_key :: "proxy_instance_identifier \<Rightarrow> u64" where
  "ProxyInstanceIdentifier_hash_key x =
     or (push_bit 16 (ucast (proxy_application_id x))) (ucast (proxy_instance_counter x))"

subsection \<open>Methods\<close>

datatype method_type = kUnknown | kMethod | kGet | kSet

definition method_type_number :: "method_type \<Rightarrow> u8" where
  "method_type_number t = (case t of kUnknown \<Rightarrow> 0 | kMethod \<Rightarrow> 1 | kGet \<Rightarrow> 2 | kSet \<Rightarrow> 3)"

definition MethodType_to_string :: "method_type \<Rightarrow> string" where
  "MethodType_to_string t = (case t of kMethod \<Rightarrow> ''Method'' | kGet \<Rightarrow> ''Get'' | kSet \<Rightarrow> ''Set'' | kUnknown \<Rightarrow> ''Unknown'')"

record unique_method_identifier =
  method_or_field_id :: u16
  id_method_type :: method_type

definition UniqueMethodIdentifier_equal :: "unique_method_identifier \<Rightarrow> unique_method_identifier \<Rightarrow> bool" where
  "UniqueMethodIdentifier_equal lhs rhs \<longleftrightarrow>
     method_or_field_id lhs = method_or_field_id rhs \<and> id_method_type lhs = id_method_type rhs"

definition UniqueMethodIdentifier_hash_key :: "unique_method_identifier \<Rightarrow> u32" where
  "UniqueMethodIdentifier_hash_key x =
     or (push_bit 16 (ucast (method_or_field_id x))) (ucast (method_type_number (id_method_type x)))"

record proxy_method_instance_identifier =
  method_proxy_instance :: proxy_instance_identifier
  method_unique_id :: unique_method_identifier

definition ProxyMethodInstanceIdentifier_equal ::
  "proxy_method_instance_identifier \<Rightarrow> proxy_method_instance_identifier \<Rightarrow> bool" where
  "ProxyMethodInstanceIdentifier_equal lhs rhs \<longleftrightarrow>
     ProxyInstanceIdentifier_equal (method_proxy_instance lhs) (method_proxy_instance rhs) \<and>
     UniqueMethodIdentifier_equal (method_unique_id lhs) (method_unique_id rhs)"

definition ProxyMethodInstanceIdentifier_hash ::
  "(u64 \<Rightarrow> u64) \<Rightarrow> (u32 \<Rightarrow> u64) \<Rightarrow> proxy_method_instance_identifier \<Rightarrow> u64" where
  "ProxyMethodInstanceIdentifier_hash hash64 hash32 x =
     (let seed = hash64 (ProxyInstanceIdentifier_hash_key (method_proxy_instance x))
      in xor seed (hash32 (UniqueMethodIdentifier_hash_key (method_unique_id x)) + 0x9e3779b9 +
           push_bit 6 seed + drop_bit 2 seed))"

subsection \<open>Decimal numbers can be read back\<close>

definition number_of_text :: "string \<Rightarrow> nat" where
  "number_of_text s = foldl (\<lambda>n c. 10 * n + (of_char c - 48)) 0 s"

lemma of_char_digit: "d < 10 \<Longrightarrow> of_char (digit d) = (48 + d :: nat)"
  by (simp add: digit_def)

lemma number_of_decimal [simp]: "number_of_text (decimal n) = n"
proof (induction n rule: decimal.induct)
  case (1 n)
  show ?case
  proof (cases "n < 10")
    case True
    then show ?thesis by (simp add: decimal.simps [of n] number_of_text_def of_char_digit)
  next
    case False
    have "n mod 10 < 10" by simp
    then show ?thesis
      using False 1 by (simp add: decimal.simps [of n] number_of_text_def of_char_digit)
  qed
qed

lemma decimal_inject [simp]: "decimal m = decimal n \<longleftrightarrow> m = n"
  by (metis number_of_decimal)

lemma decimal_digits: "c \<in> set (decimal n) \<Longrightarrow> \<exists>d < 10. c = digit d"
proof (induction n rule: decimal.induct)
  case (1 n)
  then show ?case
    by (cases "n < 10") (auto simp: decimal.simps [of n] intro: exI [of _ "n mod 10"])
qed

lemma decimal_no_separator [simp]:
  assumes "of_char c < (48 :: nat) \<or> of_char c \<ge> (58 :: nat)"
  shows "c \<notin> set (decimal n)"
proof
  assume "c \<in> set (decimal n)"
  then obtain d where "d < 10" "c = digit d" using decimal_digits by blast
  with assms show False by (simp add: of_char_digit)
qed

lemma number_of_padded [simp]: "number_of_text (padded CHR ''0'' w s) = number_of_text s"
proof -
  have "foldl (\<lambda>n c. 10 * n + (of_char c - 48)) 0 (replicate k CHR ''0'') = (0::nat)" for k
    by (induction k) (simp_all add: replicate_append_same [symmetric])
  then show ?thesis by (simp add: number_of_text_def padded_def)
qed

lemma padded_decimal_inject [simp]:
  "padded CHR ''0'' w (decimal m) = padded CHR ''0'' w (decimal n) \<longleftrightarrow> m = n"
  by (metis number_of_decimal number_of_padded)

lemma padded_no_separator [simp]:
  "of_char c < (48 :: nat) \<or> of_char c \<ge> (58 :: nat) \<Longrightarrow> c \<notin> set (padded CHR ''0'' w (decimal n))"
  by (auto simp: padded_def)

subsection \<open>Keys\<close>

text \<open>Two numbers packed side by side can be told apart.\<close>

lemma packed_pair_inject:
  fixes a a' :: "'a::len word" and b b' :: "'b::len word"
  assumes "LENGTH('a) + LENGTH('b) \<le> LENGTH('c::len)"
  shows "or (push_bit LENGTH('b) (ucast a :: 'c word)) (ucast b) = or (push_bit LENGTH('b) (ucast a')) (ucast b')
    \<longleftrightarrow> a = a' \<and> b = b'"
proof
  assume eq: "or (push_bit LENGTH('b) (ucast a :: 'c word)) (ucast b) = or (push_bit LENGTH('b) (ucast a')) (ucast b')"
  have bits: "bit (or (push_bit LENGTH('b) (ucast a :: 'c word)) (ucast b)) n =
      bit (or (push_bit LENGTH('b) (ucast a' :: 'c word)) (ucast b')) n" for n
    using eq by simp
  have "a = a'"
  proof (rule bit_word_eqI)
    fix n
    assume "n < LENGTH('a)"
    with bits [of "n + LENGTH('b)"] assms show "bit a n = bit a' n"
      by (auto simp: bit_simps dest: bit_imp_le_length)
  qed
  moreover have "b = b'"
  proof (rule bit_word_eqI)
    fix n
    assume "n < LENGTH('b)"
    with bits [of n] assms show "bit b n = bit b' n" by (auto simp: bit_simps)
  qed
  ultimately show "a = a' \<and> b = b'" ..
qed simp

lemma ElementFqId_hash_key_inject: "ElementFqId_hash_key a = ElementFqId_hash_key b \<longleftrightarrow> ElementFqId_equal a b"
proof
  assume eq: "ElementFqId_hash_key a = ElementFqId_hash_key b"
  have bits: "bit (ElementFqId_hash_key a) n = bit (ElementFqId_hash_key b) n" for n using eq by simp
  have "fq_service_id a = fq_service_id b"
  proof (rule bit_word_eqI)
    fix n assume "n < LENGTH(16)"
    with bits [of "n + 32"] show "bit (fq_service_id a) n = bit (fq_service_id b) n"
      by (auto simp: ElementFqId_hash_key_def bit_simps dest: bit_imp_le_length)
  qed
  moreover have "fq_element_id a = fq_element_id b"
  proof (rule bit_word_eqI)
    fix n assume "n < LENGTH(16)"
    with bits [of "n + 16"] show "bit (fq_element_id a) n = bit (fq_element_id b) n"
      by (auto simp: ElementFqId_hash_key_def bit_simps dest: bit_imp_le_length)
  qed
  moreover have "fq_instance_id a = fq_instance_id b"
  proof (rule bit_word_eqI)
    fix n assume "n < LENGTH(16)"
    with bits [of n] show "bit (fq_instance_id a) n = bit (fq_instance_id b) n"
      by (auto simp: ElementFqId_hash_key_def bit_simps)
  qed
  ultimately show "ElementFqId_equal a b" by (simp add: ElementFqId_equal_def)
qed (simp add: ElementFqId_hash_key_def ElementFqId_equal_def)

lemma method_type_number_inject [simp]: "method_type_number s = method_type_number t \<longleftrightarrow> s = t"
  by (cases s; cases t) (simp_all add: method_type_number_def)

text \<open>
  The operators that order and hash the identifiers fit together. For service elements
  \<^verbatim>\<open>operator<\<close> is a strict weak order whose equivalence is \<^verbatim>\<open>operator==\<close>, so an
  element is found again in an ordered map; and for all four kinds of identifiers two of them
  have the same hash key exactly if they are equal, so distinct identifiers never share a key.
\<close>

lemma identifier_keys_consistent:
  "\<not> ElementFqId_less a a \<and>
   (ElementFqId_less a b \<and> ElementFqId_less b c \<longrightarrow> ElementFqId_less a c) \<and>
   (\<not> ElementFqId_less a b \<and> \<not> ElementFqId_less b a \<longleftrightarrow> ElementFqId_equal a b) \<and>
   (ElementFqId_hash_key a = ElementFqId_hash_key b \<longleftrightarrow> ElementFqId_equal a b) \<and>
   (SkeletonInstanceIdentifier_hash_key s = SkeletonInstanceIdentifier_hash_key t \<longleftrightarrow> SkeletonInstanceIdentifier_equal s t) \<and>
   (ProxyInstanceIdentifier_hash_key p = ProxyInstanceIdentifier_hash_key q \<longleftrightarrow> ProxyInstanceIdentifier_equal p q) \<and>
   (UniqueMethodIdentifier_hash_key u = UniqueMethodIdentifier_hash_key v \<longleftrightarrow> UniqueMethodIdentifier_equal u v)"
proof (intro conjI)
  show "\<not> ElementFqId_less a a" by (simp add: ElementFqId_less_def)
  show "ElementFqId_less a b \<and> ElementFqId_less b c \<longrightarrow> ElementFqId_less a c"
    by (auto simp: ElementFqId_less_def split: if_splits)
  show "\<not> ElementFqId_less a b \<and> \<not> ElementFqId_less b a \<longleftrightarrow> ElementFqId_equal a b"
    by (auto simp: ElementFqId_less_def ElementFqId_equal_def split: if_splits)
  show "ElementFqId_hash_key a = ElementFqId_hash_key b \<longleftrightarrow> ElementFqId_equal a b"
    by (rule ElementFqId_hash_key_inject)
  show "SkeletonInstanceIdentifier_hash_key s = SkeletonInstanceIdentifier_hash_key t \<longleftrightarrow> SkeletonInstanceIdentifier_equal s t"
    using packed_pair_inject [where 'a = 16 and 'b = 16 and 'c = 64]
    by (simp add: SkeletonInstanceIdentifier_hash_key_def SkeletonInstanceIdentifier_equal_def)
  show "ProxyInstanceIdentifier_hash_key p = ProxyInstanceIdentifier_hash_key q \<longleftrightarrow> ProxyInstanceIdentifier_equal p q"
    using packed_pair_inject [where 'a = 32 and 'b = 16 and 'c = 64]
    by (simp add: ProxyInstanceIdentifier_hash_key_def ProxyInstanceIdentifier_equal_def)
  have widen: "(ucast (method_type_number x) :: u32) = ucast (ucast (method_type_number x) :: u16)" for x
    by (cases x) (simp_all add: method_type_number_def)
  have number: "(ucast (method_type_number x) :: u16) = ucast (method_type_number y) \<longleftrightarrow> x = y" for x y
    by (cases x; cases y) (simp_all add: method_type_number_def)
  show "UniqueMethodIdentifier_hash_key u = UniqueMethodIdentifier_hash_key v \<longleftrightarrow> UniqueMethodIdentifier_equal u v"
    using packed_pair_inject [where 'a = 16 and 'b = 16 and 'c = 32] number
    by (simp add: UniqueMethodIdentifier_hash_key_def UniqueMethodIdentifier_equal_def widen)
qed


end
