(* ===== verification/Path_Builders.thy ===== *)
theory Path_Builders
  imports Service_Identifiers Event_Memory
begin

text \<open>
  \<^verbatim>\<open>path_builder.h/.cpp\<close>, \<^verbatim>\<open>shm_path_builder.cpp\<close> and
  \<^verbatim>\<open>partial_restart_path_builder.cpp\<close>: the names of the shared-memory objects and
  of the marker files. Processes that agree on the identifiers meet in the same object; the
  names are injective, so no others do.
\<close>

definition EmitWithPrefix :: "string \<Rightarrow> (ostream \<Rightarrow> ostream) \<Rightarrow> string" where
  "EmitWithPrefix prefix emitter = out_text (emitter (put prefix new_ostream))"

definition OptionalEmitWithPrefix :: "string \<Rightarrow> (ostream \<Rightarrow> bool \<times> ostream) \<Rightarrow> string option" where
  "OptionalEmitWithPrefix prefix emitter =
     (case emitter (put prefix new_ostream) of (True, out) \<Rightarrow> Some (out_text out) | (False, _) \<Rightarrow> None)"

definition AppendService :: "u16 \<Rightarrow> ostream \<Rightarrow> ostream" where
  "AppendService service_id out = put ''-'' (put_number 16 (unat service_id) (setfill CHR ''0'' out))"

definition AppendInstanceId :: "u16 \<Rightarrow> ostream \<Rightarrow> ostream" where
  "AppendInstanceId instance_id out = put_number 5 (unat instance_id) out"

definition AppendServiceAndInstance :: "u16 \<Rightarrow> u16 \<Rightarrow> ostream \<Rightarrow> ostream" where
  "AppendServiceAndInstance service_id instance_id out = AppendInstanceId instance_id (AppendService service_id out)"

subsection \<open>Shared memory\<close>

definition EmitControlFileName :: "quality_type \<Rightarrow> u16 \<Rightarrow> u16 \<Rightarrow> ostream \<Rightarrow> ostream option" where
  "EmitControlFileName channel_type service_id instance_id out =
     (let out = AppendServiceAndInstance service_id instance_id (put ''lola-ctl-'' out)
      in case channel_type of
           kASIL_QM \<Rightarrow> Some out
         | kASIL_B \<Rightarrow> Some (put ''-b'' out)
         | kInvalid \<Rightarrow> None)"

definition EmitDataFileName :: "u16 \<Rightarrow> u16 \<Rightarrow> ostream \<Rightarrow> ostream" where
  "EmitDataFileName service_id instance_id out = AppendServiceAndInstance service_id instance_id (put ''lola-data-'' out)"

definition EmitMethodFileName :: "u16 \<Rightarrow> u16 \<Rightarrow> proxy_instance_identifier \<Rightarrow> ostream \<Rightarrow> ostream" where
  "EmitMethodFileName service_id instance_id proxy out =
     (let out = AppendServiceAndInstance service_id instance_id (put ''lola-methods-'' out);
          out = put ''-'' out;
          out = put ''-'' (put_number 5 (unat (proxy_application_id proxy)) (setfill CHR ''0'' out))
      in put_number 5 (unat (proxy_instance_counter proxy)) (setfill CHR ''0'' out))"

definition GetDataChannelShmName :: "u16 \<Rightarrow> u16 \<Rightarrow> string" where
  "GetDataChannelShmName service_id instance_id = EmitWithPrefix ''/'' (EmitDataFileName service_id instance_id)"

text \<open>The emitter of the control name terminates for an invalid quality.\<close>

definition GetControlChannelShmName :: "u16 \<Rightarrow> u16 \<Rightarrow> quality_type \<Rightarrow> string option" where
  "GetControlChannelShmName service_id instance_id channel_type =
     map_option out_text (EmitControlFileName channel_type service_id instance_id (put ''/'' new_ostream))"

definition GetMethodChannelShmName :: "u16 \<Rightarrow> u16 \<Rightarrow> proxy_instance_identifier \<Rightarrow> string" where
  "GetMethodChannelShmName service_id instance_id proxy = EmitWithPrefix ''/'' (EmitMethodFileName service_id instance_id proxy)"

subsection \<open>Marker files\<close>

definition EmitServiceInstanceExistenceMarkerFileName :: "u16 \<Rightarrow> u16 \<Rightarrow> ostream \<Rightarrow> ostream" where
  "EmitServiceInstanceExistenceMarkerFileName service_id instance_id out =
     AppendServiceAndInstance service_id instance_id (put ''existence-'' out)"

definition EmitServiceInstanceUsageMarkerFileName :: "u16 \<Rightarrow> u16 \<Rightarrow> ostream \<Rightarrow> ostream" where
  "EmitServiceInstanceUsageMarkerFileName service_id instance_id out =
     AppendServiceAndInstance service_id instance_id (put ''usage-'' out)"

text \<open>The prefix of the temporary directory depends on the platform the code is built for.\<close>

definition GetLolaPartialRestartDirectoryPath :: "string \<Rightarrow> string" where
  "GetLolaPartialRestartDirectoryPath tmp_path_prefix = tmp_path_prefix @ ''mw_com_lola/'' @ ''partial_restart/''"

definition GetServiceInstanceExistenceMarkerFilePath :: "string \<Rightarrow> u16 \<Rightarrow> u16 \<Rightarrow> string" where
  "GetServiceInstanceExistenceMarkerFilePath tmp_path_prefix service_id instance_id =
     EmitWithPrefix (tmp_path_prefix @ ''mw_com_lola/'' @ ''partial_restart/'')
       (EmitServiceInstanceExistenceMarkerFileName service_id instance_id)"

definition GetServiceInstanceUsageMarkerFilePath :: "string \<Rightarrow> u16 \<Rightarrow> u16 \<Rightarrow> string" where
  "GetServiceInstanceUsageMarkerFilePath tmp_path_prefix service_id instance_id =
     EmitWithPrefix (tmp_path_prefix @ ''mw_com_lola/'' @ ''partial_restart/'')
       (EmitServiceInstanceUsageMarkerFileName service_id instance_id)"

subsection \<open>Names determine what they name\<close>

definition service_and_instance :: "u16 \<Rightarrow> u16 \<Rightarrow> string" where
  "service_and_instance s i = padded CHR ''0'' 16 (decimal (unat s)) @ ''-'' @ padded CHR ''0'' 5 (decimal (unat i))"

lemma AppendServiceAndInstance_text:
  "AppendServiceAndInstance s i out = \<lparr>out_text = out_text out @ service_and_instance s i, out_fill = CHR ''0''\<rparr>"
  by (simp add: AppendServiceAndInstance_def AppendService_def AppendInstanceId_def put_number_def put_def setfill_def
      service_and_instance_def)

lemmas emit_defs =
  EmitWithPrefix_def put_def new_ostream_def AppendServiceAndInstance_text

lemma channel_names:
  "GetDataChannelShmName s i = ''/lola-data-'' @ service_and_instance s i"
  "GetControlChannelShmName s i kASIL_QM = Some (''/lola-ctl-'' @ service_and_instance s i)"
  "GetControlChannelShmName s i kASIL_B = Some (''/lola-ctl-'' @ service_and_instance s i @ ''-b'')"
  "GetControlChannelShmName s i kInvalid = None"
  "GetMethodChannelShmName s i p = ''/lola-methods-'' @ service_and_instance s i @ ''-'' @
     padded CHR ''0'' 5 (decimal (unat (proxy_application_id p))) @ ''-'' @
     padded CHR ''0'' 5 (decimal (unat (proxy_instance_counter p)))"
  by (simp_all add: GetDataChannelShmName_def EmitDataFileName_def GetControlChannelShmName_def EmitControlFileName_def
      GetMethodChannelShmName_def EmitMethodFileName_def emit_defs put_number_def setfill_def Let_def)

text \<open>A text without a dash, followed by nothing or by a dash, can be told from what follows.\<close>

lemma dash_split:
  assumes "B @ r = B' @ r'" "CHR ''-'' \<notin> set B" "CHR ''-'' \<notin> set B'"
    and "r = [] \<or> hd r = CHR ''-''" "r' = [] \<or> hd r' = CHR ''-''"
  shows "B = B' \<and> r = r'"
proof -
  have before: "takeWhile (\<lambda>c. c \<noteq> CHR ''-'') (X @ t) = X"
    if "CHR ''-'' \<notin> set X" "t = [] \<or> hd t = CHR ''-''" for X t
    using that by (induction X) (cases t; auto)+
  have "B = B'" using before [OF assms(2,4)] before [OF assms(3,5)] assms(1) by simp
  with assms(1) show ?thesis by simp
qed

lemma service_and_instance_split:
  assumes "service_and_instance s i @ r = service_and_instance s' i' @ r'"
    and "r = [] \<or> hd r = CHR ''-''" "r' = [] \<or> hd r' = CHR ''-''"
  shows "s = s' \<and> i = i' \<and> r = r'"
proof -
  let ?A = "\<lambda>s :: u16. padded CHR ''0'' 16 (decimal (unat s))" and ?B = "\<lambda>i :: u16. padded CHR ''0'' 5 (decimal (unat i))"
  have "?A s @ CHR ''-'' # (?B i @ r) = ?A s' @ CHR ''-'' # (?B i' @ r')"
    using assms(1) by (simp add: service_and_instance_def)
  from dash_split [OF this] have "?A s = ?A s'" "?B i @ r = ?B i' @ r'" by simp_all
  then show ?thesis using dash_split [OF _ _ _ assms(2,3), of "?B i" "?B i'"] by (simp add: word_unat_eq_iff)
qed

text \<open>The objects a service instance keeps in shared memory, and their names.\<close>

datatype shm_object =
    Data_Channel u16 u16
  | Control_Channel u16 u16 quality_type
  | Method_Channel u16 u16 proxy_instance_identifier

fun shm_name :: "shm_object \<Rightarrow> string option" where
  "shm_name (Data_Channel s i) = Some (GetDataChannelShmName s i)"
| "shm_name (Control_Channel s i q) = GetControlChannelShmName s i q"
| "shm_name (Method_Channel s i p) = Some (GetMethodChannelShmName s i p)"

text \<open>
  C22. Shared-memory objects with the same name are the same object: a name determines
  whether it is a data, control or method channel, the service, the instance, the quality of
  a control channel, and the application and instance counter of the proxy of a method
  channel. The widths the numbers are padded to are minimal widths, so this needs the dashes,
  and holds for all identifiers.
\<close>

theorem shm_names_unique:
  assumes "shm_name x = Some n" "shm_name y = Some n"
  shows "x = y"
proof -
  have control: "q = q' \<and> s = s' \<and> i = i'"
    if eq: "GetControlChannelShmName s i q = Some n" "GetControlChannelShmName s' i' q' = Some n" for s i q s' i' q'
  proof -
    let ?suffix = "\<lambda>q. if q = kASIL_B then ''-b'' else []"
    have "n = ''/lola-ctl-'' @ service_and_instance s i @ ?suffix q" "q \<noteq> kInvalid"
      using eq(1) by (cases q; simp add: channel_names)+
    moreover have "n = ''/lola-ctl-'' @ service_and_instance s' i' @ ?suffix q'" "q' \<noteq> kInvalid"
      using eq(2) by (cases q'; simp add: channel_names)+
    ultimately have "s = s' \<and> i = i' \<and> ?suffix q = ?suffix q'"
      by (intro service_and_instance_split) simp_all
    with \<open>q \<noteq> kInvalid\<close> \<open>q' \<noteq> kInvalid\<close> show ?thesis by (cases q; cases q') simp_all
  qed
  have method_channel: "s = s' \<and> i = i' \<and> p = p'"
    if "GetMethodChannelShmName s i p = GetMethodChannelShmName s' i' p'" for s i p s' i' p'
  proof -
    let ?A = "\<lambda>p. padded CHR ''0'' 5 (decimal (unat (proxy_application_id p)))"
      and ?C = "\<lambda>p. padded CHR ''0'' 5 (decimal (unat (proxy_instance_counter p)))"
    have "s = s' \<and> i = i' \<and> ''-'' @ ?A p @ ''-'' @ ?C p = ''-'' @ ?A p' @ ''-'' @ ?C p'"
      by (rule service_and_instance_split) (use that in \<open>simp_all add: channel_names\<close>)
    moreover from this have "?A p = ?A p' \<and> ''-'' @ ?C p = ''-'' @ ?C p'"
      by (intro dash_split) simp_all
    ultimately show ?thesis by (cases p; cases p') (simp add: word_unat_eq_iff)
  qed
  have data: "s = s' \<and> i = i'" if "GetDataChannelShmName s i = GetDataChannelShmName s' i'" for s i s' i'
    using that service_and_instance_split [of s i "[]" s' i' "[]"] by (simp add: channel_names)
  have kinds: "GetControlChannelShmName s i q \<noteq> Some (GetDataChannelShmName s' i')"
    "GetControlChannelShmName s i q \<noteq> Some (GetMethodChannelShmName s' i' p)"
    "GetDataChannelShmName s i \<noteq> GetMethodChannelShmName s' i' p"
    "GetMethodChannelShmName s' i' p \<noteq> GetDataChannelShmName s i" for s i q s' i' p
    by (cases q; simp add: channel_names)+
  show ?thesis
  proof (cases x)
    case (Data_Channel s i)
    with assms kinds show ?thesis by (cases y) (auto dest: data)
  next
    case (Control_Channel s i q)
    with assms kinds show ?thesis by (cases y) (auto dest: control)
  next
    case (Method_Channel s i p)
    with assms kinds show ?thesis by (cases y) (auto dest: method_channel)
  qed
qed

theorem shm_names_unique_witness:
  "shm_name (Control_Channel 1 2 kASIL_B) = Some ''/lola-ctl-0000000000000001-00002-b'' \<and>
   {y. shm_name y = Some ''/lola-ctl-0000000000000001-00002-b''} = {Control_Channel 1 2 kASIL_B}"
proof -
  have "shm_name (Control_Channel 1 2 kASIL_B) = Some ''/lola-ctl-0000000000000001-00002-b''"
    by code_simp
  then show ?thesis using shm_names_unique [of _ "''/lola-ctl-0000000000000001-00002-b''"] by blast
qed

end
