(* ===== verification/Subscription_Control.thy ===== *)
theory Subscription_Control
  imports Atomics "HOL-Library.Multiset"
begin

text \<open>
  \<^verbatim>\<open>event_subscription_control.h/.cpp\<close>: the number of subscribers of an event and the
  number of slots they subscribed for, kept in the two halves of one atomic 32-bit word. The
  limits are constants of the object.
\<close>

datatype subscribe_result = kSuccess | kMaxSubscribersOverflow | kSlotOverflow | kUpdateRetryFailure

record 'm subscription_view =
  subscription_state :: "('m, u32) cell"
  slots_limit :: u16
  subscribers_limit :: u8
  samples_enforced :: bool

definition GetSubscribersFromState :: "u32 \<Rightarrow> u8" where
  "GetSubscribersFromState s = ucast (drop_bit 16 s)"

definition GetSubscribedSamplesFromState :: "u32 \<Rightarrow> u16" where
  "GetSubscribedSamplesFromState s = ucast (and s 0x0000FFFF)"

definition CreateState :: "u8 \<Rightarrow> u16 \<Rightarrow> u32" where
  "CreateState subscriber_count subscribed_slots = push_bit 16 (ucast subscriber_count) + ucast subscribed_slots"

text \<open>
  The comparison with the slot limit is done in \<^verbatim>\<open>int\<close>, so it does not wrap; the sum that
  is stored is a 16-bit number and does.
\<close>

fun Subscribe_loop ::
  "nat \<Rightarrow> 'm environment \<Rightarrow> 'm subscription_view \<Rightarrow> u16 \<Rightarrow> 'm world \<Rightarrow> subscribe_result \<times> 'm world" where
  "Subscribe_loop 0 e v slot_count w = (kUpdateRetryFailure, w)"
| "Subscribe_loop (Suc retries) e v slot_count w =
     (let (current_state, w) = load e (subscription_state v) w;
          current_subscribers = GetSubscribersFromState current_state;
          current_subscribed_slots = GetSubscribedSamplesFromState current_state in
      if current_subscribers \<ge> subscribers_limit v then (kMaxSubscribersOverflow, w)
      else if samples_enforced v \<and>
              unat current_subscribed_slots + unat slot_count > unat (slots_limit v)
      then (kSlotOverflow, w)
      else
        (case compare_exchange_weak e (subscription_state v) current_state
                (CreateState (current_subscribers + 1) (current_subscribed_slots + slot_count)) w of
           (True, _, w) \<Rightarrow> (kSuccess, w)
         | (False, _, w) \<Rightarrow> Subscribe_loop retries e v slot_count w))"

definition Subscribe ::
  "'m environment \<Rightarrow> 'm subscription_view \<Rightarrow> u16 \<Rightarrow> 'm world \<Rightarrow> subscribe_result \<times> 'm world" where
  "Subscribe e v slot_count w = Subscribe_loop (2 * unat (subscribers_limit v)) e v slot_count w"

fun Unsubscribe_loop ::
  "nat \<Rightarrow> 'm environment \<Rightarrow> 'm subscription_view \<Rightarrow> u16 \<Rightarrow> 'm world \<Rightarrow> 'm world option" where
  "Unsubscribe_loop 0 e v slot_count w = None"
| "Unsubscribe_loop (Suc retries) e v slot_count w =
     (let (current_state, w) = load e (subscription_state v) w;
          current_subscribers = GetSubscribersFromState current_state;
          current_subscribed_slots = GetSubscribedSamplesFromState current_state in
      if current_subscribers = 0 then None
      else if current_subscribed_slots < slot_count then None
      else
        (case compare_exchange_weak e (subscription_state v) current_state
                (CreateState (current_subscribers - 1) (current_subscribed_slots - slot_count)) w of
           (True, _, w) \<Rightarrow> Some w
         | (False, _, w) \<Rightarrow> Unsubscribe_loop retries e v slot_count w))"

definition Unsubscribe ::
  "'m environment \<Rightarrow> 'm subscription_view \<Rightarrow> u16 \<Rightarrow> 'm world \<Rightarrow> 'm world option" where
  "Unsubscribe e v slot_count w = Unsubscribe_loop (3 * unat (subscribers_limit v)) e v slot_count w"

definition SubscribeResult_ToString :: "subscribe_result \<Rightarrow> string" where
  "SubscribeResult_ToString r =
     (case r of
        kSuccess \<Rightarrow> ''success''
      | kMaxSubscribersOverflow \<Rightarrow> ''Max subcribers overflow''
      | kSlotOverflow \<Rightarrow> ''Slot overflow''
      | kUpdateRetryFailure \<Rightarrow> ''Update retry failure'')"

subsection \<open>The packed word\<close>

lemma CreateState_or: "CreateState c s = or (push_bit 16 (ucast c)) (ucast s)"
  unfolding CreateState_def
  by (rule disjunctive_add) (auto simp: bit_simps dest: bit_imp_le_length)

lemma CreateState_parts [simp]:
  "GetSubscribersFromState (CreateState c s) = c"
  "GetSubscribedSamplesFromState (CreateState c s) = s"
proof -
  have mask: "(0x0000FFFF :: u32) = mask 16" by (simp add: mask_eq_exp_minus_1)
  show "GetSubscribersFromState (CreateState c s) = c"
    by (rule bit_word_eqI) (auto simp: GetSubscribersFromState_def CreateState_or bit_simps dest: bit_imp_le_length)
  show "GetSubscribedSamplesFromState (CreateState c s) = s"
    by (rule bit_word_eqI) (auto simp: GetSubscribedSamplesFromState_def CreateState_or mask bit_simps)
qed

subsection \<open>What the word stands for\<close>

text \<open>
  The specification: the multiset of the slot counts of the current subscriptions. The word
  stands for it if its halves are the number and the sum of its elements.
\<close>

definition represents :: "u32 \<Rightarrow> nat multiset \<Rightarrow> bool" where
  "represents s M \<longleftrightarrow>
     unat (GetSubscribersFromState s) = size M \<and> unat (GetSubscribedSamplesFromState s) = sum_mset M"

definition within_limits :: "'m subscription_view \<Rightarrow> nat multiset \<Rightarrow> bool" where
  "within_limits v M \<longleftrightarrow> size M \<le> unat (subscribers_limit v) \<and> sum_mset M \<le> unat (slots_limit v)"

lemma represents_CreateState:
  "represents (CreateState c s) M \<longleftrightarrow> unat c = size M \<and> unat s = sum_mset M"
  by (simp add: represents_def)

lemma represents_subscribe:
  assumes "represents s M" "size M < unat (subscribers_limit v)" "sum_mset M + unat n \<le> unat (slots_limit v)"
  shows "represents (CreateState (GetSubscribersFromState s + 1) (GetSubscribedSamplesFromState s + n)) (add_mset (unat n) M)"
    "within_limits v (add_mset (unat n) M)"
proof -
  have "size M + 1 < 2 ^ 8" using assms(2) u8_less [of "subscribers_limit v"] by simp
  moreover have "sum_mset M + unat n < 2 ^ 16" using assms(3) u16_less [of "slots_limit v"] by simp
  ultimately show "represents (CreateState (GetSubscribersFromState s + 1) (GetSubscribedSamplesFromState s + n)) (add_mset (unat n) M)"
    using assms(1) by (simp add: represents_def unat_word_ariths)
  show "within_limits v (add_mset (unat n) M)" using assms(2,3) by (simp add: within_limits_def)
qed

lemma represents_unsubscribe:
  assumes "represents s M" "unat n \<in># M"
  shows "GetSubscribersFromState s \<noteq> 0" "\<not> GetSubscribedSamplesFromState s < n"
    "represents (CreateState (GetSubscribersFromState s - 1) (GetSubscribedSamplesFromState s - n)) (M - {#unat n#})"
proof -
  obtain M' where M: "M = add_mset (unat n) M'" using assms(2) by (metis insert_DiffM)
  have size: "unat (GetSubscribersFromState s) = Suc (size M')"
    and sum: "unat (GetSubscribedSamplesFromState s) = unat n + sum_mset M'"
    using assms(1) M by (auto simp: represents_def)
  then show nz: "GetSubscribersFromState s \<noteq> 0" and le: "\<not> GetSubscribedSamplesFromState s < n"
    by (auto simp: word_less_nat_alt)
  have "unat (GetSubscribersFromState s - 1) = size M'"
    using size by (subst unat_sub) (auto simp: word_le_nat_alt)
  moreover have "unat (GetSubscribedSamplesFromState s - n) = sum_mset M'"
    using sum by (subst unat_sub) (auto simp: word_le_nat_alt)
  ultimately show "represents (CreateState (GetSubscribersFromState s - 1) (GetSubscribedSamplesFromState s - n)) (M - {#unat n#})"
    by (simp add: M represents_CreateState)
qed

subsection \<open>Any number of subscribers at once\<close>

text \<open>
  The admissible changes of the word, each with what it means for the
  subscriptions: a subscriber is admitted within the limits it checked on the same value of the
  word, and it only gives back what it subscribed for.
\<close>

inductive subscription_step ::
  "'m subscription_view \<Rightarrow> u32 \<times> nat multiset \<Rightarrow> u32 \<times> nat multiset \<Rightarrow> bool" for v where
  subscribe: "\<lbrakk>GetSubscribersFromState s < subscribers_limit v;
      samples_enforced v \<longrightarrow> unat (GetSubscribedSamplesFromState s) + unat n \<le> unat (slots_limit v)\<rbrakk> \<Longrightarrow>
    subscription_step v (s, M)
      (CreateState (GetSubscribersFromState s + 1) (GetSubscribedSamplesFromState s + n), add_mset (unat n) M)"
| unsubscribe: "unat n \<in># M \<Longrightarrow>
    subscription_step v (s, M)
      (CreateState (GetSubscribersFromState s - 1) (GetSubscribedSamplesFromState s - n), M - {#unat n#})"

lemma subscription_step_invariant:
  assumes "samples_enforced v" "subscription_step v x y" "represents (fst x) (snd x)" "within_limits v (snd x)"
  shows "represents (fst y) (snd y) \<and> within_limits v (snd y)"
  using assms(2)
proof cases
  case (subscribe s n M)
  with assms(1,3,4) show ?thesis
    using represents_subscribe [of s M v n] by (auto simp: represents_def word_less_nat_alt)
next
  case (unsubscribe n M s)
  then have "size (M - {#unat n#}) \<le> size M" "sum_mset (M - {#unat n#}) \<le> sum_mset M"
    by (auto simp: size_mset_mono sum_mset_diff)
  with unsubscribe assms(3,4) represents_unsubscribe(3) [of s M n] show ?thesis
    by (auto simp: within_limits_def)
qed

text \<open>What \<open>Subscribe\<close> and \<open>Unsubscribe\<close> write, under any interference, is such a step.\<close>

lemma Subscribe_loop_step:
  assumes "Subscribe_loop k e v n w = (r, w')"
  shows "if r = kSuccess
    then \<exists>m s. own_steps w' = own_steps w @ [(m, wr (subscription_state v) s m)] \<and>
      (\<forall>M. subscription_step v (rd (subscription_state v) m, M) (s, add_mset (unat n) M))
    else own_steps w' = own_steps w"
  using assms
proof (induction k arbitrary: w)
  case (Suc k)
  define x w1 where "x = fst (load e (subscription_state v) w)" and "w1 = snd (load e (subscription_state v) w)"
  have w1: "own_steps w1 = own_steps w" by (simp add: w1_def)
  let ?new = "CreateState (GetSubscribersFromState x + 1) (GetSubscribedSamplesFromState x + n)"
  obtain ok f w2 where cas: "compare_exchange_weak e (subscription_state v) x ?new w1 = (ok, f, w2)"
    by (metis prod_cases3)
  note run = Suc.prems [simplified, folded x_def w1_def, unfolded Let_def split_beta, folded x_def w1_def, unfolded cas]
  consider (full) "subscribers_limit v \<le> GetSubscribersFromState x"
    | (slots) "\<not> subscribers_limit v \<le> GetSubscribersFromState x" "samples_enforced v"
        "unat (slots_limit v) < unat (GetSubscribedSamplesFromState x) + unat n"
    | (admitted) "\<not> subscribers_limit v \<le> GetSubscribersFromState x"
        "samples_enforced v \<longrightarrow> unat (GetSubscribedSamplesFromState x) + unat n \<le> unat (slots_limit v)"
    by linarith
  then show ?case
  proof cases
    case admitted
    show ?thesis
    proof (cases ok)
      case True
      obtain m where m: "rd (subscription_state v) m = x" "own_steps w2 = own_steps w @ [(m, wr (subscription_state v) ?new m)]"
        using compare_exchange_weak_success(2) [OF cas True] w1 by auto
      have "\<forall>M. subscription_step v (x, M) (?new, add_mset (unat n) M)"
        using admitted by (auto intro: subscription_step.subscribe)
      with m run admitted True show ?thesis by auto
    next
      case False
      with run admitted have "Subscribe_loop k e v n w2 = (r, w')" by auto
      from Suc.IH [OF this] show ?thesis unfolding compare_exchange_weak_failure [OF cas False] w1 .
    qed
  qed (use run w1 in auto)
qed auto

lemma Unsubscribe_loop_step:
  assumes "Unsubscribe_loop k e v n w = Some w'"
  shows "\<exists>m s. own_steps w' = own_steps w @ [(m, wr (subscription_state v) s m)] \<and>
    (\<forall>M. unat n \<in># M \<longrightarrow> subscription_step v (rd (subscription_state v) m, M) (s, M - {#unat n#}))"
  using assms
proof (induction k arbitrary: w)
  case (Suc k)
  define x w1 where "x = fst (load e (subscription_state v) w)" and "w1 = snd (load e (subscription_state v) w)"
  have w1: "own_steps w1 = own_steps w" by (simp add: w1_def)
  let ?new = "CreateState (GetSubscribersFromState x - 1) (GetSubscribedSamplesFromState x - n)"
  obtain ok f w2 where cas: "compare_exchange_weak e (subscription_state v) x ?new w1 = (ok, f, w2)"
    by (metis prod_cases3)
  note run = Suc.prems [simplified, folded x_def w1_def, unfolded Let_def split_beta, folded x_def w1_def, unfolded cas]
  show ?case
  proof (cases ok)
    case True
    obtain m where m: "rd (subscription_state v) m = x" "own_steps w2 = own_steps w @ [(m, wr (subscription_state v) ?new m)]"
      using compare_exchange_weak_success(2) [OF cas True] w1 by auto
    have "\<forall>M. unat n \<in># M \<longrightarrow> subscription_step v (x, M) (?new, M - {#unat n#})"
      by (auto intro: subscription_step.unsubscribe)
    with m run True show ?thesis by (auto split: if_splits)
  next
    case False
    with run have "Unsubscribe_loop k e v n w2 = Some w'" by (auto split: if_splits)
    from Suc.IH [OF this] show ?thesis unfolding compare_exchange_weak_failure [OF cas False] w1 .
  qed
qed simp

subsection \<open>Histories of calls\<close>

text \<open>The writes that a call performed, each with the memory before and after it.\<close>

definition writes_between :: "'m world \<Rightarrow> 'm world \<Rightarrow> ('m \<times> 'm) set" where
  "writes_between w w' = set (drop (length (own_steps w)) (own_steps w'))"

text \<open>
  The memories that a history of calls leads to, with the subscriptions that were successful and
  not given back. Every participant runs \<open>Subscribe\<close> and \<open>Unsubscribe\<close> in a world of its own, under any
  interference of the others; the history is the order of the writes of all these calls. A participant
  gives back only a subscription that exists. Whatever leaves the word as it is may
  happen in between.
\<close>

inductive subscription_history :: "'m subscription_view \<Rightarrow> 'm \<Rightarrow> nat multiset \<Rightarrow> bool" for v where
  init: "rd (subscription_state v) m = 0 \<Longrightarrow> subscription_history v m {#}"
| subscribe: "\<lbrakk>subscription_history v m M; Subscribe e v n w = (r, w'); (m, m') \<in> writes_between w w'\<rbrakk> \<Longrightarrow>
    subscription_history v m' (if r = kSuccess then add_mset (unat n) M else M)"
| unsubscribe: "\<lbrakk>subscription_history v m M; unat n \<in># M; Unsubscribe e v n w = Some w'; (m, m') \<in> writes_between w w'\<rbrakk> \<Longrightarrow>
    subscription_history v m' (M - {#unat n#})"
| other: "\<lbrakk>subscription_history v m M; rd (subscription_state v) m' = rd (subscription_state v) m\<rbrakk> \<Longrightarrow>
    subscription_history v m' M"

lemma Subscribe_write:
  assumes "atomic_object (subscription_state v)" "Subscribe e v n w = (r, w')" "(m, m') \<in> writes_between w w'"
  shows "r = kSuccess \<and> subscription_step v (rd (subscription_state v) m, M) (rd (subscription_state v) m', add_mset (unat n) M)"
  using Subscribe_loop_step [OF assms(2) [unfolded Subscribe_def]] assms(3) atomic_object.rd_wr [OF assms(1)]
  by (auto simp: writes_between_def split: if_splits)

lemma Unsubscribe_write:
  assumes "atomic_object (subscription_state v)" "Unsubscribe e v n w = Some w'" "(m, m') \<in> writes_between w w'" "unat n \<in># M"
  shows "subscription_step v (rd (subscription_state v) m, M) (rd (subscription_state v) m', M - {#unat n#})"
  using Unsubscribe_loop_step [OF assms(2) [unfolded Unsubscribe_def]] assms(3,4) atomic_object.rd_wr [OF assms(1)]
  by (auto simp: writes_between_def)

lemma represents_zero [simp]: "represents 0 {#}"
  by (simp add: represents_def GetSubscribersFromState_def GetSubscribedSamplesFromState_def)

lemma subscription_history_invariant:
  assumes "samples_enforced v" "atomic_object (subscription_state v)" "subscription_history v m M"
  shows "represents (rd (subscription_state v) m) M \<and> within_limits v M"
  using assms(3)
proof induction
  case (init m)
  then show ?case by (simp add: within_limits_def)
next
  case (subscribe m M e n w r w' m')
  from Subscribe_write [OF assms(2) subscribe.hyps(2,3)] subscription_step_invariant [OF assms(1)] subscribe.IH
  show ?case by fastforce
next
  case (unsubscribe m M n e w w' m')
  from subscription_step_invariant [OF assms(1) Unsubscribe_write [OF assms(2) unsubscribe.hyps(3,4,2)]] unsubscribe.IH
  show ?case by simp
qed simp

subsection \<open>When nobody interferes\<close>

lemma Subscribe_quiet:
  assumes "represents (rd (subscription_state v) (mem w)) M" "0 < subscribers_limit v"
  obtains w' where
    "Subscribe quiet v n w =
      (if unat (subscribers_limit v) \<le> size M then kMaxSubscribersOverflow
       else if samples_enforced v \<and> unat (slots_limit v) < sum_mset M + unat n then kSlotOverflow
       else kSuccess, w')"
    "mem w' =
      (if size M < unat (subscribers_limit v) \<and>
          (samples_enforced v \<longrightarrow> sum_mset M + unat n \<le> unat (slots_limit v))
       then wr (subscription_state v) (CreateState (GetSubscribersFromState (rd (subscription_state v) (mem w)) + 1)
              (GetSubscribedSamplesFromState (rd (subscription_state v) (mem w)) + n)) (mem w)
       else mem w)"
proof -
  from assms(2) obtain k where k: "2 * unat (subscribers_limit v) = Suc k"
    by (metis add_is_0 mult_2 not0_implies_Suc unat_gt_0 word_neq_0_conv less_irrefl)
  have parts: "unat (GetSubscribersFromState (rd (subscription_state v) (mem w))) = size M"
    "unat (GetSubscribedSamplesFromState (rd (subscription_state v) (mem w))) = sum_mset M"
    using assms(1) by (simp_all add: represents_def)
  show thesis
    by (rule that [of "snd (Subscribe quiet v n w)"])
      (auto simp: Subscribe_def k load_quiet Let_def compare_exchange_weak_def word_le_nat_alt parts not_le not_less)
qed

lemma Unsubscribe_quiet:
  assumes "represents (rd (subscription_state v) (mem w)) M" "unat n \<in># M" "0 < subscribers_limit v"
  obtains w' where "Unsubscribe quiet v n w = Some w'"
    "mem w' = wr (subscription_state v) (CreateState (GetSubscribersFromState (rd (subscription_state v) (mem w)) - 1)
              (GetSubscribedSamplesFromState (rd (subscription_state v) (mem w)) - n)) (mem w)"
proof -
  from assms(3) obtain k where k: "3 * unat (subscribers_limit v) = Suc k"
    by (metis mult_eq_0_iff not0_implies_Suc unat_gt_0 word_neq_0_conv less_irrefl zero_neq_numeral)
  show thesis
    by (rule that [of "the (Unsubscribe quiet v n w)"])
      (use represents_unsubscribe(1,2) [OF assms(1,2)] in
        \<open>auto simp: Unsubscribe_def k load_quiet Let_def compare_exchange_weak_def\<close>)
qed

subsection \<open>Properties\<close>

text \<open>A control whose word is the whole memory, for the witnesses: two subscribers, ten slots.\<close>

definition example_subscription :: "bool \<Rightarrow> u32 subscription_view" where
  "example_subscription enforce =
     \<lparr>subscription_state = Cell (\<lambda>m. m) (\<lambda>x _. x), slots_limit = 10, subscribers_limit = 2,
      samples_enforced = enforce\<rparr>"

lemma example_subscription_simps [simp]:
  "subscription_state (example_subscription b) = Cell (\<lambda>m. m) (\<lambda>x _. x)"
  "slots_limit (example_subscription b) = 10" "subscribers_limit (example_subscription b) = 2"
  "samples_enforced (example_subscription b) = b"
  by (simp_all add: example_subscription_def)

text \<open>
  C12. With enforced sample limits, after any history of \<open>Subscribe\<close> and
  \<open>Unsubscribe\<close> calls of any number of participants, however they interfere with each other,
  the word counts exactly the subscriptions that succeeded and were not given back and the slots they asked
  for, and neither limit is ever exceeded.
\<close>

theorem subscriptions_within_limits:
  assumes "samples_enforced v" "atomic_object (subscription_state v)" "subscription_history v m M"
  shows "unat (GetSubscribersFromState (rd (subscription_state v) m)) = size M \<and>
    unat (GetSubscribedSamplesFromState (rd (subscription_state v) m)) = sum_mset M \<and>
    size M \<le> unat (subscribers_limit v) \<and> sum_mset M \<le> unat (slots_limit v)"
  using subscription_history_invariant [OF assms] by (simp add: represents_def within_limits_def)

theorem subscriptions_within_limits_witness:
  "subscription_history (example_subscription True) (CreateState 1 7) {#7#} \<and>
   unat (GetSubscribersFromState (CreateState 1 7)) = size {#7::nat#} \<and>
   unat (GetSubscribedSamplesFromState (CreateState 1 7)) = sum_mset {#7::nat#}"
proof -
  have "Subscribe quiet (example_subscription True) 7 (start 0) =
      (kSuccess, snd (Subscribe quiet (example_subscription True) 7 (start 0)))"
    "(0, CreateState 1 7) \<in> writes_between (start 0) (snd (Subscribe quiet (example_subscription True) 7 (start 0)))"
    by code_simp+
  from subscription_history.subscribe [OF subscription_history.init this]
  have h: "subscription_history (example_subscription True) (CreateState 1 7) {#7#}" by simp
  have "atomic_object (subscription_state (example_subscription True))" by unfold_locales simp_all
  from subscriptions_within_limits [OF _ this h] h show ?thesis by simp
qed

text \<open>
  C13. Whatever the other participants do, a successful \<open>Subscribe\<close> performs exactly one write,
  which is an admissible change of the word at that instant; an unsuccessful one performs none.
  A returning \<open>Unsubscribe\<close> performs exactly the write that gives back its subscription.
\<close>

theorem subscription_calls_are_steps:
  assumes "Subscribe e v n w = (r, w1)" "Unsubscribe e v n w1 = Some w2"
  shows "(if r = kSuccess
     then \<exists>m s. own_steps w1 = own_steps w @ [(m, wr (subscription_state v) s m)] \<and>
       (\<forall>M. subscription_step v (rd (subscription_state v) m, M) (s, add_mset (unat n) M))
     else own_steps w1 = own_steps w) \<and>
    (\<exists>m s. own_steps w2 = own_steps w1 @ [(m, wr (subscription_state v) s m)] \<and>
       (\<forall>M. subscription_step v (rd (subscription_state v) m, add_mset (unat n) M) (s, M)))"
  using Subscribe_loop_step [OF assms(1) [unfolded Subscribe_def]]
    Unsubscribe_loop_step [OF assms(2) [unfolded Unsubscribe_def]]
  by (metis add_mset_remove_trivial union_single_eq_member)

theorem subscription_calls_are_steps_witness:
  "\<exists>w1 w2. Subscribe quiet (example_subscription True) 7 (start 0) = (kSuccess, w1) \<and>
    Unsubscribe quiet (example_subscription True) 7 w1 = Some w2 \<and>
    (\<exists>m s. own_steps w2 = own_steps w1 @ [(m, s)] \<and>
       (\<forall>M. subscription_step (example_subscription True) (m, add_mset 7 M) (s, M)))"
proof -
  obtain w1 where w1: "Subscribe quiet (example_subscription True) 7 (start 0) = (kSuccess, w1)"
      "mem w1 = CreateState 1 7"
    using Subscribe_quiet [of "example_subscription True" "start 0" "{#}" 7]
    by (auto simp: GetSubscribersFromState_def GetSubscribedSamplesFromState_def)
  obtain w2 where w2: "Unsubscribe quiet (example_subscription True) 7 w1 = Some w2"
    using Unsubscribe_quiet [of "example_subscription True" w1 "{#7#}" 7] w1(2)
    by (auto simp: represents_CreateState)
  from subscription_calls_are_steps [OF w1(1) w2] w1(1) w2 show ?thesis by auto
qed

text \<open>
  When nobody interferes, \<open>Subscribe\<close> answers according to the current subscriptions: too
  many subscribers, then too many slots, then success, in which case the new subscription is
  added to the ones the word stands for.
\<close>

lemma Subscribe_answers:
  assumes "atomic_object (subscription_state v)" "represents (rd (subscription_state v) (mem w)) M"
    and "samples_enforced v" "0 < subscribers_limit v"
  shows "\<exists>w'. if unat (subscribers_limit v) \<le> size M
    then Subscribe quiet v n w = (kMaxSubscribersOverflow, w') \<and> mem w' = mem w
    else if unat (slots_limit v) < sum_mset M + unat n
    then Subscribe quiet v n w = (kSlotOverflow, w') \<and> mem w' = mem w
    else Subscribe quiet v n w = (kSuccess, w') \<and>
      represents (rd (subscription_state v) (mem w')) (add_mset (unat n) M) \<and> within_limits v (add_mset (unat n) M)"
proof (rule Subscribe_quiet [OF assms(2,4), of n])
  fix w'
  assume "Subscribe quiet v n w =
      (if unat (subscribers_limit v) \<le> size M then kMaxSubscribersOverflow
       else if samples_enforced v \<and> unat (slots_limit v) < sum_mset M + unat n then kSlotOverflow
       else kSuccess, w')"
    "mem w' =
      (if size M < unat (subscribers_limit v) \<and>
          (samples_enforced v \<longrightarrow> sum_mset M + unat n \<le> unat (slots_limit v))
       then wr (subscription_state v) (CreateState (GetSubscribersFromState (rd (subscription_state v) (mem w)) + 1)
              (GetSubscribedSamplesFromState (rd (subscription_state v) (mem w)) + n)) (mem w)
       else mem w)"
  then show ?thesis
    using represents_subscribe [OF assms(2), of v n] assms(3) atomic_object.rd_wr [OF assms(1)]
    by (intro exI [of _ w']) (auto simp: not_le not_less)
qed


text \<open>
  Without enforced sample limits the 16-bit sum of the subscribed slots wraps around, and a
  later \<open>Unsubscribe\<close> of a subscription that was accepted terminates the process.
\<close>

lemma unenforced_sum_wraps:
  assumes "\<not> samples_enforced v" "2 \<le> subscribers_limit v" "atomic_object (subscription_state v)"
    and "rd (subscription_state v) (mem w) = CreateState 1 a" "0 < a" "2 ^ 16 \<le> unat a + unat b"
  shows "\<exists>w'. Subscribe quiet v b w = (kSuccess, w') \<and> Unsubscribe quiet v b w' = None"
proof -
  have limit: "2 \<le> unat (subscribers_limit v)" using assms(2) by (simp add: word_le_nat_alt)
  obtain w' where w': "Subscribe quiet v b w = (kSuccess, w')"
    "mem w' = wr (subscription_state v) (CreateState 2 (a + b)) (mem w)"
    using Subscribe_quiet [of v w "{#unat a#}" b] assms(1,4) limit
    by (auto simp: represents_CreateState word_less_nat_alt)
  have sum: "unat (a + b) = unat a + unat b - 2 ^ 16"
    using assms(6) u16_less [of a] u16_less [of b] by (simp add: unat_word_ariths mod_if)
  have less: "a + b < b"
    unfolding word_less_nat_alt sum using u16_less [of a] assms(6) by linarith
  obtain k where "3 * unat (subscribers_limit v) = Suc k" using limit by (cases "3 * unat (subscribers_limit v)") auto
  then have "Unsubscribe quiet v b w' = None"
    using less atomic_object.rd_wr [OF assms(3)] by (simp add: Unsubscribe_def load_quiet Let_def w'(2))
  with w'(1) show ?thesis by blast
qed


end
