(* ===== verification/Transaction_Log_Set.thy ===== *)
theory Transaction_Log_Set
  imports Event_Memory
begin

text \<open>
  \<^verbatim>\<open>transaction_log_set.h/.cpp\<close> and \<^verbatim>\<open>transaction_log_registration_guard.cpp\<close>: which
  proxy owns which transaction log. A log is owned by the application whose identifier is in
  the atomic id of its node; the identifier of a free node is \<open>kInvalidTransactionLogId\<close>.

  The set is reached through its nodes, a node through its two atomics and its log.
\<close>

record 'm node_view =
  node_id :: "('m, u32) cell"
  node_needs_rollback :: "('m, bool) cell"
  node_log :: "'m transaction_log_view"

record 'm log_set_view =
  proxy_nodes :: "nat \<Rightarrow> 'm node_view"
  proxy_nodes_size :: u8
  skeleton_node :: "'m node_view"

definition IsActive :: "'m environment \<Rightarrow> 'm node_view \<Rightarrow> 'm world \<Rightarrow> bool \<times> 'm world" where
  "IsActive e node w = (let (i, w) = load e (node_id node) w in (i \<noteq> kInvalidTransactionLogId, w))"

definition NeedsRollback :: "'m environment \<Rightarrow> 'm node_view \<Rightarrow> 'm world \<Rightarrow> bool \<times> 'm world" where
  "NeedsRollback e node w = load e (node_needs_rollback node) w"

definition TryAcquire :: "'m environment \<Rightarrow> 'm node_view \<Rightarrow> u32 \<Rightarrow> 'm world \<Rightarrow> (bool \<times> 'm world) option" where
  "TryAcquire e node log_id w = do {
     assert_prd (log_id \<noteq> kInvalidTransactionLogId);
     let (acquired, _, w) = compare_exchange_strong e (node_id node) kInvalidTransactionLogId log_id w;
     Some (acquired, w)
   }"

definition TryAcquireForRead ::
  "'m environment \<Rightarrow> 'm node_view \<Rightarrow> u32 \<Rightarrow> 'm world \<Rightarrow> (bool \<times> 'm world) option" where
  "TryAcquireForRead e node log_id w = do {
     assert_prd (log_id \<noteq> kInvalidTransactionLogId);
     let (i, w) = load e (node_id node) w;
     Some (i = log_id, w)
   }"

definition Release :: "'m environment \<Rightarrow> 'm node_view \<Rightarrow> 'm world \<Rightarrow> 'm world option" where
  "Release e node w = do {
     let (i, w) = load e (node_id node) w;
     assert_prd (i \<noteq> kInvalidTransactionLogId);
     Some (store e (node_id node) kInvalidTransactionLogId w)
   }"

definition MarkNeedsRollback :: "'m environment \<Rightarrow> 'm node_view \<Rightarrow> bool \<Rightarrow> 'm world \<Rightarrow> 'm world" where
  "MarkNeedsRollback e node b w = store e (node_needs_rollback node) b w"

definition GetTransactionLogId :: "'m environment \<Rightarrow> 'm node_view \<Rightarrow> 'm world \<Rightarrow> u32 \<times> 'm world" where
  "GetTransactionLogId e node w = load e (node_id node) w"

definition Reset :: "'m environment \<Rightarrow> 'm node_view \<Rightarrow> 'm world \<Rightarrow> 'm world option" where
  "Reset e node w = do {
     let (contains, w) = ContainsTransactions e (node_log node) w;
     assert_prd (\<not> contains);
     Release e node (store e (node_needs_rollback node) False w)
   }"

fun MarkTransactionLogsNeedRollback_loop ::
  "'m environment \<Rightarrow> 'm node_view list \<Rightarrow> u32 \<Rightarrow> 'm world \<Rightarrow> 'm world" where
  "MarkTransactionLogsNeedRollback_loop e [] log_id w = w"
| "MarkTransactionLogsNeedRollback_loop e (node # nodes) log_id w =
     (let (log_is_active, w) = IsActive e node w;
          (i, w) = GetTransactionLogId e node w in
      MarkTransactionLogsNeedRollback_loop e nodes log_id
        (if log_is_active \<and> i = log_id then MarkNeedsRollback e node True w else w))"

abbreviation nodes_of :: "'m log_set_view \<Rightarrow> 'm node_view list" where
  "nodes_of v \<equiv> map (proxy_nodes v) [0..<unat (proxy_nodes_size v)]"

definition MarkTransactionLogsNeedRollback :: "'m environment \<Rightarrow> 'm log_set_view \<Rightarrow> u32 \<Rightarrow> 'm world \<Rightarrow> 'm world" where
  "MarkTransactionLogsNeedRollback e v log_id w = MarkTransactionLogsNeedRollback_loop e (nodes_of v) log_id w"

fun FindTransactionLogNodesToBeRolledBack_loop ::
  "'m environment \<Rightarrow> 'm node_view list \<Rightarrow> u32 \<Rightarrow> 'm world \<Rightarrow> ('m node_view list \<times> 'm world) option" where
  "FindTransactionLogNodesToBeRolledBack_loop e [] log_id w = Some ([], w)"
| "FindTransactionLogNodesToBeRolledBack_loop e (node # nodes) log_id w = do {
     (acquired, w) \<leftarrow> TryAcquireForRead e node log_id w;
     let (needs, w) = (if acquired then NeedsRollback e node w else (False, w));
     (found, w) \<leftarrow> FindTransactionLogNodesToBeRolledBack_loop e nodes log_id w;
     Some (if needs then node # found else found, w)
   }"

definition FindTransactionLogNodesToBeRolledBack ::
  "'m environment \<Rightarrow> 'm log_set_view \<Rightarrow> u32 \<Rightarrow> 'm world \<Rightarrow> ('m node_view list \<times> 'm world) option" where
  "FindTransactionLogNodesToBeRolledBack e v log_id w =
     FindTransactionLogNodesToBeRolledBack_loop e (nodes_of v) log_id w"

fun RollbackProxyTransactions_loop ::
  "'m environment \<Rightarrow> 'm node_view list \<Rightarrow> 'm callback \<Rightarrow> 'm callback \<Rightarrow> unit result \<Rightarrow> 'm world \<Rightarrow>
   (unit result \<times> 'm world) option" where
  "RollbackProxyTransactions_loop e [] deref unsub rollback_result w = Some (rollback_result, w)"
| "RollbackProxyTransactions_loop e (node # nodes) deref unsub rollback_result w = do {
     (rollback_result, w) \<leftarrow> RollbackProxyElementLog e (node_log node) deref unsub w;
     case rollback_result of
       Inr _ \<Rightarrow> do { w \<leftarrow> Reset e node w; Some (Inr (), w) }
     | Inl _ \<Rightarrow> RollbackProxyTransactions_loop e nodes deref unsub rollback_result w
   }"

definition RollbackProxyTransactions ::
  "'m environment \<Rightarrow> 'm log_set_view \<Rightarrow> u32 \<Rightarrow> 'm callback \<Rightarrow> 'm callback \<Rightarrow> 'm world \<Rightarrow>
   (unit result \<times> 'm world) option" where
  "RollbackProxyTransactions e v log_id deref unsub w = do {
     (nodes, w) \<leftarrow> FindTransactionLogNodesToBeRolledBack e v log_id w;
     RollbackProxyTransactions_loop e nodes deref unsub (Inr ()) w
   }"

definition RollbackSkeletonTracingTransactions ::
  "'m environment \<Rightarrow> 'm log_set_view \<Rightarrow> 'm callback \<Rightarrow> 'm world \<Rightarrow> (unit result \<times> 'm world) option" where
  "RollbackSkeletonTracingTransactions e v deref w =
     (let (active, w) = IsActive e (skeleton_node v) w in
      if \<not> active then Some (Inr (), w)
      else do {
        (rollback_result, w) \<leftarrow> RollbackSkeletonTracingElementLog e (node_log (skeleton_node v)) deref w;
        case rollback_result of
          Inl err \<Rightarrow> Some (Inl err, w)
        | Inr _ \<Rightarrow> do { w \<leftarrow> Reset e (skeleton_node v) w; Some (Inr (), w) }
      })"

fun AcquireNextAvailableSlot_round ::
  "'m environment \<Rightarrow> (nat \<times> 'm node_view) list \<Rightarrow> u32 \<Rightarrow> 'm world \<Rightarrow> (nat option \<times> 'm world) option" where
  "AcquireNextAvailableSlot_round e [] log_id w = Some (None, w)"
| "AcquireNextAvailableSlot_round e ((i, node) # nodes) log_id w = do {
     (acquired, w) \<leftarrow> TryAcquire e node log_id w;
     if acquired then Some (Some i, MarkNeedsRollback e node False w)
     else AcquireNextAvailableSlot_round e nodes log_id w
   }"

fun AcquireNextAvailableSlot_loop ::
  "nat \<Rightarrow> 'm environment \<Rightarrow> 'm log_set_view \<Rightarrow> u32 \<Rightarrow> 'm world \<Rightarrow> (nat option \<times> 'm world) option" where
  "AcquireNextAvailableSlot_loop 0 e v log_id w = Some (None, w)"
| "AcquireNextAvailableSlot_loop (Suc retries) e v log_id w = do {
     (slot, w) \<leftarrow> AcquireNextAvailableSlot_round e (enumerate 0 (nodes_of v)) log_id w;
     case slot of
       Some i \<Rightarrow> Some (Some i, w)
     | None \<Rightarrow> AcquireNextAvailableSlot_loop retries e v log_id w
   }"

definition AcquireNextAvailableSlot ::
  "'m environment \<Rightarrow> 'm log_set_view \<Rightarrow> u32 \<Rightarrow> 'm world \<Rightarrow> (nat option \<times> 'm world) option" where
  "AcquireNextAvailableSlot e v log_id w =
     AcquireNextAvailableSlot_loop (unat (proxy_nodes_size v)) e v log_id w"

definition IsSkeletonElementTransactionLogIndex :: "u8 \<Rightarrow> bool" where
  "IsSkeletonElementTransactionLogIndex i \<longleftrightarrow> i = kSkeletonIndexSentinel"

definition GetTransactionLog ::
  "'m environment \<Rightarrow> 'm log_set_view \<Rightarrow> u8 \<Rightarrow> 'm world \<Rightarrow> ('m transaction_log_view \<times> 'm world) option" where
  "GetTransactionLog e v i w =
     (if IsSkeletonElementTransactionLogIndex i then do {
        let (active, w) = IsActive e (skeleton_node v) w;
        assert_prd active;
        Some (node_log (skeleton_node v), w)
      }
      else do {
        assert_prd (unat i < unat (proxy_nodes_size v));
        let (active, w) = IsActive e (proxy_nodes v (unat i)) w;
        assert_prd active;
        Some (node_log (proxy_nodes v (unat i)), w)
      })"

definition Unregister :: "'m environment \<Rightarrow> 'm log_set_view \<Rightarrow> u8 \<Rightarrow> 'm world \<Rightarrow> 'm world option" where
  "Unregister e v i w =
     (if IsSkeletonElementTransactionLogIndex i then Reset e (skeleton_node v) w
      else do {
        assert_prd (unat i < unat (proxy_nodes_size v));
        Reset e (proxy_nodes v (unat i)) w
      })"

text \<open>
  The registration guard puts the registered log into the consumer's view when it is created,
  and gives the log back and clears the view when it is destroyed.
\<close>

record transaction_log_registration_guard =
  transaction_log_index :: u8

definition TransactionLogRegistrationGuard ::
  "'m environment \<Rightarrow> 'm log_set_view \<Rightarrow> u8 \<Rightarrow> 'm consumer_view \<Rightarrow> 'm world \<Rightarrow>
   (transaction_log_registration_guard \<times> 'm consumer_view \<times> 'm world) option" where
  "TransactionLogRegistrationGuard e v i consumer w = do {
     (log, w) \<leftarrow> GetTransactionLog e v i w;
     Some (\<lparr>transaction_log_index = i\<rparr>, SetTransactionLogLocalView log consumer, w)
   }"

definition unregister_on_destruction ::
  "'m environment \<Rightarrow> 'm log_set_view \<Rightarrow> transaction_log_registration_guard \<Rightarrow> 'm consumer_view \<Rightarrow> 'm world \<Rightarrow>
   ('m consumer_view \<times> 'm world) option" where
  "unregister_on_destruction e v guard consumer w = do {
     w \<leftarrow> Unregister e v (transaction_log_index guard) w;
     Some (ClearTransactionLogLocalView consumer, w)
   }"

definition RegisterProxyElement ::
  "'m environment \<Rightarrow> 'm log_set_view \<Rightarrow> u32 \<Rightarrow> 'm consumer_view \<Rightarrow> 'm world \<Rightarrow>
   ((transaction_log_registration_guard \<times> 'm consumer_view) result \<times> 'm world) option" where
  "RegisterProxyElement e v log_id consumer w = do {
     (next_available_slot, w) \<leftarrow> AcquireNextAvailableSlot e v log_id w;
     case next_available_slot of
       None \<Rightarrow> Some (Inl kMaxSubscribersExceeded, w)
     | Some i \<Rightarrow> do {
         let (contains, w) = ContainsTransactions e (node_log (proxy_nodes v i)) w;
         assert_prd (\<not> contains);
         (guard, consumer, w) \<leftarrow> TransactionLogRegistrationGuard e v (of_nat i) consumer w;
         Some (Inr (guard, consumer), w)
       }
   }"

definition kDummyTransactionLogIdSkeleton :: u32 where
  "kDummyTransactionLogIdSkeleton = 1"

definition RegisterSkeletonTracingElement ::
  "'m environment \<Rightarrow> 'm log_set_view \<Rightarrow> 'm consumer_view \<Rightarrow> 'm world \<Rightarrow>
   (transaction_log_registration_guard \<times> 'm consumer_view \<times> 'm world) option" where
  "RegisterSkeletonTracingElement e v consumer w = do {
     let (active, w) = IsActive e (skeleton_node v) w;
     assert_prd (\<not> active);
     (acquired, w) \<leftarrow> TryAcquire e (skeleton_node v) kDummyTransactionLogIdSkeleton w;
     assert_prd acquired;
     TransactionLogRegistrationGuard e v kSkeletonIndexSentinel consumer w
   }"

text \<open>The set of one event in the event memory.\<close>

definition node_view_at :: "quality_type \<Rightarrow> log_position \<Rightarrow> nat \<Rightarrow> event_memory node_view" where
  "node_view_at q p n =
     \<lparr>node_id = id_cell q p, node_needs_rollback = needs_rollback_cell q p,
      node_log = TransactionLogLocalView q p n\<rparr>"

definition log_set_of :: "quality_type \<Rightarrow> u8 \<Rightarrow> nat \<Rightarrow> event_memory log_set_view" where
  "log_set_of q logs n =
     \<lparr>proxy_nodes = (\<lambda>k. node_view_at q (Proxy_Log k) n), proxy_nodes_size = logs,
      skeleton_node = node_view_at q Skeleton_Log n\<rparr>"

subsection \<open>Acquiring a log\<close>

text \<open>
  Under any interference: a log is acquired by one exchange that finds its node free, followed
  by clearing its rollback mark; a call that acquires none writes nothing.
\<close>

definition log_acquired :: "'m log_set_view \<Rightarrow> u32 \<Rightarrow> 'm world \<Rightarrow> nat option \<Rightarrow> 'm world \<Rightarrow> bool" where
  "log_acquired v log_id w slot w' \<longleftrightarrow>
     (case slot of
        None \<Rightarrow> own_steps w' = own_steps w
      | Some i \<Rightarrow> i < unat (proxy_nodes_size v) \<and>
          (\<exists>m1 m2. rd (node_id (proxy_nodes v i)) m1 = kInvalidTransactionLogId \<and>
             own_steps w' = own_steps w @
               [(m1, wr (node_id (proxy_nodes v i)) log_id m1),
                (m2, wr (node_needs_rollback (proxy_nodes v i)) False m2)]))"

lemma acquire_round_acquired:
  assumes "log_id \<noteq> kInvalidTransactionLogId"
    and "\<forall>(i, node) \<in> set nodes. i < unat (proxy_nodes_size v) \<and> node = proxy_nodes v i"
  shows "\<exists>slot w'. AcquireNextAvailableSlot_round e nodes log_id w = Some (slot, w') \<and> log_acquired v log_id w slot w'"
  using assms(2)
proof (induction nodes arbitrary: w)
  case Nil
  then show ?case by (simp add: log_acquired_def)
next
  case (Cons x nodes)
  obtain i where x: "x = (i, proxy_nodes v i)" "i < unat (proxy_nodes_size v)" using Cons.prems by (cases x) auto
  obtain ok f w1 where cas:
    "compare_exchange_strong e (node_id (proxy_nodes v i)) kInvalidTransactionLogId log_id w = (ok, f, w1)"
    by (metis prod_cases3)
  have attempt: "TryAcquire e (proxy_nodes v i) log_id w = Some (ok, w1)"
    using assms(1) cas by (simp add: TryAcquire_def)
  show ?case
  proof (cases ok)
    case True
    obtain m where "rd (node_id (proxy_nodes v i)) m = kInvalidTransactionLogId"
        "own_steps w1 = own_steps w @ [(m, wr (node_id (proxy_nodes v i)) log_id m)]"
      using compare_exchange_strong_success(2) [OF cas True] by auto
    then show ?thesis
      using True attempt x by (auto simp: log_acquired_def MarkNeedsRollback_def store_def)
  next
    case False
    have "own_steps w1 = own_steps w" by (rule compare_exchange_strong_failure(1) [OF cas False])
    with Cons.IH [of w1] Cons.prems attempt x False show ?thesis
      by (auto simp: log_acquired_def split: option.splits)
  qed
qed

lemma enumerate_nodes: "enumerate 0 (nodes_of v) = map (\<lambda>i. (i, proxy_nodes v i)) [0..<unat (proxy_nodes_size v)]"
  by (rule nth_equalityI) (simp_all add: nth_enumerate_eq)

lemma acquire_loop_acquired:
  assumes "log_id \<noteq> kInvalidTransactionLogId"
  shows "\<exists>slot w'. AcquireNextAvailableSlot_loop k e v log_id w = Some (slot, w') \<and> log_acquired v log_id w slot w'"
proof (induction k arbitrary: w)
  case 0
  then show ?case by (simp add: log_acquired_def)
next
  case (Suc k)
  obtain slot w1 where r: "AcquireNextAvailableSlot_round e (enumerate 0 (nodes_of v)) log_id w = Some (slot, w1)"
      "log_acquired v log_id w slot w1"
    using acquire_round_acquired [OF assms, of "enumerate 0 (nodes_of v)" v e w] by (auto simp: enumerate_nodes)
  show ?case
  proof (cases slot)
    case None
    with r Suc.IH [of w1] show ?thesis by (auto simp: log_acquired_def split: option.splits)
  qed (use r in auto)
qed

subsection \<open>When nobody interferes\<close>

definition first_free :: "'m log_set_view \<Rightarrow> 'm \<Rightarrow> nat option" where
  "first_free v m =
     find (\<lambda>i. rd (node_id (proxy_nodes v i)) m = kInvalidTransactionLogId) [0..<unat (proxy_nodes_size v)]"

definition to_roll_back :: "'m log_set_view \<Rightarrow> u32 \<Rightarrow> 'm \<Rightarrow> nat \<Rightarrow> bool" where
  "to_roll_back v log_id m i \<longleftrightarrow>
     rd (node_id (proxy_nodes v i)) m = log_id \<and> rd (node_needs_rollback (proxy_nodes v i)) m"

text \<open>An index of a log fits into its 8-bit type and is not the sentinel of the skeleton's log.\<close>

lemma small_index:
  assumes "i < unat (n :: u8)"
  shows "unat (of_nat i :: u8) = i" "(of_nat i :: u8) \<noteq> kSkeletonIndexSentinel"
proof -
  have "i < 255" using assms u8_less [of n] by simp
  then show "unat (of_nat i :: u8) = i" by (simp add: unat_of_nat)
  then show "(of_nat i :: u8) \<noteq> kSkeletonIndexSentinel"
    using \<open>i < 255\<close> by (auto simp: kSkeletonIndexSentinel_def unsigned_minus_1_eq_mask mask_eq_exp_minus_1)
qed

text \<open>The nodes of a set are distinct objects, and so are the atomics and the log of a node.\<close>

locale log_set_memory =
  fixes v :: "'m log_set_view"
  assumes ids: "atomic_span (\<lambda>k. node_id (proxy_nodes v k))"
    and needs: "atomic_span (\<lambda>k. node_needs_rollback (proxy_nodes v k))"
    and node_apart [simp]:
      "rd (node_id (proxy_nodes v i)) (wr (node_needs_rollback (proxy_nodes v j)) b m) = rd (node_id (proxy_nodes v i)) m"
      "rd (node_needs_rollback (proxy_nodes v i)) (wr (node_id (proxy_nodes v j)) x m) = rd (node_needs_rollback (proxy_nodes v i)) m"
      "rd (reference_count_slots (node_log (proxy_nodes v i)) s) (wr (node_id (proxy_nodes v j)) x m) =
         rd (reference_count_slots (node_log (proxy_nodes v i)) s) m"
      "rd (reference_count_slots (node_log (proxy_nodes v i)) s) (wr (node_needs_rollback (proxy_nodes v j)) b m) =
         rd (reference_count_slots (node_log (proxy_nodes v i)) s) m"
      "rd (subscribe_transactions (node_log (proxy_nodes v i))) (wr (node_id (proxy_nodes v j)) x m) =
         rd (subscribe_transactions (node_log (proxy_nodes v i))) m"
      "rd (subscribe_transactions (node_log (proxy_nodes v i))) (wr (node_needs_rollback (proxy_nodes v j)) b m) =
         rd (subscribe_transactions (node_log (proxy_nodes v i))) m"
begin

lemma node_updates [simp]:
  "rd (node_id (proxy_nodes v i)) (wr (node_id (proxy_nodes v j)) x m) = (if i = j then x else rd (node_id (proxy_nodes v i)) m)"
  "rd (node_needs_rollback (proxy_nodes v i)) (wr (node_needs_rollback (proxy_nodes v j)) b m) =
     (if i = j then b else rd (node_needs_rollback (proxy_nodes v i)) m)"
  using atomic_span.rd_wr_span [OF ids, of i j x m] atomic_span.rd_wr_span [OF needs, of i j b m] by auto

lemma acquire_round_quiet:
  assumes "log_id \<noteq> kInvalidTransactionLogId"
  shows "\<exists>w'. AcquireNextAvailableSlot_round quiet (map (\<lambda>i. (i, proxy_nodes v i)) is) log_id w =
      Some (find (\<lambda>i. rd (node_id (proxy_nodes v i)) (mem w) = kInvalidTransactionLogId) is, w') \<and>
    mem w' = (case find (\<lambda>i. rd (node_id (proxy_nodes v i)) (mem w) = kInvalidTransactionLogId) is of
        None \<Rightarrow> mem w
      | Some i \<Rightarrow> wr (node_needs_rollback (proxy_nodes v i)) False (wr (node_id (proxy_nodes v i)) log_id (mem w)))"
proof (induction "is" arbitrary: w)
  case (Cons i "is")
  then show ?case
    using Cons.IH [of "interfere quiet w"] assms
    by (auto simp: TryAcquire_def compare_exchange_strong_def Let_def MarkNeedsRollback_def store_def
        cong: option.case_cong)
qed simp

lemma acquire_loop_quiet:
  assumes "log_id \<noteq> kInvalidTransactionLogId"
  shows "\<exists>w'. AcquireNextAvailableSlot_loop (Suc k) quiet v log_id w =
      Some (find (\<lambda>i. rd (node_id (proxy_nodes v i)) (mem w) = kInvalidTransactionLogId) [0..<unat (proxy_nodes_size v)], w') \<and>
    mem w' = (case find (\<lambda>i. rd (node_id (proxy_nodes v i)) (mem w) = kInvalidTransactionLogId) [0..<unat (proxy_nodes_size v)] of
        None \<Rightarrow> mem w
      | Some i \<Rightarrow> wr (node_needs_rollback (proxy_nodes v i)) False (wr (node_id (proxy_nodes v i)) log_id (mem w)))"
    (is "\<exists>w'. _ = Some (?free w, w') \<and> _")
proof (induction k arbitrary: w)
  case 0
  from acquire_round_quiet [OF assms, of "[0..<unat (proxy_nodes_size v)]" w] show ?case
    by (auto simp: enumerate_nodes split: option.splits)
next
  case (Suc k)
  from acquire_round_quiet [OF assms, of "[0..<unat (proxy_nodes_size v)]" w] obtain w1 where
    w1: "AcquireNextAvailableSlot_round quiet (enumerate 0 (nodes_of v)) log_id w = Some (?free w, w1)"
      "mem w1 = (case ?free w of None \<Rightarrow> mem w
        | Some i \<Rightarrow> wr (node_needs_rollback (proxy_nodes v i)) False (wr (node_id (proxy_nodes v i)) log_id (mem w)))"
    by (auto simp: enumerate_nodes)
  show ?case
  proof (cases "?free w")
    case None
    with w1 Suc.IH [of w1] show ?thesis by (simp del: AcquireNextAvailableSlot_loop.simps(2)
          add: AcquireNextAvailableSlot_loop.simps(2) [of "Suc k"])
  next
    case (Some i)
    with w1 show ?thesis by simp
  qed
qed

lemma acquire_quiet:
  assumes "log_id \<noteq> kInvalidTransactionLogId"
  shows "\<exists>w'. AcquireNextAvailableSlot quiet v log_id w = Some (first_free v (mem w), w') \<and>
    mem w' = (case first_free v (mem w) of
        None \<Rightarrow> mem w
      | Some i \<Rightarrow> wr (node_needs_rollback (proxy_nodes v i)) False (wr (node_id (proxy_nodes v i)) log_id (mem w)))"
proof (cases "unat (proxy_nodes_size v)")
  case 0
  then show ?thesis by (simp add: AcquireNextAvailableSlot_def first_free_def)
next
  case (Suc k)
  from acquire_loop_quiet [OF assms, of k w] show ?thesis
    unfolding AcquireNextAvailableSlot_def first_free_def Suc .
qed

lemma RegisterProxyElement_quiet:
  assumes "log_id \<noteq> kInvalidTransactionLogId"
    and "\<And>i. rd (node_id (proxy_nodes v i)) (mem w) = kInvalidTransactionLogId \<Longrightarrow> log_empty (node_log (proxy_nodes v i)) (mem w)"
  shows "\<exists>w'. RegisterProxyElement quiet v log_id consumer w =
      Some (case first_free v (mem w) of
          None \<Rightarrow> Inl kMaxSubscribersExceeded
        | Some i \<Rightarrow> Inr (\<lparr>transaction_log_index = of_nat i\<rparr>, SetTransactionLogLocalView (node_log (proxy_nodes v i)) consumer), w') \<and>
    mem w' = (case first_free v (mem w) of
        None \<Rightarrow> mem w
      | Some i \<Rightarrow> wr (node_needs_rollback (proxy_nodes v i)) False (wr (node_id (proxy_nodes v i)) log_id (mem w)))"
proof -
  obtain w1 where w1: "AcquireNextAvailableSlot quiet v log_id w = Some (first_free v (mem w), w1)"
    "mem w1 = (case first_free v (mem w) of None \<Rightarrow> mem w
      | Some i \<Rightarrow> wr (node_needs_rollback (proxy_nodes v i)) False (wr (node_id (proxy_nodes v i)) log_id (mem w)))"
    using acquire_quiet [OF assms(1)] by blast
  show ?thesis
  proof (cases "first_free v (mem w)")
    case None
    with w1 show ?thesis by (simp add: RegisterProxyElement_def)
  next
    case (Some i)
    then have i: "i < unat (proxy_nodes_size v)" "rd (node_id (proxy_nodes v i)) (mem w) = kInvalidTransactionLogId"
      by (auto simp: first_free_def find_Some_iff)
    have index: "of_nat i \<noteq> kSkeletonIndexSentinel" "unat (of_nat i :: u8) = i"
      using small_index [OF i(1)] by auto
    have "log_empty (node_log (proxy_nodes v i)) (mem w1)"
      using assms(2) [OF i(2)] by (simp add: log_empty_def w1(2) Some)
    moreover obtain d where "ContainsTransactions quiet (node_log (proxy_nodes v i)) w1 =
        (\<not> log_empty (node_log (proxy_nodes v i)) (mem w1), w1\<lparr>tick := tick w1 + d\<rparr>)"
      using ContainsTransactions_quiet [of "node_log (proxy_nodes v i)" w1] by (auto simp: log_empty_def)
    ultimately have contains: "ContainsTransactions quiet (node_log (proxy_nodes v i)) w1 = (False, w1\<lparr>tick := tick w1 + d\<rparr>)"
      by simp
    show ?thesis
      using w1 Some i(1) index assms(1)
      by (simp add: RegisterProxyElement_def contains TransactionLogRegistrationGuard_def GetTransactionLog_def
          IsSkeletonElementTransactionLogIndex_def IsActive_def load_quiet Let_def)
  qed
qed

lemma Unregister_quiet:
  assumes "i < unat (proxy_nodes_size v)" "rd (node_id (proxy_nodes v i)) (mem w) \<noteq> kInvalidTransactionLogId"
    and "log_empty (node_log (proxy_nodes v i)) (mem w)"
  shows "\<exists>w'. Unregister quiet v (of_nat i) w = Some w' \<and>
    mem w' = wr (node_id (proxy_nodes v i)) kInvalidTransactionLogId (wr (node_needs_rollback (proxy_nodes v i)) False (mem w))"
proof -
  obtain d where "ContainsTransactions quiet (node_log (proxy_nodes v i)) w =
      (\<not> log_empty (node_log (proxy_nodes v i)) (mem w), w\<lparr>tick := tick w + d\<rparr>)"
    using ContainsTransactions_quiet [of "node_log (proxy_nodes v i)" w] by (auto simp: log_empty_def)
  with assms small_index [OF assms(1)] show ?thesis
    by (simp add: Unregister_def IsSkeletonElementTransactionLogIndex_def Reset_def Release_def load_quiet store_def Let_def)
qed

lemma registration_quiet:
  assumes "log_id \<noteq> kInvalidTransactionLogId"
    and "\<And>i. rd (node_id (proxy_nodes v i)) (mem w) = kInvalidTransactionLogId \<Longrightarrow> log_empty (node_log (proxy_nodes v i)) (mem w)"
    and "RegisterProxyElement quiet v log_id consumer w = Some (Inr (guard, consumer'), w')"
  shows "\<exists>w''. unregister_on_destruction quiet v guard consumer' w' = Some (ClearTransactionLogLocalView consumer, w'') \<and>
    (\<forall>k. rd (node_id (proxy_nodes v k)) (mem w'') = rd (node_id (proxy_nodes v k)) (mem w))"
proof -
  from RegisterProxyElement_quiet [OF assms(1,2), of consumer] assms(3) obtain i where
    free: "first_free v (mem w) = Some i" and guard: "guard = \<lparr>transaction_log_index = of_nat i\<rparr>"
    and consumer: "consumer' = SetTransactionLogLocalView (node_log (proxy_nodes v i)) consumer"
    and w': "mem w' = wr (node_needs_rollback (proxy_nodes v i)) False (wr (node_id (proxy_nodes v i)) log_id (mem w))"
    by (auto split: option.splits)
  have i: "i < unat (proxy_nodes_size v)" "rd (node_id (proxy_nodes v i)) (mem w) = kInvalidTransactionLogId"
    using free by (auto simp: first_free_def find_Some_iff)
  have "log_empty (node_log (proxy_nodes v i)) (mem w')"
    using assms(2) [OF i(2)] by (simp add: log_empty_def w')
  then obtain w'' where w'': "Unregister quiet v (of_nat i) w' = Some w''"
    "mem w'' = wr (node_id (proxy_nodes v i)) kInvalidTransactionLogId (wr (node_needs_rollback (proxy_nodes v i)) False (mem w'))"
    using Unregister_quiet [OF i(1), of w'] assms(1) by (auto simp: w')
  then show ?thesis
    using i(2) by (simp add: unregister_on_destruction_def guard consumer ClearTransactionLogLocalView_def
        SetTransactionLogLocalView_def w')
qed

lemma find_nodes_quiet:
  assumes "log_id \<noteq> kInvalidTransactionLogId"
  shows "\<exists>d. FindTransactionLogNodesToBeRolledBack_loop quiet (map (proxy_nodes v) is) log_id w =
    Some (map (proxy_nodes v) (filter (\<lambda>i. to_roll_back v log_id (mem w) i) is), w\<lparr>tick := tick w + d\<rparr>)"
proof (induction "is" arbitrary: w)
  case Nil
  show ?case by (auto intro: exI [of _ 0])
next
  case (Cons i "is")
  from Cons.IH [of "w\<lparr>tick := tick w + 1\<rparr>"] Cons.IH [of "w\<lparr>tick := tick w + 2\<rparr>"] show ?case
    using assms
    by (auto simp: TryAcquireForRead_def NeedsRollback_def load_quiet Let_def to_roll_back_def)
      (metis (no_types) add_Suc_right add_Suc)+
qed

text \<open>The nodes after the first one whose log is rolled back are not visited.\<close>

lemma RollbackProxyTransactions_first:
  assumes "log_id \<noteq> kInvalidTransactionLogId" "i < unat (proxy_nodes_size v)" "to_roll_back v log_id (mem w) i"
    and "\<And>k. k < i \<Longrightarrow> \<not> to_roll_back v log_id (mem w) k"
    and rolled: "\<And>w1. mem w1 = mem w \<Longrightarrow>
      \<exists>w2. RollbackProxyElementLog quiet (node_log (proxy_nodes v i)) deref unsub w1 = Some (Inr (), w2) \<and> mem w2 = m2"
    and m2: "log_empty (node_log (proxy_nodes v i)) m2" "rd (node_id (proxy_nodes v i)) m2 = log_id"
  shows "\<exists>w'. RollbackProxyTransactions quiet v log_id deref unsub w = Some (Inr (), w') \<and>
    mem w' = wr (node_id (proxy_nodes v i)) kInvalidTransactionLogId (wr (node_needs_rollback (proxy_nodes v i)) False m2)"
proof -
  have "filter (to_roll_back v log_id (mem w)) [0..<i] = []" using assms(4) by (simp add: filter_empty_conv)
  moreover have "[0..<unat (proxy_nodes_size v)] = [0..<i] @ i # [Suc i..<unat (proxy_nodes_size v)]"
    using assms(2) upt_add_eq_append [of 0 i "unat (proxy_nodes_size v) - i"] by (simp add: upt_conv_Cons)
  ultimately obtain rest where "filter (to_roll_back v log_id (mem w)) [0..<unat (proxy_nodes_size v)] = i # rest"
    using assms(3) by simp
  then obtain d where find: "FindTransactionLogNodesToBeRolledBack quiet v log_id w =
      Some (proxy_nodes v i # map (proxy_nodes v) rest, w\<lparr>tick := tick w + d\<rparr>)"
    using find_nodes_quiet [OF assms(1), of "[0..<unat (proxy_nodes_size v)]" w]
    by (auto simp: FindTransactionLogNodesToBeRolledBack_def)
  define w1 where "w1 = w\<lparr>tick := tick w + d\<rparr>"
  obtain w2 where w2: "RollbackProxyElementLog quiet (node_log (proxy_nodes v i)) deref unsub w1 = Some (Inr (), w2)"
      "mem w2 = m2"
    using rolled [of w1] by (auto simp: w1_def)
  obtain d3 where "ContainsTransactions quiet (node_log (proxy_nodes v i)) w2 =
      (\<not> log_empty (node_log (proxy_nodes v i)) (mem w2), w2\<lparr>tick := tick w2 + d3\<rparr>)"
    using ContainsTransactions_quiet [of "node_log (proxy_nodes v i)" w2] by (auto simp: log_empty_def)
  then have "\<exists>w'. Reset quiet (proxy_nodes v i) w2 = Some w' \<and>
      mem w' = wr (node_id (proxy_nodes v i)) kInvalidTransactionLogId (wr (node_needs_rollback (proxy_nodes v i)) False m2)"
    using assms(1) m2 by (simp add: Reset_def Release_def load_quiet store_def Let_def w2(2))
  with find w2(1) show ?thesis
    by (auto simp: RollbackProxyTransactions_def w1_def [symmetric])
qed

lemma RollbackProxyTransactions_quiet:
  assumes "log_id \<noteq> kInvalidTransactionLogId" "i < unat (proxy_nodes_size v)" "to_roll_back v log_id (mem w) i"
    and "\<And>k. k < i \<Longrightarrow> \<not> to_roll_back v log_id (mem w) k" "log_empty (node_log (proxy_nodes v i)) (mem w)"
  shows "\<exists>w'. RollbackProxyTransactions quiet v log_id deref unsub w = Some (Inr (), w') \<and>
    mem w' = wr (node_id (proxy_nodes v i)) kInvalidTransactionLogId (wr (node_needs_rollback (proxy_nodes v i)) False (mem w))"
proof (rule RollbackProxyTransactions_first [OF assms(1-4)])
  fix w1 :: "'m world"
  assume w1: "mem w1 = mem w"
  from RollbackProxyElementLog_empty [of "node_log (proxy_nodes v i)" w1 deref unsub] assms(5) show
    "\<exists>w2. RollbackProxyElementLog quiet (node_log (proxy_nodes v i)) deref unsub w1 = Some (Inr (), w2) \<and> mem w2 = mem w"
    by (auto simp: w1)
qed (use assms(3,5) in \<open>simp_all add: to_roll_back_def\<close>)

text \<open>A log that still holds a transaction cannot be given back.\<close>

lemma Unregister_nonempty:
  assumes "i < unat (proxy_nodes_size v)" "\<not> log_empty (node_log (proxy_nodes v i)) (mem w)"
  shows "Unregister quiet v (of_nat i) w = None"
proof -
  obtain d where "ContainsTransactions quiet (node_log (proxy_nodes v i)) w =
      (\<not> log_empty (node_log (proxy_nodes v i)) (mem w), w\<lparr>tick := tick w + d\<rparr>)"
    using ContainsTransactions_quiet [of "node_log (proxy_nodes v i)" w] by (auto simp: log_empty_def)
  with assms small_index [OF assms(1)] show ?thesis
    by (simp add: Unregister_def IsSkeletonElementTransactionLogIndex_def Reset_def)
qed

lemma mark_loop_quiet:
  assumes "distinct is"
  shows "rd (node_id (proxy_nodes v k)) (mem (MarkTransactionLogsNeedRollback_loop quiet (map (proxy_nodes v) is) log_id w)) =
      rd (node_id (proxy_nodes v k)) (mem w)"
    and "rd (node_needs_rollback (proxy_nodes v k)) (mem (MarkTransactionLogsNeedRollback_loop quiet (map (proxy_nodes v) is) log_id w)) =
      (rd (node_needs_rollback (proxy_nodes v k)) (mem w) \<or>
       k \<in> set is \<and> rd (node_id (proxy_nodes v k)) (mem w) = log_id \<and> log_id \<noteq> kInvalidTransactionLogId)"
  using assms
  by (induction "is" arbitrary: w)
    (auto simp: IsActive_def GetTransactionLogId_def load_quiet Let_def MarkNeedsRollback_def store_def)

end

interpretation log_set: log_set_memory "log_set_of q logs n" for q logs n
  by unfold_locales
    (simp_all add: log_set_of_def node_view_at_def TransactionLogLocalView_def memory_cells comp_def
      del: node_at.simps node_update.simps)

subsection \<open>Properties\<close>

text \<open>A new event with two logs and three slots, for the witnesses.\<close>

definition new_memory :: event_memory where
  "new_memory = (\<lambda>_. the (EventControl 3 2 True))"

lemma new_memory_simps [simp]:
  "rd (node_id (proxy_nodes (log_set_of q logs n) i)) new_memory = kInvalidTransactionLogId"
  "log_empty (node_log (proxy_nodes (log_set_of q logs n) i)) new_memory"
  by (simp_all add: new_memory_def log_set_of_def node_view_at_def memory_cells log_empty_def EventControl_def
      TransactionLogSet_def kSkeletonIndexSentinel_def TransactionLogNode_def TransactionLog_def
      TransactionLogLocalView_def)

lemma new_memory_first_free [simp]: "first_free (log_set_of q 2 n) new_memory = Some 0"
proof -
  have "[0..<unat (proxy_nodes_size (log_set_of q 2 n))] = [0, 1]" by (simp add: log_set_of_def upt_rec)
  then show ?thesis by (simp add: first_free_def)
qed

text \<open>
  C14. Whatever the other participants do, acquiring a transaction log returns, and a log that is
  acquired was free at the instant of the one exchange that made the caller its owner, so no
  two owners ever share a log. A call that acquires none writes nothing.
\<close>

theorem AcquireNextAvailableSlot_exclusive:
  assumes "log_id \<noteq> kInvalidTransactionLogId"
  shows "\<exists>slot w'. AcquireNextAvailableSlot e v log_id w = Some (slot, w') \<and> log_acquired v log_id w slot w'"
  using acquire_loop_acquired [OF assms] by (simp add: AcquireNextAvailableSlot_def)

theorem AcquireNextAvailableSlot_exclusive_witness:
  "\<exists>slot w'. AcquireNextAvailableSlot quiet (log_set_of kASIL_QM 2 3) 1000 (start new_memory) = Some (slot, w') \<and>
    log_acquired (log_set_of kASIL_QM 2 3) 1000 (start new_memory) slot w'"
  by (rule AcquireNextAvailableSlot_exclusive) (simp add: kInvalidTransactionLogId_def)

text \<open>
  When nobody interferes and free logs are empty, registering a proxy takes the first free
  log, makes the caller its owner, clears its rollback mark and puts it into the view of the
  consumer; without a free log it fails with \<open>kMaxSubscribersExceeded\<close> and changes nothing.
\<close>

lemma RegisterProxyElement_takes_first_free:
  assumes "log_id \<noteq> kInvalidTransactionLogId"
    and "\<And>i. rd (id_cell q (Proxy_Log i)) (mem w) = kInvalidTransactionLogId \<Longrightarrow>
      log_empty (TransactionLogLocalView q (Proxy_Log i) n) (mem w)"
  shows "\<exists>w'. RegisterProxyElement quiet (log_set_of q logs n) log_id consumer w =
      Some (case first_free (log_set_of q logs n) (mem w) of
          None \<Rightarrow> Inl kMaxSubscribersExceeded
        | Some i \<Rightarrow> Inr (\<lparr>transaction_log_index = of_nat i\<rparr>,
            SetTransactionLogLocalView (TransactionLogLocalView q (Proxy_Log i) n) consumer), w') \<and>
    mem w' = (case first_free (log_set_of q logs n) (mem w) of
        None \<Rightarrow> mem w
      | Some i \<Rightarrow> wr (needs_rollback_cell q (Proxy_Log i)) False (wr (id_cell q (Proxy_Log i)) log_id (mem w)))"
proof -
  have "proxy_nodes (log_set_of q logs n) i = node_view_at q (Proxy_Log i) n" for i by (simp add: log_set_of_def)
  then show ?thesis
    using log_set.RegisterProxyElement_quiet [OF assms(1), of q logs n w] assms(2)
    by (simp add: node_view_at_def cong: option.case_cong)
qed


text \<open>
  Registering a proxy and destroying its registration guard again gives every log back the
  owner it had before, and the consumer's view no log.
\<close>

lemma registration_round_trip:
  assumes "log_id \<noteq> kInvalidTransactionLogId"
    and "\<And>i. rd (id_cell q (Proxy_Log i)) (mem w) = kInvalidTransactionLogId \<Longrightarrow>
      log_empty (TransactionLogLocalView q (Proxy_Log i) n) (mem w)"
    and "RegisterProxyElement quiet (log_set_of q logs n) log_id consumer w = Some (Inr (guard, consumer'), w')"
  shows "\<exists>w''. unregister_on_destruction quiet (log_set_of q logs n) guard consumer' w' =
      Some (ClearTransactionLogLocalView consumer, w'') \<and>
    (\<forall>k. rd (id_cell q (Proxy_Log k)) (mem w'') = rd (id_cell q (Proxy_Log k)) (mem w))"
  using log_set.registration_quiet [OF assms(1) _ assms(3)] assms(2)
  by (simp add: log_set_of_def node_view_at_def)


text \<open>
  When nobody interferes, \<open>MarkTransactionLogsNeedRollback\<close> marks exactly the logs owned by
  the given identifier and changes no owner.
\<close>

lemma MarkTransactionLogsNeedRollback_marks:
  "rd (id_cell q (Proxy_Log k)) (mem (MarkTransactionLogsNeedRollback quiet (log_set_of q logs n) log_id w)) =
     rd (id_cell q (Proxy_Log k)) (mem w) \<and>
   rd (needs_rollback_cell q (Proxy_Log k)) (mem (MarkTransactionLogsNeedRollback quiet (log_set_of q logs n) log_id w)) =
     (rd (needs_rollback_cell q (Proxy_Log k)) (mem w) \<or>
      k < unat logs \<and> rd (id_cell q (Proxy_Log k)) (mem w) = log_id \<and> log_id \<noteq> kInvalidTransactionLogId)"
  using log_set.mark_loop_quiet [of "[0..<unat logs]" q logs n k log_id w]
  by (simp add: MarkTransactionLogsNeedRollback_def log_set_of_def node_view_at_def)

text \<open>
  One call of \<open>RollbackProxyTransactions\<close> does not roll back all logs of an identifier: of two
  logs that are owned by the identifier and marked, the call releases the first one and leaves
  the other owned and marked, even when nobody interferes and no transaction was open.
\<close>

lemma RollbackProxyTransactions_stops_after_first:
  assumes "log_id \<noteq> kInvalidTransactionLogId" "i < j" "j < unat logs"
    and "\<And>k. k < i \<Longrightarrow> \<not> to_roll_back (log_set_of q logs n) log_id (mem w) k"
    and "to_roll_back (log_set_of q logs n) log_id (mem w) i" "to_roll_back (log_set_of q logs n) log_id (mem w) j"
    and "log_empty (TransactionLogLocalView q (Proxy_Log i) n) (mem w)"
  shows "\<exists>w'. RollbackProxyTransactions quiet (log_set_of q logs n) log_id deref unsub w = Some (Inr (), w') \<and>
    rd (id_cell q (Proxy_Log i)) (mem w') = kInvalidTransactionLogId \<and>
    to_roll_back (log_set_of q logs n) log_id (mem w') j"
proof -
  have node: "node_log (proxy_nodes (log_set_of q logs n) k) = TransactionLogLocalView q (Proxy_Log k) n"
    "node_id (proxy_nodes (log_set_of q logs n) k) = id_cell q (Proxy_Log k)"
    "proxy_nodes_size (log_set_of q logs n) = logs" for k by (simp_all add: log_set_of_def node_view_at_def)
  obtain w' where "RollbackProxyTransactions quiet (log_set_of q logs n) log_id deref unsub w = Some (Inr (), w')"
    and m: "mem w' = wr (node_id (proxy_nodes (log_set_of q logs n) i)) kInvalidTransactionLogId
      (wr (node_needs_rollback (proxy_nodes (log_set_of q logs n) i)) False (mem w))"
    using log_set.RollbackProxyTransactions_quiet [OF assms(1) _ assms(5) assms(4)] assms(2,3,7) by (auto simp: node)
  moreover have "rd (node_id (proxy_nodes (log_set_of q logs n) i)) (mem w') = kInvalidTransactionLogId"
    by (simp add: m)
  moreover have "to_roll_back (log_set_of q logs n) log_id (mem w') j"
    using assms(2,6) by (simp add: m to_roll_back_def)
  ultimately show ?thesis by (auto simp: node)
qed

definition marked_memory :: event_memory where
  "marked_memory = (\<lambda>q. (new_memory q)\<lparr>event_transaction_log_set :=
     (event_transaction_log_set (new_memory q))\<lparr>proxy_transaction_logs :=
       (\<lambda>_. \<lparr>needs_rollback = True, transaction_log_id = 1000, node_transaction_log = TransactionLog 3\<rparr>)\<rparr>\<rparr>)"


end
