(* ===== verification/Pid_Mapping.thy ===== *)
theory Pid_Mapping
  imports Atomics
begin

text \<open>
  \<^verbatim>\<open>application_id_pid_mapping.h/.cpp\<close> and \<^verbatim>\<open>application_id_pid_mapping_entry.h/.cpp\<close>:
  the table in shared memory in which every consumer application leaves its process id, so that
  its successor after a crash learns the id of the process that died. An entry is claimed by
  an exchange on its 64-bit key, which holds the status and the application id.

  The status is a 16-bit number of which three values are used; any other value may be found
  in the shared memory.
\<close>

type_synonym pid_t = int
type_synonym mapping_entry_status = u16

definition kUnused :: mapping_entry_status where "kUnused = 0"
definition kUsed :: mapping_entry_status where "kUsed = 1"
definition kUpdating :: mapping_entry_status where "kUpdating = 2"

record 'm mapping_entry =
  key_application_id_status :: "('m, u64) cell"
  entry_pid :: "('m, pid_t) cell"

definition key_parts :: "u64 \<Rightarrow> mapping_entry_status \<times> u32" where
  "key_parts key = (ucast (ucast (drop_bit 32 key) :: u32), ucast (and key 0x00000000FFFFFFFF))"

definition GetStatusAndApplicationIdAtomic ::
  "'m environment \<Rightarrow> 'm mapping_entry \<Rightarrow> 'm world \<Rightarrow> (mapping_entry_status \<times> u32) \<times> 'm world" where
  "GetStatusAndApplicationIdAtomic e entry w =
     (let (key, w) = load e (key_application_id_status entry) w in (key_parts key, w))"

definition CreateKey :: "mapping_entry_status \<Rightarrow> u32 \<Rightarrow> u64" where
  "CreateKey status application_id = or (push_bit 32 (ucast status)) (ucast application_id)"

definition SetStatusAndApplicationIdAtomic ::
  "'m environment \<Rightarrow> 'm mapping_entry \<Rightarrow> mapping_entry_status \<Rightarrow> u32 \<Rightarrow> 'm world \<Rightarrow> 'm world" where
  "SetStatusAndApplicationIdAtomic e entry status application_id w =
     store e (key_application_id_status entry) (CreateKey status application_id) w"

fun TryUpdatePidForExistingId ::
  "'m environment \<Rightarrow> 'm mapping_entry list \<Rightarrow> u32 \<Rightarrow> pid_t \<Rightarrow> 'm world \<Rightarrow> pid_t option \<times> 'm world" where
  "TryUpdatePidForExistingId e [] application_id pid w = (None, w)"
| "TryUpdatePidForExistingId e (entry # entries) application_id pid w =
     (let ((entry_status, entry_id), w) = GetStatusAndApplicationIdAtomic e entry w in
      if entry_status = kUsed \<and> entry_id = application_id then
        (let (old_pid, w) = load e (entry_pid entry) w in
         (Some old_pid, store e (entry_pid entry) pid w))
      else if entry_status = kUpdating \<and> entry_id = application_id then
        (let w = store e (entry_pid entry) pid w in
         (Some pid, SetStatusAndApplicationIdAtomic e entry kUsed application_id w))
      else TryUpdatePidForExistingId e entries application_id pid w)"

definition kMaxRetries :: nat where
  "kMaxRetries = 50"

fun RegisterPid_round ::
  "'m environment \<Rightarrow> 'm mapping_entry list \<Rightarrow> u32 \<Rightarrow> pid_t \<Rightarrow> 'm world \<Rightarrow> pid_t option \<times> 'm world" where
  "RegisterPid_round e [] application_id pid w = (None, w)"
| "RegisterPid_round e (entry # entries) application_id pid w =
     (let ((entry_status, entry_id), w) = GetStatusAndApplicationIdAtomic e entry w in
      if entry_status = kUnused then
        (case compare_exchange_weak e (key_application_id_status entry) (CreateKey entry_status entry_id)
                (CreateKey kUpdating application_id) w of
           (True, _, w) \<Rightarrow>
             (let w = store e (entry_pid entry) pid w in
              (Some pid, SetStatusAndApplicationIdAtomic e entry kUsed application_id w))
         | (False, _, w) \<Rightarrow> RegisterPid_round e entries application_id pid w)
      else RegisterPid_round e entries application_id pid w)"

fun RegisterPid_loop ::
  "nat \<Rightarrow> 'm environment \<Rightarrow> 'm mapping_entry list \<Rightarrow> u32 \<Rightarrow> pid_t \<Rightarrow> 'm world \<Rightarrow> pid_t option \<times> 'm world" where
  "RegisterPid_loop 0 e entries application_id pid w = (None, w)"
| "RegisterPid_loop (Suc retries) e entries application_id pid w =
     (case RegisterPid_round e entries application_id pid w of
        (Some p, w) \<Rightarrow> (Some p, w)
      | (None, w) \<Rightarrow> RegisterPid_loop retries e entries application_id pid w)"

definition RegisterPid ::
  "'m environment \<Rightarrow> 'm mapping_entry list \<Rightarrow> u32 \<Rightarrow> pid_t \<Rightarrow> 'm world \<Rightarrow> pid_t option \<times> 'm world" where
  "RegisterPid e entries application_id pid w =
     (case TryUpdatePidForExistingId e entries application_id pid w of
        (Some p, w) \<Rightarrow> (Some p, w)
      | (None, w) \<Rightarrow> RegisterPid_loop kMaxRetries e entries application_id pid w)"

text \<open>The member function first checks that the array has entries at all.\<close>

definition ApplicationIdPidMapping_RegisterPid ::
  "'m environment \<Rightarrow> 'm mapping_entry list \<Rightarrow> u32 \<Rightarrow> pid_t \<Rightarrow> 'm world \<Rightarrow> (pid_t option \<times> 'm world) option" where
  "ApplicationIdPidMapping_RegisterPid e mapping_entries application_id pid w = do {
     assert_prd (mapping_entries \<noteq> []);
     Some (RegisterPid e mapping_entries application_id pid w)
   }"

subsection \<open>The packed key\<close>

lemma key_parts_CreateKey [simp]: "key_parts (CreateKey s i) = (s, i)"
proof -
  have mask: "(0x00000000FFFFFFFF :: u64) = mask 32" by (simp add: mask_eq_exp_minus_1)
  have "ucast (ucast (drop_bit 32 (CreateKey s i)) :: u32) = s"
    by (rule bit_word_eqI) (auto simp: CreateKey_def bit_simps dest: bit_imp_le_length)
  moreover have "ucast (and (CreateKey s i) 0x00000000FFFFFFFF) = i"
    by (rule bit_word_eqI) (auto simp: CreateKey_def mask bit_simps)
  ultimately show ?thesis by (simp add: key_parts_def)
qed

lemma status_distinct [simp]:
  "kUsed \<noteq> kUnused" "kUnused \<noteq> kUsed" "kUpdating \<noteq> kUnused" "kUnused \<noteq> kUpdating"
  "kUsed \<noteq> kUpdating" "kUpdating \<noteq> kUsed"
  by (simp_all add: kUnused_def kUsed_def kUpdating_def)

subsection \<open>What a table says\<close>

text \<open>
  An entry belongs to an application if its key carries the id together with a status in use.
  The process id a table holds for an application is the one of the first entry in use.
\<close>

definition entry_free :: "'m mapping_entry \<Rightarrow> 'm \<Rightarrow> bool" where
  "entry_free x m \<longleftrightarrow> fst (key_parts (rd (key_application_id_status x) m)) = kUnused"

definition entry_owned :: "u32 \<Rightarrow> 'm mapping_entry \<Rightarrow> 'm \<Rightarrow> bool" where
  "entry_owned i x m \<longleftrightarrow> key_parts (rd (key_application_id_status x) m) \<in> {(kUsed, i), (kUpdating, i)}"

fun registered_pid :: "'m mapping_entry list \<Rightarrow> 'm \<Rightarrow> u32 \<Rightarrow> pid_t option" where
  "registered_pid [] m i = None"
| "registered_pid (x # xs) m i =
     (if key_parts (rd (key_application_id_status x) m) = (kUsed, i) then Some (rd (entry_pid x) m)
      else registered_pid xs m i)"

text \<open>No two entries belong to the same application.\<close>

fun entries_unique :: "'m mapping_entry list \<Rightarrow> 'm \<Rightarrow> bool" where
  "entries_unique [] m \<longleftrightarrow> True"
| "entries_unique (x # xs) m \<longleftrightarrow>
     (\<forall>y \<in> set xs. \<forall>i. entry_owned i x m \<longrightarrow> \<not> entry_owned i y m) \<and> entries_unique xs m"

text \<open>
  A write of a registration either claims a free entry or completes an entry that already
  belongs to the application.
\<close>

definition registration_write :: "u32 \<Rightarrow> pid_t \<Rightarrow> 'm mapping_entry \<Rightarrow> 'm \<times> 'm \<Rightarrow> bool" where
  "registration_write i p x s \<longleftrightarrow> (case s of (m, m') \<Rightarrow>
     entry_free x m \<and> m' = wr (key_application_id_status x) (CreateKey kUpdating i) m \<or>
     entry_owned i x m \<and> (m' = wr (entry_pid x) p m \<or> m' = wr (key_application_id_status x) (CreateKey kUsed i) m))"

definition keeps_entries_of :: "u32 \<Rightarrow> 'm mapping_entry list \<Rightarrow> 'm environment \<Rightarrow> bool" where
  "keeps_entries_of i xs e \<longleftrightarrow>
     (\<forall>t m. \<forall>x \<in> set xs. entry_owned i x m \<longrightarrow>
        rd (key_application_id_status x) (others e t m) = rd (key_application_id_status x) m)"

text \<open>The entries of the table are distinct objects, and so are the two members of an entry.\<close>

locale pid_memory =
  fixes entry :: "nat \<Rightarrow> 'm mapping_entry"
  assumes keys: "atomic_span (\<lambda>k. key_application_id_status (entry k))"
    and pids: "atomic_span (\<lambda>k. entry_pid (entry k))"
    and members_apart [simp]:
      "rd (key_application_id_status (entry i)) (wr (entry_pid (entry j)) p m) = rd (key_application_id_status (entry i)) m"
      "rd (entry_pid (entry i)) (wr (key_application_id_status (entry j)) k m) = rd (entry_pid (entry i)) m"
begin

lemma entry_updates [simp]:
  "rd (key_application_id_status (entry i)) (wr (key_application_id_status (entry j)) k m) =
     (if i = j then k else rd (key_application_id_status (entry i)) m)"
  "rd (entry_pid (entry i)) (wr (entry_pid (entry j)) p m) = (if i = j then p else rd (entry_pid (entry i)) m)"
  using atomic_span.rd_wr_span [OF keys, of i j k m] atomic_span.rd_wr_span [OF pids, of i j p m] by auto

lemma owned_after_write [simp]:
  "entry_owned a (entry i) (wr (entry_pid (entry j)) p m) = entry_owned a (entry i) m"
  "entry_owned a (entry i) (wr (key_application_id_status (entry j)) (CreateKey s b) m) =
     (if i = j then a = b \<and> s \<in> {kUsed, kUpdating} else entry_owned a (entry i) m)"
  by (auto simp: entry_owned_def)

text \<open>A registration writes only to free entries and to entries of its own application.\<close>

definition writes_within :: "nat set \<Rightarrow> u32 \<Rightarrow> pid_t \<Rightarrow> 'm world \<Rightarrow> 'm world \<Rightarrow> bool" where
  "writes_within K a p w w' \<longleftrightarrow> (\<exists>ss. own_steps w' = own_steps w @ ss \<and>
     (\<forall>s \<in> set ss. \<exists>k \<in> K. registration_write a p (entry k) s))"

lemma writes_within_trans:
  "writes_within K a p w w' \<Longrightarrow> writes_within K a p w' w'' \<Longrightarrow> writes_within K a p w w''"
  by (force simp: writes_within_def)

lemma writes_within_mono: "writes_within K a p w w' \<Longrightarrow> K \<subseteq> K' \<Longrightarrow> writes_within K' a p w w'"
  by (auto simp: writes_within_def) blast

lemma writes_within_refl: "own_steps w' = own_steps w \<Longrightarrow> writes_within K a p w w'"
  by (simp add: writes_within_def)

lemma store_within:
  assumes "keeps_entries_of a (map entry ks) e" "k \<in> set ks" "entry_owned a (entry k) (mem w)"
  shows "writes_within (set ks) a p w (store e (entry_pid (entry k)) p w)"
    "entry_owned a (entry k) (mem (store e (entry_pid (entry k)) p w))"
    "writes_within (set ks) a p w (SetStatusAndApplicationIdAtomic e (entry k) kUsed a w)"
proof -
  have "entry_owned a (entry k) (others e (tick w) (mem w))"
    using assms by (auto simp: keeps_entries_of_def entry_owned_def)
  then show "writes_within (set ks) a p w (store e (entry_pid (entry k)) p w)"
    "entry_owned a (entry k) (mem (store e (entry_pid (entry k)) p w))"
    "writes_within (set ks) a p w (SetStatusAndApplicationIdAtomic e (entry k) kUsed a w)"
    using assms(2)
    by (auto simp: writes_within_def registration_write_def store_def SetStatusAndApplicationIdAtomic_def)
qed

lemma complete_within:
  assumes "keeps_entries_of a (map entry ks) e" "k \<in> set ks" "entry_owned a (entry k) (mem w)"
  shows "writes_within (set ks) a p w
    (SetStatusAndApplicationIdAtomic e (entry k) kUsed a (store e (entry_pid (entry k)) p w))"
  using store_within [OF assms, of p] store_within(3) [OF assms(1,2), of "store e (entry_pid (entry k)) p w" p]
  by (auto intro: writes_within_trans)

lemma keeps_after_load:
  assumes "keeps_entries_of a (map entry ks) e" "k \<in> set ks" "entry_owned a (entry k) (mem w)"
  shows "entry_owned a (entry k) (mem (snd (load e c w)))"
  using assms by (auto simp: keeps_entries_of_def entry_owned_def)

lemma update_within:
  assumes "keeps_entries_of a (map entry ks) e" "set js \<subseteq> set ks"
  shows "writes_within (set ks) a p w (snd (TryUpdatePidForExistingId e (map entry js) a p w))"
  using assms(2)
proof (induction js arbitrary: w)
  case Nil
  then show ?case by (simp add: writes_within_refl)
next
  case (Cons j js)
  let ?w = "snd (load e (key_application_id_status (entry j)) w)"
  have load: "writes_within (set ks) a p w ?w" by (simp add: writes_within_refl)
  let ?key = "key_parts (rd (key_application_id_status (entry j)) (mem ?w))"
  have j: "j \<in> set ks" using Cons.prems by simp
  consider "?key = (kUsed, a)" | "?key = (kUpdating, a)" | "?key \<notin> {(kUsed, a), (kUpdating, a)}" by auto
  then show ?case
  proof cases
    case 1
    then have "entry_owned a (entry j) (mem (snd (load e (entry_pid (entry j)) ?w)))"
      using keeps_after_load [OF assms(1) j, of ?w] by (simp add: entry_owned_def)
    from store_within(1) [OF assms(1) j this, of p] have
      "writes_within (set ks) a p ?w (store e (entry_pid (entry j)) p (snd (load e (entry_pid (entry j)) ?w)))"
      by (simp add: writes_within_def)
    with 1 writes_within_trans [OF load] show ?thesis
      by (simp add: GetStatusAndApplicationIdAtomic_def Let_def case_prod_beta)
  next
    case 2
    then have "entry_owned a (entry j) (mem ?w)" by (simp add: entry_owned_def)
    from complete_within [OF assms(1) j this] 2 writes_within_trans [OF load] show ?thesis
      by (simp add: GetStatusAndApplicationIdAtomic_def Let_def case_prod_beta)
  next
    case 3
    with Cons writes_within_trans [OF load] show ?thesis
      by (auto simp: GetStatusAndApplicationIdAtomic_def Let_def case_prod_beta prod_eq_iff)
  qed
qed

lemma round_within:
  assumes "keeps_entries_of a (map entry ks) e" "set js \<subseteq> set ks"
  shows "writes_within (set ks) a p w (snd (RegisterPid_round e (map entry js) a p w))"
  using assms(2)
proof (induction js arbitrary: w)
  case Nil
  then show ?case by (simp add: writes_within_refl)
next
  case (Cons j js)
  obtain key w1 where load: "load e (key_application_id_status (entry j)) w = (key, w1)" by fastforce
  then have w1: "writes_within (set ks) a p w w1"
    using load_simps(4) [of e "key_application_id_status (entry j)" w] by (simp add: writes_within_refl)
  obtain s i where parts: "key_parts key = (s, i)" by fastforce
  have rest: "writes_within (set ks) a p w (snd (RegisterPid_round e (map entry js) a p w'))"
    if "own_steps w' = own_steps w1" for w'
    using Cons writes_within_trans [OF w1] writes_within_trans [OF writes_within_refl [OF that]] by simp
  obtain ok f w2 where cas: "compare_exchange_weak e (key_application_id_status (entry j)) (CreateKey s i)
      (CreateKey kUpdating a) w1 = (ok, f, w2)" by (metis prod_cases3)
  show ?case
  proof (cases "s = kUnused \<and> ok")
    case True
    with compare_exchange_weak_success(2) [OF cas] obtain m where
      m: "rd (key_application_id_status (entry j)) m = CreateKey kUnused i"
        "mem w2 = wr (key_application_id_status (entry j)) (CreateKey kUpdating a) m"
        "own_steps w2 = own_steps w1 @ [(m, wr (key_application_id_status (entry j)) (CreateKey kUpdating a) m)]"
      by auto
    have j: "j \<in> set ks" using Cons.prems by simp
    have "writes_within (set ks) a p w1 w2" "entry_owned a (entry j) (mem w2)"
      using m j by (auto simp: writes_within_def registration_write_def entry_free_def intro!: bexI [of _ j])
    with complete_within [OF assms(1) j] w1 True load parts cas show ?thesis
      by (auto simp: GetStatusAndApplicationIdAtomic_def Let_def intro: writes_within_trans)
  next
    case False
    with compare_exchange_weak_failure [OF cas] load parts cas rest show ?thesis
      by (auto simp: GetStatusAndApplicationIdAtomic_def Let_def)
  qed
qed

lemma loop_within:
  assumes "keeps_entries_of a (map entry ks) e"
  shows "writes_within (set ks) a p w (snd (RegisterPid_loop n e (map entry ks) a p w))"
proof (induction n arbitrary: w)
  case 0
  then show ?case by (simp add: writes_within_refl)
next
  case (Suc n)
  from round_within [OF assms order_refl, of p w] show ?case
    by (cases "RegisterPid_round e (map entry ks) a p w")
      (auto split: option.splits intro: writes_within_trans [OF _ Suc.IH])
qed

lemma RegisterPid_within:
  assumes "keeps_entries_of a (map entry ks) e"
  shows "writes_within (set ks) a p w (snd (RegisterPid e (map entry ks) a p w))"
  using update_within [OF assms order_refl, of p w]
  by (cases "TryUpdatePidForExistingId e (map entry ks) a p w")
    (auto simp: RegisterPid_def split: option.splits intro: writes_within_trans [OF _ loop_within [OF assms]])

subsection \<open>Registration without interference\<close>

lemma entries_unique_iff:
  "distinct ks \<Longrightarrow> entries_unique (map entry ks) m \<longleftrightarrow>
     (\<forall>j \<in> set ks. \<forall>k \<in> set ks. j \<noteq> k \<longrightarrow> (\<forall>i. entry_owned i (entry j) m \<longrightarrow> \<not> entry_owned i (entry k) m))"
proof (induction ks)
  case (Cons l ks)
  then have l: "k \<noteq> l" if "k \<in> set ks" for k using that by auto
  show ?case
  proof
    assume "entries_unique (map entry (l # ks)) m"
    then have first: "\<And>k i. k \<in> set ks \<Longrightarrow> entry_owned i (entry l) m \<Longrightarrow> \<not> entry_owned i (entry k) m"
      and rest: "entries_unique (map entry ks) m" by auto
    from rest Cons have "\<And>j k i. j \<in> set ks \<Longrightarrow> k \<in> set ks \<Longrightarrow> j \<noteq> k \<Longrightarrow> entry_owned i (entry j) m \<Longrightarrow>
        \<not> entry_owned i (entry k) m" by simp
    with first show "\<forall>j \<in> set (l # ks). \<forall>k \<in> set (l # ks). j \<noteq> k \<longrightarrow>
        (\<forall>i. entry_owned i (entry j) m \<longrightarrow> \<not> entry_owned i (entry k) m)"
      by (intro ballI impI allI) (metis set_ConsD)
  qed (use Cons l in auto)
qed simp

text \<open>An entry that is given to an application which owns no other entry is found by its id.\<close>

lemma registered_after_write:
  assumes "distinct ks" "k \<in> set ks" "entry_owned a (entry k) m \<or> entry_free (entry k) m"
    "\<And>j. j \<in> set ks \<Longrightarrow> j \<noteq> k \<Longrightarrow> \<not> entry_owned a (entry j) m"
    "key_parts (rd (key_application_id_status (entry k)) m') = (kUsed, a)" "rd (entry_pid (entry k)) m' = p"
    "\<And>j. j \<noteq> k \<Longrightarrow> rd (key_application_id_status (entry j)) m' = rd (key_application_id_status (entry j)) m \<and>
       rd (entry_pid (entry j)) m' = rd (entry_pid (entry j)) m"
  shows "registered_pid (map entry ks) m' = (registered_pid (map entry ks) m)(a \<mapsto> p)"
proof
  fix i
  have other: "i \<noteq> a \<Longrightarrow> key_parts (rd (key_application_id_status (entry k)) m) \<noteq> (kUsed, i)"
    using assms(3) by (auto simp: entry_owned_def entry_free_def)
  show "registered_pid (map entry ks) m' i = ((registered_pid (map entry ks) m)(a \<mapsto> p)) i"
    using assms(1,2,4)
  proof (induction ks)
    case (Cons j ks)
    show ?case
    proof (cases "j = k")
      case True
      then have "k \<notin> set ks" using Cons.prems by simp
      then have "registered_pid (map entry ks) m' i = registered_pid (map entry ks) m i"
        by (induction ks) (simp_all add: assms(7))
      with True other assms(5,6) show ?thesis by simp
    next
      case False
      then have "key_parts (rd (key_application_id_status (entry j)) m) \<noteq> (kUsed, a)"
        using Cons.prems(3) [of j] by (simp add: entry_owned_def)
      moreover have "k \<in> set ks" "distinct ks" using False Cons.prems by auto
      moreover have "registered_pid (map entry ks) m' i = ((registered_pid (map entry ks) m)(a \<mapsto> p)) i"
        by (rule Cons.IH) (use calculation Cons.prems(3) in simp_all)
      ultimately show ?thesis using assms(7) [OF False] by (cases "i = a") simp_all
    qed
  qed simp
qed

lemma unique_after_write:
  assumes "distinct ks" "k \<in> set ks" "entries_unique (map entry ks) m"
    "\<And>j. j \<in> set ks \<Longrightarrow> j \<noteq> k \<Longrightarrow> \<not> entry_owned a (entry j) m"
    "key_parts (rd (key_application_id_status (entry k)) m') = (kUsed, a)"
    "\<And>j. j \<noteq> k \<Longrightarrow> rd (key_application_id_status (entry j)) m' = rd (key_application_id_status (entry j)) m"
  shows "entries_unique (map entry ks) m'"
proof -
  have owned: "entry_owned i (entry j) m' \<longleftrightarrow> (if j = k then i = a else entry_owned i (entry j) m)" for i j
    using assms(5) assms(6) [of j] by (auto simp: entry_owned_def)
  have before: "\<not> entry_owned i (entry l) m" if "j \<in> set ks" "l \<in> set ks" "j \<noteq> l" "entry_owned i (entry j) m" for i j l
    using assms(3) that unfolding entries_unique_iff [OF assms(1)] by blast
  show ?thesis
    unfolding entries_unique_iff [OF assms(1)]
  proof (intro ballI impI allI)
    fix j l i
    assume "j \<in> set ks" "l \<in> set ks" "j \<noteq> l" "entry_owned i (entry j) m'"
    then show "\<not> entry_owned i (entry l) m'"
      using before [of j l i] assms(4) [of j] assms(4) [of l] by (cases "j = k"; cases "l = k") (auto simp: owned)
  qed
qed

lemma update_quiet:
  "\<exists>w'. TryUpdatePidForExistingId quiet (map entry ks) a p w =
     (case find (\<lambda>k. entry_owned a (entry k) (mem w)) ks of
        None \<Rightarrow> None
      | Some k \<Rightarrow> Some (if fst (key_parts (rd (key_application_id_status (entry k)) (mem w))) = kUsed
                       then rd (entry_pid (entry k)) (mem w) else p), w') \<and>
   mem w' = (case find (\<lambda>k. entry_owned a (entry k) (mem w)) ks of
        None \<Rightarrow> mem w
      | Some k \<Rightarrow> (if fst (key_parts (rd (key_application_id_status (entry k)) (mem w))) = kUsed
                  then wr (entry_pid (entry k)) p (mem w)
                  else wr (key_application_id_status (entry k)) (CreateKey kUsed a) (wr (entry_pid (entry k)) p (mem w))))"
proof (induction ks arbitrary: w)
  case (Cons k ks)
  obtain s i where "key_parts (rd (key_application_id_status (entry k)) (mem w)) = (s, i)" by fastforce
  with Cons.IH [of "interfere quiet w"] show ?case
    by (auto simp: GetStatusAndApplicationIdAtomic_def load_def store_def SetStatusAndApplicationIdAtomic_def
        entry_owned_def Let_def cong: option.case_cong if_cong)
qed simp

abbreviation keys_complete :: "nat list \<Rightarrow> 'm \<Rightarrow> bool" where
  "keys_complete ks m \<equiv> \<forall>k \<in> set ks. entry_free (entry k) m \<longrightarrow>
     rd (key_application_id_status (entry k)) m \<in> range (CreateKey kUnused)"

lemma round_quiet:
  assumes "keys_complete ks (mem w)"
  shows "\<exists>w'. RegisterPid_round quiet (map entry ks) a p w =
     (map_option (\<lambda>_. p) (find (\<lambda>k. entry_free (entry k) (mem w)) ks), w') \<and>
   mem w' = (case find (\<lambda>k. entry_free (entry k) (mem w)) ks of
        None \<Rightarrow> mem w
      | Some k \<Rightarrow> wr (key_application_id_status (entry k)) (CreateKey kUsed a) (wr (entry_pid (entry k)) p
                   (wr (key_application_id_status (entry k)) (CreateKey kUpdating a) (mem w))))"
  using assms
proof (induction ks arbitrary: w)
  case (Cons k ks)
  show ?case
  proof (cases "entry_free (entry k) (mem w)")
    case True
    then obtain i where "rd (key_application_id_status (entry k)) (mem w) = CreateKey kUnused i"
      using Cons.prems by auto
    with True show ?thesis
      by (simp add: GetStatusAndApplicationIdAtomic_def load_def compare_exchange_weak_def store_def
          SetStatusAndApplicationIdAtomic_def Let_def)
  next
    case False
    with Cons.IH [of "interfere quiet w"] Cons.prems show ?thesis
      by (simp add: GetStatusAndApplicationIdAtomic_def load_def entry_free_def Let_def case_prod_beta cong: option.case_cong)
  qed
qed simp

lemma loop_quiet:
  assumes "keys_complete ks (mem w)"
  shows "\<exists>w'. RegisterPid_loop (Suc n) quiet (map entry ks) a p w =
     (map_option (\<lambda>_. p) (find (\<lambda>k. entry_free (entry k) (mem w)) ks), w') \<and>
   mem w' = (case find (\<lambda>k. entry_free (entry k) (mem w)) ks of
        None \<Rightarrow> mem w
      | Some k \<Rightarrow> wr (key_application_id_status (entry k)) (CreateKey kUsed a) (wr (entry_pid (entry k)) p
                   (wr (key_application_id_status (entry k)) (CreateKey kUpdating a) (mem w))))"
  using assms
proof (induction n arbitrary: w)
  case 0
  with round_quiet [OF 0, of a p] show ?case by (auto split: option.splits)
next
  case (Suc n)
  from round_quiet [OF Suc.prems, of a p] obtain w1 where
    w1: "RegisterPid_round quiet (map entry ks) a p w =
        (map_option (\<lambda>_. p) (find (\<lambda>k. entry_free (entry k) (mem w)) ks), w1)"
      "mem w1 = (case find (\<lambda>k. entry_free (entry k) (mem w)) ks of None \<Rightarrow> mem w
        | Some k \<Rightarrow> wr (key_application_id_status (entry k)) (CreateKey kUsed a) (wr (entry_pid (entry k)) p
            (wr (key_application_id_status (entry k)) (CreateKey kUpdating a) (mem w))))" by blast
  show ?case
  proof (cases "find (\<lambda>k. entry_free (entry k) (mem w)) ks")
    case None
    with w1 Suc.prems Suc.IH [of w1] show ?thesis
      by (simp del: RegisterPid_loop.simps(2) add: RegisterPid_loop.simps(2) [of "Suc n"])
  qed (use w1 in simp)
qed

lemma unique_owner:
  assumes "distinct ks" "entries_unique (map entry ks) m" "find (\<lambda>k. entry_owned a (entry k) m) ks = Some k"
  shows "k \<in> set ks" "entry_owned a (entry k) m" "\<And>j. j \<in> set ks \<Longrightarrow> j \<noteq> k \<Longrightarrow> \<not> entry_owned a (entry j) m"
proof -
  show k: "k \<in> set ks" "entry_owned a (entry k) m" using assms(3) by (auto simp: find_Some_iff)
  show "\<not> entry_owned a (entry j) m" if "j \<in> set ks" "j \<noteq> k" for j
    using assms(2) k that unfolding entries_unique_iff [OF assms(1)] by blast
qed

lemma registered_pid_none:
  "\<forall>j \<in> set ks. \<not> entry_owned a (entry j) m \<Longrightarrow> registered_pid (map entry ks) m a = None"
  by (induction ks) (auto simp: entry_owned_def)

lemma registered_pid_owner:
  assumes "distinct ks" "k \<in> set ks" "\<forall>j \<in> set ks. j \<noteq> k \<longrightarrow> \<not> entry_owned a (entry j) m"
  shows "registered_pid (map entry ks) m a =
    (if key_parts (rd (key_application_id_status (entry k)) m) = (kUsed, a) then Some (rd (entry_pid (entry k)) m) else None)"
  using assms
proof (induction ks)
  case (Cons j ks)
  show ?case
  proof (cases "j = k")
    case True
    then have "\<forall>l \<in> set ks. \<not> entry_owned a (entry l) m" using Cons.prems(1,3) by auto
    with True show ?thesis by (simp add: registered_pid_none)
  next
    case False
    then have "\<not> entry_owned a (entry j) m" using Cons.prems(3) by simp
    then have "registered_pid (map entry (j # ks)) m a = registered_pid (map entry ks) m a"
      by (simp add: entry_owned_def)
    also have "\<dots> = (if key_parts (rd (key_application_id_status (entry k)) m) = (kUsed, a)
        then Some (rd (entry_pid (entry k)) m) else None)"
      by (rule Cons.IH) (use False Cons.prems in auto)
    finally show ?thesis .
  qed
qed simp

text \<open>Without interference a registration updates the table at its application id.\<close>

lemma RegisterPid_quiet:
  assumes ks: "distinct ks" and unique: "entries_unique (map entry ks) (mem w)" and complete: "keys_complete ks (mem w)"
    and r: "RegisterPid quiet (map entry ks) a p w = (r, w')"
  shows "r = (case registered_pid (map entry ks) (mem w) a of
       Some old \<Rightarrow> Some old
     | None \<Rightarrow> if \<exists>k \<in> set ks. entry_owned a (entry k) (mem w) \<or> entry_free (entry k) (mem w) then Some p else None) \<and>
    (if r = None then mem w' = mem w
     else registered_pid (map entry ks) (mem w') = (registered_pid (map entry ks) (mem w))(a \<mapsto> p) \<and>
       entries_unique (map entry ks) (mem w'))"
proof (cases "find (\<lambda>k. entry_owned a (entry k) (mem w)) ks")
  case (Some k)
  note k = unique_owner [OF ks unique Some]
  let ?used = "fst (key_parts (rd (key_application_id_status (entry k)) (mem w))) = kUsed"
  from update_quiet [of ks a p w] r Some have
    w': "r = Some (if ?used then rd (entry_pid (entry k)) (mem w) else p)"
      "mem w' = (if ?used then wr (entry_pid (entry k)) p (mem w)
        else wr (key_application_id_status (entry k)) (CreateKey kUsed a) (wr (entry_pid (entry k)) p (mem w)))"
    by (auto simp: RegisterPid_def)
  have key: "key_parts (rd (key_application_id_status (entry k)) (mem w')) = (kUsed, a)"
    using k(2) w'(2) by (auto simp: entry_owned_def)
  have "registered_pid (map entry ks) (mem w') = (registered_pid (map entry ks) (mem w))(a \<mapsto> p)"
    by (rule registered_after_write [OF ks k(1)]) (use k w' key in auto)
  moreover have "entries_unique (map entry ks) (mem w')"
    by (rule unique_after_write [OF ks k(1) unique _ key]) (use k w' in auto)
  moreover have "registered_pid (map entry ks) (mem w) a = (if ?used then Some (rd (entry_pid (entry k)) (mem w)) else None)"
    using registered_pid_owner [OF ks k(1), of a "mem w"] k by (auto simp: entry_owned_def)
  ultimately show ?thesis using k w'(1) by auto
next
  case None
  then have none: "\<forall>k \<in> set ks. \<not> entry_owned a (entry k) (mem w)" by (simp add: find_None_iff)
  from update_quiet [of ks a p w] None obtain w1 where
    w1: "TryUpdatePidForExistingId quiet (map entry ks) a p w = (None, w1)" "mem w1 = mem w" by auto
  have loop: "RegisterPid_loop (Suc 49) quiet (map entry ks) a p w1 = (r, w')"
    using r w1 by (simp add: RegisterPid_def kMaxRetries_def del: RegisterPid_loop.simps)
  show ?thesis
  proof (cases "find (\<lambda>k. entry_free (entry k) (mem w)) ks")
    case None
    then have "\<forall>k \<in> set ks. \<not> entry_free (entry k) (mem w)" by (simp add: find_None_iff)
    with loop_quiet [of ks w1 49 a p] complete w1 None loop none show ?thesis
      by (simp add: registered_pid_none del: RegisterPid_loop.simps)
  next
    case (Some k)
    then have k: "k \<in> set ks" "entry_free (entry k) (mem w)" by (auto simp: find_Some_iff)
    from loop_quiet [of ks w1 49 a p] complete w1 Some loop have
      w': "r = Some p" "mem w' = wr (key_application_id_status (entry k)) (CreateKey kUsed a) (wr (entry_pid (entry k)) p
          (wr (key_application_id_status (entry k)) (CreateKey kUpdating a) (mem w)))"
      by (simp_all del: RegisterPid_loop.simps)
    have "registered_pid (map entry ks) (mem w') = (registered_pid (map entry ks) (mem w))(a \<mapsto> p)"
      by (rule registered_after_write [OF ks k(1)]) (use k none in \<open>simp_all add: w'\<close>)
    moreover have "entries_unique (map entry ks) (mem w')"
      by (rule unique_after_write [OF ks k(1) unique, of a]) (use none in \<open>simp_all add: w'\<close>)
    moreover have "registered_pid (map entry ks) (mem w) a = None" by (rule registered_pid_none [OF none])
    ultimately show ?thesis using k w'(1) by auto
  qed
qed

end

subsection \<open>The table in shared memory\<close>

type_synonym pid_mapping = "nat \<Rightarrow> u64 \<times> pid_t"

definition mapping_entry_at :: "nat \<Rightarrow> pid_mapping mapping_entry" where
  "mapping_entry_at k =
     \<lparr>key_application_id_status = Cell (\<lambda>m. fst (m k)) (\<lambda>x m. m(k := (x, snd (m k)))),
      entry_pid = Cell (\<lambda>m. snd (m k)) (\<lambda>x m. m(k := (fst (m k), x)))\<rparr>"

definition ApplicationIdPidMapping :: "u16 \<Rightarrow> pid_mapping mapping_entry list" where
  "ApplicationIdPidMapping max_mappings = map mapping_entry_at [0..<unat max_mappings]"

definition new_pid_mapping :: pid_mapping where
  "new_pid_mapping = (\<lambda>_. (0, 0))"

interpretation pid_table: pid_memory mapping_entry_at
  by unfold_locales (simp_all add: mapping_entry_at_def)

text \<open>
  Whatever the other participants do, as long as they leave the entries of this
  application alone, every write of a registration claims a free entry or completes an entry
  of the same application: the entries of other applications are never written.
\<close>

lemma RegisterPid_writes_own_entries:
  assumes "keeps_entries_of a (ApplicationIdPidMapping n) e"
    and "RegisterPid e (ApplicationIdPidMapping n) a p (start m) = (r, w)"
    and "(before, after) \<in> set (own_steps w)"
  shows "\<exists>k < unat n. registration_write a p (mapping_entry_at k) (before, after)"
  using pid_table.RegisterPid_within [of a "[0..<unat n]" e p "start m"] assms
  by (auto simp: ApplicationIdPidMapping_def pid_table.writes_within_def Bex_def)


text \<open>
  Without interference a registration refines the update of a finite map from application
  ids to process ids: it returns the process id left by the predecessor if there is one and
  the caller's own otherwise, the map is updated at this id only, and no application ever gets
  a second entry. It fails, leaving the table as it is, exactly if the id is unknown and no
  entry is free.
\<close>

lemma RegisterPid_refines_map_update:
  assumes "entries_unique (ApplicationIdPidMapping n) m"
    and "\<forall>k < unat n. entry_free (mapping_entry_at k) m \<longrightarrow> fst (m k) \<in> range (CreateKey kUnused)"
    and "RegisterPid quiet (ApplicationIdPidMapping n) a p (start m) = (r, w)"
  shows "r = (case registered_pid (ApplicationIdPidMapping n) m a of
       Some old \<Rightarrow> Some old
     | None \<Rightarrow> if \<exists>k < unat n. entry_owned a (mapping_entry_at k) m \<or> entry_free (mapping_entry_at k) m then Some p else None)
   \<and> (if r = None then mem w = m
      else registered_pid (ApplicationIdPidMapping n) (mem w) = (registered_pid (ApplicationIdPidMapping n) m)(a \<mapsto> p) \<and>
        entries_unique (ApplicationIdPidMapping n) (mem w))"
proof -
  have "rd (key_application_id_status (mapping_entry_at k)) m = fst (m k)" for k
    by (simp add: mapping_entry_at_def)
  with assms pid_table.RegisterPid_quiet [of "[0..<unat n]" "start m" a p r w] show ?thesis
    by (auto simp: ApplicationIdPidMapping_def Bex_def)
qed


end
