(* ===== verification/Rollback_Executor.thy ===== *)
theory Rollback_Executor
  imports Service_Identifiers Event_Data_Path Subscription_Control Transaction_Log_Set Pid_Mapping
begin

text \<open>
  \<^verbatim>\<open>transaction_log_rollback_executor.cpp\<close>, \<^verbatim>\<open>rollback_synchronization.cpp\<close>,
  \<^verbatim>\<open>consumer_event_control_local_view.cpp\<close> and
  \<^verbatim>\<open>proxy_service_data_control_local_view.h\<close>: what a proxy does when it is created,
  before it uses the service. The first proxy of the process registers its process id, tells
  the provider about a predecessor that died, and marks the logs that predecessor left; every
  proxy then rolls back marked logs of each service element. A mutex per service instance
  makes the proxies of one process take turns, so one call is a run of its own.
\<close>

record 'm consumer_event_control =
  ec_data_control :: "'m consumer_view"
  ec_subscription_control :: "'m subscription_view"
  ec_transaction_log_set :: "'m log_set_view"

text \<open>The view of a control reads the sizes of its arrays, which never change.\<close>

definition subscription_view_of :: "quality_type \<Rightarrow> event_subscription_control \<Rightarrow> event_memory subscription_view" where
  "subscription_view_of q c = \<lparr>subscription_state = subscription_cell q, slots_limit = max_subscribable_slots c,
     subscribers_limit = max_subscribers c, samples_enforced = enforce_max_samples c\<rparr>"

definition ConsumerEventControlLocalView :: "quality_type \<Rightarrow> event_control \<Rightarrow> event_memory consumer_event_control" where
  "ConsumerEventControlLocalView q c =
     \<lparr>ec_data_control = ConsumerEventDataControlLocalView q (control_slots_size (data_control c)),
      ec_subscription_control = subscription_view_of q (subscription_control c),
      ec_transaction_log_set = log_set_of q (number_of_logs (event_transaction_log_set c))
        (unat (control_slots_size (data_control c)))\<rparr>"

text \<open>
  The map from elements to controls is kept in the order of \<^verbatim>\<open>operator<\<close>. Adding an
  element that is already there changes nothing and reports so.
\<close>

type_synonym 'm element_map = "(element_fq_id \<times> 'm consumer_event_control) list"

fun map_emplace :: "element_fq_id \<Rightarrow> 'm consumer_event_control \<Rightarrow> 'm element_map \<Rightarrow> bool \<times> 'm element_map" where
  "map_emplace k x [] = (True, [(k, x)])"
| "map_emplace k x ((j, y) # m) =
     (if ElementFqId_less k j then (True, (k, x) # (j, y) # m)
      else if ElementFqId_less j k then (let (inserted, m) = map_emplace k x m in (inserted, (j, y) # m))
      else (False, (j, y) # m))"

record 'm proxy_service_data_control =
  sdc_event_controls :: "'m element_map"
  sdc_application_id_pid_mapping :: "'m mapping_entry list"

fun emplace_all :: "'m element_map \<Rightarrow> 'm element_map \<Rightarrow> 'm element_map option" where
  "emplace_all [] event_controls = Some event_controls"
| "emplace_all ((k, x) # elements) event_controls =
     (let (was_inserted, event_controls) = map_emplace k x event_controls in do {
        assert_prd was_inserted;
        emplace_all elements event_controls
      })"

definition ProxyServiceDataControlLocalView ::
  "'m element_map \<Rightarrow> 'm mapping_entry list \<Rightarrow> 'm proxy_service_data_control option" where
  "ProxyServiceDataControlLocalView elements mapping = do {
     event_controls \<leftarrow> emplace_all elements [];
     Some \<lparr>sdc_event_controls = event_controls, sdc_application_id_pid_mapping = mapping\<rparr>
   }"

text \<open>The service instances for which this process has made a mutex.\<close>

type_synonym rollback_synchronization = "skeleton_instance_identifier set"

definition GetMutex :: "skeleton_instance_identifier \<Rightarrow> rollback_synchronization \<Rightarrow> bool \<times> rollback_synchronization" where
  "GetMutex skeleton sync = (skeleton \<in> sync, insert skeleton sync)"

record 'm rollback_executor =
  executor_control :: "'m proxy_service_data_control"
  executor_asil_level :: quality_type
  executor_provider_pid :: pid_t
  executor_log_id :: u32
  executor_skeleton :: skeleton_instance_identifier

text \<open>A notification names the quality, the outdated process id and the provider it goes to.\<close>

type_synonym outdated_node = "quality_type \<times> pid_t \<times> pid_t"

fun mark_all_logs :: "'m environment \<Rightarrow> 'm element_map \<Rightarrow> u32 \<Rightarrow> 'm world \<Rightarrow> 'm world" where
  "mark_all_logs e [] log_id w = w"
| "mark_all_logs e ((_, element) # elements) log_id w =
     mark_all_logs e elements log_id (MarkTransactionLogsNeedRollback e (ec_transaction_log_set element) log_id w)"

definition PrepareRollback ::
  "'m environment \<Rightarrow> 'm rollback_executor \<Rightarrow> pid_t \<Rightarrow> 'm world \<Rightarrow> (outdated_node list \<times> 'm world) option" where
  "PrepareRollback e x current_pid w = do {
     (previous_pid, w) \<leftarrow> ApplicationIdPidMapping_RegisterPid e
        (sdc_application_id_pid_mapping (executor_control x)) (executor_log_id x) current_pid w;
     previous_pid \<leftarrow> previous_pid;
     let notified = (if previous_pid \<noteq> current_pid
        then [(executor_asil_level x, previous_pid, executor_provider_pid x)] else []);
     Some (notified, mark_all_logs e (sdc_event_controls (executor_control x)) (executor_log_id x) w)
   }"

definition rollback_element ::
  "'m environment \<Rightarrow> 'm consumer_event_control \<Rightarrow> u32 \<Rightarrow> 'm world \<Rightarrow> (unit result \<times> 'm world) option" where
  "rollback_element e element log_id w =
     RollbackProxyTransactions e (ec_transaction_log_set element) log_id
       (DereferenceEventWithoutTransactionLogging e (ec_data_control element))
       (\<lambda>subscription_max_sample_count. Unsubscribe e (ec_subscription_control element) (of_nat subscription_max_sample_count)) w"

fun RollbackTransactionLogs_loop ::
  "'m environment \<Rightarrow> 'm element_map \<Rightarrow> u32 \<Rightarrow> 'm world \<Rightarrow> (unit result \<times> 'm world) option" where
  "RollbackTransactionLogs_loop e [] log_id w = Some (Inr (), w)"
| "RollbackTransactionLogs_loop e ((_, element) # elements) log_id w = do {
     (rollback_result, w) \<leftarrow> rollback_element e element log_id w;
     case rollback_result of
       Inl err \<Rightarrow> Some (Inl err, w)
     | Inr _ \<Rightarrow> RollbackTransactionLogs_loop e elements log_id w
   }"

definition RollbackTransactionLogs ::
  "'m environment \<Rightarrow> 'm rollback_executor \<Rightarrow> pid_t \<Rightarrow> rollback_synchronization \<Rightarrow> 'm world \<Rightarrow>
   (unit result \<times> outdated_node list \<times> rollback_synchronization \<times> 'm world) option" where
  "RollbackTransactionLogs e x current_pid sync w = do {
     let (mutex_existed, sync) = GetMutex (executor_skeleton x) sync;
     (notified, w) \<leftarrow> (if \<not> mutex_existed then PrepareRollback e x current_pid w else Some ([], w));
     (result, w) \<leftarrow> RollbackTransactionLogs_loop e (sdc_event_controls (executor_control x)) (executor_log_id x) w;
     Some (result, notified, sync, w)
   }"

subsection \<open>Rolling back one element\<close>

text \<open>What giving back one logged reference does to the memory.\<close>

definition give_back :: "quality_type \<Rightarrow> log_position \<Rightarrow> nat \<Rightarrow> event_memory \<Rightarrow> event_memory" where
  "give_back q p i m = wr (entry_cell q p i) (bits False False)
     (wr (slot_cell q i) (rd (slot_cell q i) m - 1) (wr (entry_cell q p i) (bits False True) m))"

lemma cells_apart [simp]:
  "rd (slot_cell q j) (wr (entry_cell q p i) s m) = rd (slot_cell q j) m"
  "rd (entry_cell q p j) (wr (slot_cell q i) x m) = rd (entry_cell q p j) m"
  "rd (subscribe_transactions_cell q p') (wr (slot_cell q i) x m) = rd (subscribe_transactions_cell q p') m"
  "rd (subscribe_transactions_cell q p') (wr (entry_cell q p i) s m) = rd (subscribe_transactions_cell q p') m"
  "rd (sample_count_cell q p') (wr (slot_cell q i) x m) = rd (sample_count_cell q p') m"
  "rd (sample_count_cell q p') (wr (entry_cell q p i) s m) = rd (sample_count_cell q p') m"
  "rd (id_cell q p') (wr (slot_cell q i) x m) = rd (id_cell q p') m"
  "rd (id_cell q p') (wr (entry_cell q p i) s m) = rd (id_cell q p') m"
  "rd (needs_rollback_cell q p') (wr (slot_cell q i) x m) = rd (needs_rollback_cell q p') m"
  "rd (needs_rollback_cell q p') (wr (entry_cell q p i) s m) = rd (needs_rollback_cell q p') m"
  "rd (subscription_cell q) (wr (slot_cell q i) x m) = rd (subscription_cell q) m"
  "rd (subscription_cell q) (wr (entry_cell q p i) s m) = rd (subscription_cell q) m"
  by (simp_all add: memory_cells comp_def del: node_at.simps node_update.simps)

lemma give_back_reads [simp]:
  "rd (slot_cell q j) (give_back q p i m) = (if j = i then rd (slot_cell q i) m - 1 else rd (slot_cell q j) m)"
  "rd (entry_cell q p j) (give_back q p i m) = (if j = i then bits False False else rd (entry_cell q p j) m)"
  "rd (subscribe_transactions_cell q p') (give_back q p i m) = rd (subscribe_transactions_cell q p') m"
  "rd (sample_count_cell q p') (give_back q p i m) = rd (sample_count_cell q p') m"
  "rd (id_cell q p') (give_back q p i m) = rd (id_cell q p') m"
  "rd (needs_rollback_cell q p') (give_back q p i m) = rd (needs_rollback_cell q p') m"
  "rd (subscription_cell q) (give_back q p i m) = rd (subscription_cell q) m"
  by (simp_all add: give_back_def slots.rd_wr_span entries.rd_wr_span)

lemma log_view_simps [simp]:
  "reference_count_slots (TransactionLogLocalView q p n) = entry_cell q p"
  "subscribe_transactions (TransactionLogLocalView q p n) = subscribe_transactions_cell q p"
  "subscription_max_sample_count (TransactionLogLocalView q p n) = sample_count_cell q p"
  "state_slots (ConsumerEventDataControlLocalView q k) = slot_cell q"
  "max_slots (ConsumerEventDataControlLocalView q k) = k"
  by (simp_all add: TransactionLogLocalView_def ConsumerEventDataControlLocalView_def)

lemma give_back_quiet:
  assumes "rd (entry_cell q p i) (mem w) = bits True True" "i < n" "i < unat k"
  shows "\<exists>w'. (DereferenceTransactionBegin quiet (TransactionLogLocalView q p n) i w \<bind>
      DereferenceEventWithoutTransactionLogging quiet (ConsumerEventDataControlLocalView q k) i \<bind>
      DereferenceTransactionCommit quiet (TransactionLogLocalView q p n) i) = Some w' \<and> mem w' = give_back q p i (mem w)"
  using assms
  by (simp add: transaction_defs DereferenceEventWithoutTransactionLogging_def SetTransactionBegin_def SetTransactionEnd_def
      GetTransactionBegin_def GetTransactionEnd_def fetch_modify_def load_quiet Let_def give_back_def
      slots.rd_wr_span entries.rd_wr_span)

fun give_back_all :: "quality_type \<Rightarrow> log_position \<Rightarrow> nat list \<Rightarrow> event_memory \<Rightarrow> event_memory" where
  "give_back_all q p [] m = m"
| "give_back_all q p (i # is) m =
     give_back_all q p is (if rd (entry_cell q p i) m = bits True True then give_back q p i m else m)"

lemma give_back_all_reads [simp]:
  "rd (subscribe_transactions_cell q p') (give_back_all q p is m) = rd (subscribe_transactions_cell q p') m"
  "rd (sample_count_cell q p') (give_back_all q p is m) = rd (sample_count_cell q p') m"
  "rd (id_cell q p') (give_back_all q p is m) = rd (id_cell q p') m"
  "rd (needs_rollback_cell q p') (give_back_all q p is m) = rd (needs_rollback_cell q p') m"
  "rd (subscription_cell q) (give_back_all q p is m) = rd (subscription_cell q) m"
  by (induction "is" arbitrary: m) simp_all

lemma give_back_all_slots:
  "distinct is \<Longrightarrow> rd (slot_cell q j) (give_back_all q p is m) =
     rd (slot_cell q j) m - (if j \<in> set is \<and> rd (entry_cell q p j) m = bits True True then 1 else 0)"
  by (induction "is" arbitrary: m) auto

lemma give_back_all_entries:
  "\<forall>i \<in> set is. rd (entry_cell q p i) m \<in> {bits False False, bits True True} \<Longrightarrow>
   rd (entry_cell q p j) (give_back_all q p is m) = (if j \<in> set is then bits False False else rd (entry_cell q p j) m)"
  by (induction "is" arbitrary: m) auto

lemma rollback_increments_quiet:
  assumes "\<forall>i \<in> set is. rd (entry_cell q p i) (mem w) \<in> {bits False False, bits True True} \<and> i < n \<and> i < unat k" "distinct is"
  shows "\<exists>w'. RollbackIncrementTransactions_loop quiet (TransactionLogLocalView q p n)
      (DereferenceEventWithoutTransactionLogging quiet (ConsumerEventDataControlLocalView q k)) is w = Some (Inr (), w') \<and>
    mem w' = give_back_all q p is (mem w)"
  using assms
proof (induction "is" arbitrary: w)
  case (Cons i "is")
  obtain d1 d2 d3 where tests:
    "has_bits True True quiet (entry_cell q p i) w = (rd (entry_cell q p i) (mem w) = bits True True, w\<lparr>tick := tick w + d1\<rparr>)"
    "has_bits True False quiet (entry_cell q p i) (w\<lparr>tick := tick w + d1\<rparr>) =
      (rd (entry_cell q p i) (mem w) = bits True False, w\<lparr>tick := tick w + d2\<rparr>)"
    "has_bits False True quiet (entry_cell q p i) (w\<lparr>tick := tick w + d2\<rparr>) =
      (rd (entry_cell q p i) (mem w) = bits False True, w\<lparr>tick := tick w + d3\<rparr>)"
    by (rule three_tests_quiet)
  define w3 where "w3 = w\<lparr>tick := tick w + d3\<rparr>"
  show ?case
  proof (cases "rd (entry_cell q p i) (mem w) = bits True True")
    case True
    obtain w4 where "(DereferenceTransactionBegin quiet (TransactionLogLocalView q p n) i w3 \<bind>
        DereferenceEventWithoutTransactionLogging quiet (ConsumerEventDataControlLocalView q k) i \<bind>
        DereferenceTransactionCommit quiet (TransactionLogLocalView q p n) i) = Some w4"
      and m4: "mem w4 = give_back q p i (mem w)"
      using give_back_quiet [of q p i w3 n k] True Cons.prems(1) by (auto simp: w3_def)
    then obtain wa wb where steps: "DereferenceTransactionBegin quiet (TransactionLogLocalView q p n) i w3 = Some wa"
      "DereferenceEventWithoutTransactionLogging quiet (ConsumerEventDataControlLocalView q k) i wa = Some wb"
      "DereferenceTransactionCommit quiet (TransactionLogLocalView q p n) i wb = Some w4" by auto
    have "\<forall>j \<in> set is. rd (entry_cell q p j) (mem w4) \<in> {bits False False, bits True True} \<and> j < n \<and> j < unat k"
      using Cons.prems by (auto simp: m4)
    from Cons.IH [OF this] Cons.prems(2) steps True show ?thesis
      by (auto simp: tests m4 simp flip: w3_def)
  next
    case False
    from Cons.IH [of w3] Cons.prems False show ?thesis
      by (auto simp: tests simp flip: w3_def) (auto simp: w3_def)
  qed
qed simp

lemma subscription_cells_apart [simp]:
  "rd (subscription_cell q) (wr (subscribe_transactions_cell q p) s m) = rd (subscription_cell q) m"
  "rd (subscription_cell q) (wr (sample_count_cell q p) c m) = rd (subscription_cell q) m"
  "rd (subscribe_transactions_cell q p) (wr (subscription_cell q) x m) = rd (subscribe_transactions_cell q p) m"
  "rd (subscribe_transactions_cell q p) (wr (sample_count_cell q p) c m) = rd (subscribe_transactions_cell q p) m"
  "rd (subscribe_transactions_cell q p) (wr (subscribe_transactions_cell q p) s m) = s"
  "rd (sample_count_cell q p) (wr (subscribe_transactions_cell q p) s m) = rd (sample_count_cell q p) m"
  "rd (slot_cell q j) (wr (subscription_cell q) x m) = rd (slot_cell q j) m"
  "rd (slot_cell q j) (wr (subscribe_transactions_cell q p) s m) = rd (slot_cell q j) m"
  "rd (slot_cell q j) (wr (sample_count_cell q p) c m) = rd (slot_cell q j) m"
  "rd (entry_cell q p j) (wr (subscription_cell q) x m) = rd (entry_cell q p j) m"
  "rd (entry_cell q p j) (wr (subscribe_transactions_cell q p) s m) = rd (entry_cell q p j) m"
  "rd (entry_cell q p j) (wr (sample_count_cell q p) c m) = rd (entry_cell q p j) m"
  "rd (id_cell q p') (wr (subscription_cell q) x m) = rd (id_cell q p') m"
  "rd (id_cell q p') (wr (subscribe_transactions_cell q p) s m) = rd (id_cell q p') m"
  "rd (id_cell q p') (wr (sample_count_cell q p) c m) = rd (id_cell q p') m"
  by (simp_all add: memory_cells comp_def del: node_at.simps node_update.simps)

definition unsubscribed :: "quality_type \<Rightarrow> log_position \<Rightarrow> u16 \<Rightarrow> event_memory \<Rightarrow> event_memory" where
  "unsubscribed q p s m = wr (subscribe_transactions_cell q p) (bits False False) (wr (sample_count_cell q p) None
     (wr (subscription_cell q)
        (CreateState (GetSubscribersFromState (rd (subscription_cell q) m) - 1)
          (GetSubscribedSamplesFromState (rd (subscription_cell q) m) - s))
        (wr (subscribe_transactions_cell q p) (bits False True) m)))"

lemma rollback_subscribe_quiet:
  assumes "rd (subscribe_transactions_cell q p) (mem w) = bits True True" "rd (sample_count_cell q p) (mem w) = Some s"
    and "represents (rd (subscription_cell q) (mem w)) M" "unat s \<in># M" "0 < max_subscribers c"
  shows "\<exists>w'. RollbackSubscribeTransactions quiet (TransactionLogLocalView q p n)
      (\<lambda>count. Unsubscribe quiet (subscription_view_of q c) (of_nat count)) w = Some (Inr (), w') \<and>
    mem w' = unsubscribed q p s (mem w)"
proof -
  obtain d1 d2 d3 where tests:
    "has_bits True True quiet (subscribe_transactions_cell q p) w = (True, w\<lparr>tick := tick w + d1\<rparr>)"
    "has_bits True False quiet (subscribe_transactions_cell q p) (w\<lparr>tick := tick w + d1\<rparr>) = (False, w\<lparr>tick := tick w + d2\<rparr>)"
    "has_bits False True quiet (subscribe_transactions_cell q p) (w\<lparr>tick := tick w + d2\<rparr>) = (False, w\<lparr>tick := tick w + d3\<rparr>)"
    by (rule three_tests_quiet [of "subscribe_transactions_cell q p" w]) (use assms(1) in simp)
  define w3 where "w3 = w\<lparr>tick := tick w + d3\<rparr>"
  obtain w4 where w4: "UnsubscribeTransactionBegin quiet (TransactionLogLocalView q p n) w3 = Some w4"
      "mem w4 = wr (subscribe_transactions_cell q p) (bits False True) (mem w)"
    using assms(1)
    by (simp add: UnsubscribeTransactionBegin_def require_bits_def GetTransactionBegin_def GetTransactionEnd_def
        SetTransactionBegin_def fetch_modify_def load_quiet Let_def w3_def)
  define w5 where "w5 = w4\<lparr>tick := Suc (tick w4)\<rparr>"
  have "represents (rd (subscription_state (subscription_view_of q c)) (mem w5)) M"
    using assms(3) by (simp add: subscription_view_of_def w5_def w4)
  from Unsubscribe_quiet [OF this assms(4)] assms(5) obtain w6 where
    w6: "Unsubscribe quiet (subscription_view_of q c) s w5 = Some w6"
      "mem w6 = wr (subscription_cell q)
        (CreateState (GetSubscribersFromState (rd (subscription_cell q) (mem w)) - 1)
          (GetSubscribedSamplesFromState (rd (subscription_cell q) (mem w)) - s)) (mem w4)"
    by (auto simp: subscription_view_of_def w5_def w4)
  have "\<exists>w'. UnsubscribeTransactionCommit quiet (TransactionLogLocalView q p n) w6 = Some w' \<and> mem w' = unsubscribed q p s (mem w)"
    by (simp add: UnsubscribeTransactionCommit_def require_bits_def GetTransactionBegin_def GetTransactionEnd_def
        SetTransactionEnd_def fetch_modify_def store_def load_quiet Let_def w6 w4 unsubscribed_def)
  moreover have "load quiet (sample_count_cell q p) w4 = (Some s, w5)"
    using assms(2) by (simp add: load_quiet w5_def w4)
  ultimately show ?thesis
    using w4(1) w6(1) by (auto simp: RollbackSubscribeTransactions_def tests simp flip: w3_def)
qed

text \<open>The log of a process that died outside of any transaction, and what its rollback does.\<close>

definition orderly_log :: "quality_type \<Rightarrow> log_position \<Rightarrow> nat \<Rightarrow> u16 \<Rightarrow> event_memory \<Rightarrow> bool" where
  "orderly_log q p n s m \<longleftrightarrow>
     (\<forall>i < n. rd (entry_cell q p i) m \<in> {bits False False, bits True True}) \<and>
     rd (subscribe_transactions_cell q p) m = bits True True \<and> rd (sample_count_cell q p) m = Some s"

lemma RollbackProxyElementLog_orderly:
  assumes "orderly_log q p (unat k) s (mem w)"
    and "represents (rd (subscription_cell q) (mem w)) M" "unat s \<in># M" "0 < max_subscribers c"
  shows "\<exists>w'. RollbackProxyElementLog quiet (TransactionLogLocalView q p (unat k))
      (DereferenceEventWithoutTransactionLogging quiet (ConsumerEventDataControlLocalView q k))
      (\<lambda>count. Unsubscribe quiet (subscription_view_of q c) (of_nat count)) w = Some (Inr (), w') \<and>
    mem w' = unsubscribed q p s (give_back_all q p [0..<unat k] (mem w))"
proof -
  obtain d where none: "has_bits False False quiet (subscribe_transactions_cell q p) w = (False, w\<lparr>tick := tick w + d\<rparr>)"
    using has_bits_quiet [of False False "subscribe_transactions_cell q p" w] assms(1) by (auto simp: orderly_log_def)
  define w1 where "w1 = w\<lparr>tick := tick w + d\<rparr>"
  obtain w2 where w2: "RollbackIncrementTransactions quiet (TransactionLogLocalView q p (unat k))
      (DereferenceEventWithoutTransactionLogging quiet (ConsumerEventDataControlLocalView q k)) w1 = Some (Inr (), w2)"
      "mem w2 = give_back_all q p [0..<unat k] (mem w)"
    using rollback_increments_quiet [of "[0..<unat k]" q p w1 "unat k" k] assms(1)
    by (auto simp: RollbackIncrementTransactions_def orderly_log_def w1_def)
  have "\<exists>w'. RollbackSubscribeTransactions quiet (TransactionLogLocalView q p (unat k))
      (\<lambda>count. Unsubscribe quiet (subscription_view_of q c) (of_nat count)) w2 = Some (Inr (), w') \<and>
    mem w' = unsubscribed q p s (mem w2)"
    by (rule rollback_subscribe_quiet) (use assms in \<open>simp_all add: orderly_log_def w2(2)\<close>)
  with none w2 show ?thesis by (auto simp: RollbackProxyElementLog_def simp flip: w1_def)
qed

lemma unsubscribed_reads [simp]:
  "rd (slot_cell q j) (unsubscribed q p s m) = rd (slot_cell q j) m"
  "rd (entry_cell q p j) (unsubscribed q p s m) = rd (entry_cell q p j) m"
  "rd (id_cell q p') (unsubscribed q p s m) = rd (id_cell q p') m"
  "rd (subscribe_transactions_cell q p) (unsubscribed q p s m) = bits False False"
  "rd (subscription_cell q) (unsubscribed q p s m) =
     CreateState (GetSubscribersFromState (rd (subscription_cell q) m) - 1)
       (GetSubscribedSamplesFromState (rd (subscription_cell q) m) - s)"
  by (simp_all add: unsubscribed_def subscription.rd_wr)

lemma node_cells_apart [simp]:
  "rd (slot_cell q j) (wr (id_cell q p) x m) = rd (slot_cell q j) m"
  "rd (slot_cell q j) (wr (needs_rollback_cell q p) b m) = rd (slot_cell q j) m"
  "rd (entry_cell q p' j) (wr (id_cell q p) x m) = rd (entry_cell q p' j) m"
  "rd (entry_cell q p' j) (wr (needs_rollback_cell q p) b m) = rd (entry_cell q p' j) m"
  "rd (subscribe_transactions_cell q p') (wr (id_cell q p) x m) = rd (subscribe_transactions_cell q p') m"
  "rd (subscribe_transactions_cell q p') (wr (needs_rollback_cell q p) b m) = rd (subscribe_transactions_cell q p') m"
  "rd (subscription_cell q) (wr (id_cell q p) x m) = rd (subscription_cell q) m"
  "rd (subscription_cell q) (wr (needs_rollback_cell q p) b m) = rd (subscription_cell q) m"
  "rd (id_cell q p') (wr (needs_rollback_cell q p) b m) = rd (id_cell q p') m"
  by (simp_all add: memory_cells comp_def del: node_at.simps node_update.simps)

text \<open>What rolling back the log \<open>i\<close> makes of the memory.\<close>

definition log_rolled_back :: "quality_type \<Rightarrow> nat \<Rightarrow> nat \<Rightarrow> u16 \<Rightarrow> event_memory \<Rightarrow> event_memory" where
  "log_rolled_back q n i s m = wr (id_cell q (Proxy_Log i)) kInvalidTransactionLogId (wr (needs_rollback_cell q (Proxy_Log i)) False
     (unsubscribed q (Proxy_Log i) s (give_back_all q (Proxy_Log i) [0..<n] m)))"

lemma give_back_all_node: "p' \<noteq> p \<Longrightarrow> node_at p' (give_back_all q p is m q) = node_at p' (m q)"
  by (induction "is" arbitrary: m) (simp_all add: give_back_def memory_cells comp_def del: node_at.simps node_update.simps)

lemma log_rolled_back_node: "p \<noteq> Proxy_Log i \<Longrightarrow> node_at p (log_rolled_back q n i s m q) = node_at p (m q)"
  using give_back_all_node [of p "Proxy_Log i" q "[0..<n]" m]
  by (simp add: log_rolled_back_def unsubscribed_def memory_cells comp_def del: node_at.simps node_update.simps)

lemma same_node:
  assumes "node_at p (m' q) = node_at p (m q)"
  shows "rd (id_cell q p) m' = rd (id_cell q p) m" "rd (needs_rollback_cell q p) m' = rd (needs_rollback_cell q p) m"
    "rd (entry_cell q p j) m' = rd (entry_cell q p j) m" "orderly_log q p n s m' = orderly_log q p n s m"
    "log_empty (TransactionLogLocalView q p n) m' = log_empty (TransactionLogLocalView q p n) m"
  using assms by (simp_all add: orderly_log_def log_empty_def memory_cells del: node_at.simps)

lemma log_rolled_back_reads:
  assumes "orderly_log q (Proxy_Log i) n s m"
  shows "rd (slot_cell q j) (log_rolled_back q n i s m) =
      rd (slot_cell q j) m - (if j < n \<and> rd (entry_cell q (Proxy_Log i) j) m = bits True True then 1 else 0)"
    "log_empty (TransactionLogLocalView q (Proxy_Log i) n) (log_rolled_back q n i s m)"
    "rd (id_cell q (Proxy_Log i)) (log_rolled_back q n i s m) = kInvalidTransactionLogId"
    "rd (subscription_cell q) (log_rolled_back q n i s m) =
      CreateState (GetSubscribersFromState (rd (subscription_cell q) m) - 1) (GetSubscribedSamplesFromState (rd (subscription_cell q) m) - s)"
  using assms
  by (auto simp: log_rolled_back_def give_back_all_slots give_back_all_entries orderly_log_def log_empty_def log_id.rd_wr)

lemma rollback_element_first:
  assumes "logs = number_of_logs (event_transaction_log_set c)" "k = control_slots_size (data_control c)"
    and "log_id \<noteq> kInvalidTransactionLogId" "i < unat logs"
    and "to_roll_back (log_set_of q logs (unat k)) log_id (mem w) i"
    and "\<And>j. j < i \<Longrightarrow> \<not> to_roll_back (log_set_of q logs (unat k)) log_id (mem w) j"
    and "orderly_log q (Proxy_Log i) (unat k) s (mem w)"
    and "represents (rd (subscription_cell q) (mem w)) M" "unat s \<in># M" "0 < max_subscribers (subscription_control c)"
  shows "\<exists>w'. rollback_element quiet (ConsumerEventControlLocalView q c) log_id w = Some (Inr (), w') \<and>
    mem w' = log_rolled_back q (unat k) i s (mem w)"
proof -
  let ?v = "log_set_of q logs (unat k)" and ?p = "Proxy_Log i"
    and ?deref = "DereferenceEventWithoutTransactionLogging quiet (ConsumerEventDataControlLocalView q k)"
    and ?unsub = "\<lambda>count. Unsubscribe quiet (subscription_view_of q (subscription_control c)) (of_nat count)"
  define m2 where "m2 = unsubscribed q ?p s (give_back_all q ?p [0..<unat k] (mem w))"
  have node: "node_log (proxy_nodes ?v j) = TransactionLogLocalView q (Proxy_Log j) (unat k)"
    "node_id (proxy_nodes ?v j) = id_cell q (Proxy_Log j)"
    "node_needs_rollback (proxy_nodes ?v j) = needs_rollback_cell q (Proxy_Log j)"
    "proxy_nodes_size ?v = logs" for j by (simp_all add: log_set_of_def node_view_at_def)
  have "rd (entry_cell q ?p j) m2 = bits False False" if "j < unat k" for j
    using assms(7) that by (auto simp: m2_def give_back_all_entries orderly_log_def)
  then have empty: "log_empty (TransactionLogLocalView q ?p (unat k)) m2"
    by (simp add: log_empty_def m2_def)
  have "\<exists>w'. RollbackProxyTransactions quiet ?v log_id ?deref ?unsub w = Some (Inr (), w') \<and>
    mem w' = wr (node_id (proxy_nodes ?v i)) kInvalidTransactionLogId (wr (node_needs_rollback (proxy_nodes ?v i)) False m2)"
  proof (rule log_set.RollbackProxyTransactions_first [OF assms(3)])
    fix w1 :: "event_memory world"
    assume "mem w1 = mem w"
    with RollbackProxyElementLog_orderly [of q ?p k s w1 M "subscription_control c"] assms(7-10) show
      "\<exists>w2. RollbackProxyElementLog quiet (node_log (proxy_nodes ?v i)) ?deref ?unsub w1 = Some (Inr (), w2) \<and> mem w2 = m2"
      by (simp add: node m2_def)
  qed (use assms(4-6) empty in \<open>simp_all add: node to_roll_back_def m2_def\<close>)
  then show ?thesis
    by (auto simp: rollback_element_def ConsumerEventControlLocalView_def node assms(1,2) [symmetric] m2_def log_rolled_back_def)
qed

text \<open>
  Rolling an element back several times, once for each proxy that a process creates, until one fails.
\<close>

fun rollback_times ::
  "nat \<Rightarrow> 'm environment \<Rightarrow> 'm consumer_event_control \<Rightarrow> u32 \<Rightarrow> 'm world \<Rightarrow> (unit result \<times> 'm world) option" where
  "rollback_times 0 e element log_id w = Some (Inr (), w)"
| "rollback_times (Suc n) e element log_id w = do {
     (rollback_result, w) \<leftarrow> rollback_element e element log_id w;
     case rollback_result of
       Inl err \<Rightarrow> Some (Inl err, w)
     | Inr _ \<Rightarrow> rollback_times n e element log_id w
   }"

text \<open>The marked logs of an identifier, in the order of their positions, and the references to a slot that logs record.\<close>

definition marked_logs :: "quality_type \<Rightarrow> event_control \<Rightarrow> u32 \<Rightarrow> event_memory \<Rightarrow> nat list" where
  "marked_logs q c log_id m =
     filter (\<lambda>i. rd (id_cell q (Proxy_Log i)) m = log_id \<and> rd (needs_rollback_cell q (Proxy_Log i)) m)
       [0..<unat (number_of_logs (event_transaction_log_set c))]"

definition references_held :: "quality_type \<Rightarrow> event_control \<Rightarrow> nat list \<Rightarrow> event_memory \<Rightarrow> nat \<Rightarrow> nat" where
  "references_held q c is m j =
     length (filter (\<lambda>i. j < unat (control_slots_size (data_control c)) \<and> rd (entry_cell q (Proxy_Log i) j) m = bits True True) is)"

lemma marked_logs_first:
  assumes "marked_logs q c log_id m = i # is"
  shows "i < unat (number_of_logs (event_transaction_log_set c))" "i \<notin> set is" "distinct is"
    "to_roll_back (log_set_of q logs n) log_id m i" "j < i \<Longrightarrow> \<not> to_roll_back (log_set_of q logs n) log_id m j"
    "(\<And>k. k \<noteq> i \<Longrightarrow> node_at (Proxy_Log k) (m' q) = node_at (Proxy_Log k) (m q)) \<Longrightarrow> rd (id_cell q (Proxy_Log i)) m' \<noteq> log_id \<Longrightarrow>
      marked_logs q c log_id m' = is"
proof -
  let ?P = "\<lambda>m i. rd (id_cell q (Proxy_Log i)) m = log_id \<and> rd (needs_rollback_cell q (Proxy_Log i)) m"
  let ?all = "[0..<unat (number_of_logs (event_transaction_log_set c))]"
  have l: "filter (?P m) ?all = i # is" using assms by (simp add: marked_logs_def)
  have "distinct (i # is)" "sorted (i # is)"
    unfolding l [symmetric] by (rule distinct_filter [OF distinct_upt], rule sorted_wrt_filter [OF sorted_upt])
  moreover have set: "set (i # is) = {k \<in> set ?all. ?P m k}" unfolding l [symmetric] by simp
  ultimately have i: "i < unat (number_of_logs (event_transaction_log_set c))" "i \<notin> set is" "distinct is" "?P m i"
    by auto
  then show "i < unat (number_of_logs (event_transaction_log_set c))" "i \<notin> set is" "distinct is"
    "to_roll_back (log_set_of q logs n) log_id m i"
    by (simp_all add: to_roll_back_def log_set_of_def node_view_at_def)
  show "\<not> to_roll_back (log_set_of q logs n) log_id m j" if "j < i"
  proof
    assume "to_roll_back (log_set_of q logs n) log_id m j"
    then have "?P m j" by (simp add: to_roll_back_def log_set_of_def node_view_at_def)
    with that set i(1) have "j \<in> set (i # is)" by simp
    with \<open>sorted (i # is)\<close> that show False by auto
  qed
  assume other: "\<And>k. k \<noteq> i \<Longrightarrow> node_at (Proxy_Log k) (m' q) = node_at (Proxy_Log k) (m q)" and "rd (id_cell q (Proxy_Log i)) m' \<noteq> log_id"
  then have "?P m' k \<longleftrightarrow> k \<noteq> i \<and> ?P m k" for k
    using same_node(1,2) [of "Proxy_Log k" m' q m] by (cases "k = i") simp_all
  then have "marked_logs q c log_id m' = filter (\<lambda>k. k \<noteq> i) (filter (?P m) ?all)" by (simp add: marked_logs_def conj_ac)
  then show "marked_logs q c log_id m' = is" using \<open>distinct (i # is)\<close> unfolding l by (auto simp: filter_id_conv)
qed

lemma rollback_times_frees:
  assumes "log_id \<noteq> kInvalidTransactionLogId" "0 < max_subscribers (subscription_control c)"
    and "marked_logs q c log_id (mem w) = is @ js"
    and "\<forall>i \<in> set is. orderly_log q (Proxy_Log i) (unat (control_slots_size (data_control c))) (s i) (mem w)"
    and "represents (rd (subscription_cell q) (mem w)) M" "image_mset (\<lambda>i. unat (s i)) (mset is) \<subseteq># M"
  shows "\<exists>w'. rollback_times (length is) quiet (ConsumerEventControlLocalView q c) log_id w = Some (Inr (), w') \<and>
    (\<forall>j. rd (slot_cell q j) (mem w') = rd (slot_cell q j) (mem w) - of_nat (references_held q c is (mem w) j)) \<and>
    represents (rd (subscription_cell q) (mem w')) (M - image_mset (\<lambda>i. unat (s i)) (mset is)) \<and>
    (\<forall>i \<in> set is. log_empty (TransactionLogLocalView q (Proxy_Log i) (unat (control_slots_size (data_control c)))) (mem w') \<and>
       rd (id_cell q (Proxy_Log i)) (mem w') = kInvalidTransactionLogId) \<and>
    (\<forall>p. p \<notin> Proxy_Log ` set is \<longrightarrow> node_at p (mem w' q) = node_at p (mem w q)) \<and>
    marked_logs q c log_id (mem w') = js"
  using assms(3-6)
proof (induction "is" arbitrary: w M)
  case Nil
  then show ?case by (simp add: references_held_def)
next
  case (Cons i "is")
  let ?n = "unat (control_slots_size (data_control c))" and ?counts = "image_mset (\<lambda>i. unat (s i)) (mset is)"
  have marked: "marked_logs q c log_id (mem w) = i # (is @ js)" using Cons.prems(1) by simp
  have orderly: "orderly_log q (Proxy_Log i) ?n (s i) (mem w)" using Cons.prems(2) by simp
  have M: "unat (s i) \<in># M" "?counts \<subseteq># M - {#unat (s i)#}"
    using Cons.prems(4) by (auto simp: insert_subset_eq_iff)
  obtain w1 where w1: "rollback_element quiet (ConsumerEventControlLocalView q c) log_id w = Some (Inr (), w1)"
    and m1: "mem w1 = log_rolled_back q ?n i (s i) (mem w)"
    using rollback_element_first [OF refl refl assms(1) marked_logs_first(1) [OF marked] marked_logs_first(4) [OF marked]
        marked_logs_first(5) [OF marked] orderly Cons.prems(3) M(1) assms(2)] by blast
  note reads = log_rolled_back_reads [OF orderly, folded m1]
  have other: "node_at p (mem w1 q) = node_at p (mem w q)" if "p \<noteq> Proxy_Log i" for p
    unfolding m1 by (rule log_rolled_back_node) (rule that)
  have apart: "Proxy_Log k \<noteq> Proxy_Log i" if "k \<in> set is" for k using marked_logs_first(2) [OF marked] that by auto
  have "marked_logs q c log_id (mem w1) = is @ js"
    by (rule marked_logs_first(6) [OF marked]) (rule other, simp, use reads(3) assms(1) in simp)
  moreover have "\<forall>k \<in> set is. orderly_log q (Proxy_Log k) ?n (s k) (mem w1)"
    using Cons.prems(2) same_node(4) [where m = "mem w" and m' = "mem w1" and q = q, OF other [OF apart]] by simp
  moreover have "represents (rd (subscription_cell q) (mem w1)) (M - {#unat (s i)#})"
    unfolding reads(4) by (rule represents_unsubscribe(3) [OF Cons.prems(3) M(1)])
  ultimately obtain w' where w': "rollback_times (length is) quiet (ConsumerEventControlLocalView q c) log_id w1 = Some (Inr (), w')"
    "\<forall>j. rd (slot_cell q j) (mem w') = rd (slot_cell q j) (mem w1) - of_nat (references_held q c is (mem w1) j)"
    "represents (rd (subscription_cell q) (mem w')) (M - {#unat (s i)#} - ?counts)"
    "\<forall>k \<in> set is. log_empty (TransactionLogLocalView q (Proxy_Log k) ?n) (mem w') \<and>
       rd (id_cell q (Proxy_Log k)) (mem w') = kInvalidTransactionLogId"
    "\<forall>p. p \<notin> Proxy_Log ` set is \<longrightarrow> node_at p (mem w' q) = node_at p (mem w1 q)" "marked_logs q c log_id (mem w') = js"
    using Cons.IH [OF _ _ _ M(2)] by metis
  have i: "node_at (Proxy_Log i) (mem w' q) = node_at (Proxy_Log i) (mem w1 q)" using w'(5) apart by blast
  have "references_held q c is (mem w1) j = references_held q c is (mem w) j" for j
    unfolding references_held_def by (intro arg_cong [of _ _ length] filter_cong) (use same_node(3) [where m = "mem w" and m' = "mem w1" and q = q, OF other [OF apart]] in simp_all)
  then have "rd (slot_cell q j) (mem w') = rd (slot_cell q j) (mem w) - of_nat (references_held q c (i # is) (mem w) j)" for j
    by (simp add: w'(2) reads(1) references_held_def)
  with w1 w' i reads(2,3) same_node(1,5) [where m = "mem w1" and m' = "mem w'" and q = q, OF i] other show ?case
    by (intro exI [of _ w']) (auto simp del: node_at.simps)
qed

text \<open>
  C19. What a process that died outside of any transaction left behind is freed by the proxies of its
  successor, when nobody interferes: if every marked log of the identifier records a subscription and any
  number of held samples, then each rollback of the element, one per proxy that is created, succeeds and
  frees the next marked log, so that after \<open>n\<close> of them the first \<open>n\<close> marked logs
  are empty and free for new subscribers and exactly the rest are still marked; after as many as there are
  marked logs, none is. Every slot loses exactly the references that the freed logs record, exactly their
  subscriptions are taken out of the packed subscription state, and no other log changes. One rollback alone
  frees only one log.
\<close>

theorem proxies_free_dead_consumer:
  assumes "log_id \<noteq> kInvalidTransactionLogId" "0 < max_subscribers (subscription_control c)"
    and "n \<le> length (marked_logs q c log_id m)" "is = take n (marked_logs q c log_id m)"
    and "\<forall>i \<in> set is. orderly_log q (Proxy_Log i) (unat (control_slots_size (data_control c))) (s i) m"
    and "represents (rd (subscription_cell q) m) M" "image_mset (\<lambda>i. unat (s i)) (mset is) \<subseteq># M"
  shows "\<exists>w. rollback_times n quiet (ConsumerEventControlLocalView q c) log_id (start m) = Some (Inr (), w) \<and>
    (\<forall>j. rd (slot_cell q j) (mem w) = rd (slot_cell q j) m - of_nat (references_held q c is m j)) \<and>
    represents (rd (subscription_cell q) (mem w)) (M - image_mset (\<lambda>i. unat (s i)) (mset is)) \<and>
    (\<forall>i \<in> set is. log_empty (TransactionLogLocalView q (Proxy_Log i) (unat (control_slots_size (data_control c)))) (mem w) \<and>
       rd (id_cell q (Proxy_Log i)) (mem w) = kInvalidTransactionLogId) \<and>
    (\<forall>p. p \<notin> Proxy_Log ` set is \<longrightarrow> node_at p (mem w q) = node_at p (m q)) \<and>
    marked_logs q c log_id (mem w) = drop n (marked_logs q c log_id m)"
proof -
  have "marked_logs q c log_id (mem (start m)) = is @ drop n (marked_logs q c log_id m)" "length is = n"
    using assms(3,4) by simp_all
  with rollback_times_frees [OF assms(1,2), of q "start m" "is"] assms(5-7) show ?thesis by simp
qed

text \<open>Both logs of an event hold the slot 1 and two samples each, for the witness.\<close>

definition dead_consumer_memory :: event_memory where
  "dead_consumer_memory = (\<lambda>q. (example_memory q)\<lparr>
     event_transaction_log_set := (event_transaction_log_set (example_memory q))\<lparr>proxy_transaction_logs :=
       (\<lambda>_. \<lparr>needs_rollback = True, transaction_log_id = 1000,
         node_transaction_log = (TransactionLog 3)\<lparr>log_reference_count_slots := (\<lambda>i. bits (i = 1) (i = 1)),
           log_subscribe_transactions := bits True True, log_subscription_max_sample_count := Some 2\<rparr>\<rparr>)\<rparr>,
     data_control := \<lparr>control_slots = (\<lambda>i. EventSlotStatus 7 (if i = 1 then 2 else 0)), control_slots_size = 3\<rparr>,
     subscription_control := (subscription_control (example_memory q))\<lparr>current_subscription_state := CreateState 2 4\<rparr>\<rparr>)"

theorem proxies_free_dead_consumer_witness:
  "\<exists>w. rollback_times 2 quiet (ConsumerEventControlLocalView kASIL_QM (dead_consumer_memory kASIL_QM)) 1000
      (start dead_consumer_memory) = Some (Inr (), w) \<and>
    rd (slot_cell kASIL_QM 1) (mem w) = EventSlotStatus 7 0 \<and> represents (rd (subscription_cell kASIL_QM) (mem w)) {#} \<and>
    marked_logs kASIL_QM (dead_consumer_memory kASIL_QM) 1000 (mem w) = []"
proof -
  note defs = dead_consumer_memory_def example_defs memory_cells
  have marked: "marked_logs kASIL_QM (dead_consumer_memory kASIL_QM) 1000 dead_consumer_memory = [0, 1]"
    by (simp add: defs marked_logs_def upt_rec)
  have "represents (rd (subscription_cell kASIL_QM) dead_consumer_memory) {#2, 2#}"
    by (simp add: defs represents_def)
  moreover have "orderly_log kASIL_QM (Proxy_Log i) 3 2 dead_consumer_memory" for i
    by (simp add: defs orderly_log_def)
  moreover have "references_held kASIL_QM (dead_consumer_memory kASIL_QM) [0, 1] dead_consumer_memory 1 = 2"
    "rd (slot_cell kASIL_QM 1) dead_consumer_memory = EventSlotStatus 7 2"
    "control_slots_size (data_control (dead_consumer_memory kASIL_QM)) = 3"
    "0 < max_subscribers (subscription_control (dead_consumer_memory kASIL_QM))"
    by (simp_all add: defs references_held_def)
  moreover have "EventSlotStatus 7 2 - 2 = EventSlotStatus 7 0" by code_simp
  ultimately show ?thesis
    using proxies_free_dead_consumer [of 1000 "dead_consumer_memory kASIL_QM" 2 kASIL_QM dead_consumer_memory "[0, 1]" "\<lambda>_. 2" "{#2, 2#}"]
    by (auto simp: marked kInvalidTransactionLogId_def)
qed

subsection \<open>The proxies of one process\<close>

text \<open>
  Proxies that a process creates one after the other, each with whatever other participants do
  meanwhile. A failed rollback fails that proxy only.
\<close>

fun create_proxies ::
  "('m environment \<times> 'm rollback_executor) list \<Rightarrow> pid_t \<Rightarrow> rollback_synchronization \<Rightarrow> 'm world \<Rightarrow>
   (outdated_node list \<times> rollback_synchronization \<times> 'm world) option" where
  "create_proxies [] pid sync w = Some ([], sync, w)"
| "create_proxies ((e, x) # xs) pid sync w = do {
     (_, notified, sync, w) \<leftarrow> RollbackTransactionLogs e x pid sync w;
     (more, sync, w) \<leftarrow> create_proxies xs pid sync w;
     Some (notified @ more, sync, w)
   }"

lemma RollbackTransactionLogs_notifies:
  assumes "RollbackTransactionLogs e x pid sync w = Some (r, notified, sync', w')"
  shows "sync' = insert (executor_skeleton x) sync"
    "executor_skeleton x \<in> sync \<Longrightarrow> notified = []"
    "executor_skeleton x \<notin> sync \<Longrightarrow> \<exists>previous w1.
       RegisterPid e (sdc_application_id_pid_mapping (executor_control x)) (executor_log_id x) pid w = (Some previous, w1) \<and>
       notified = (if previous = pid then [] else [(executor_asil_level x, previous, executor_provider_pid x)])"
  using assms
  by (cases "RegisterPid e (sdc_application_id_pid_mapping (executor_control x)) (executor_log_id x) pid w",
      auto simp: RollbackTransactionLogs_def GetMutex_def PrepareRollback_def ApplicationIdPidMapping_RegisterPid_def
      split: if_splits)+

text \<open>
  However many proxies for a service instance a process creates, and whatever other participants do
  meanwhile, the provider is told about an outdated process at most once, by the first proxy,
  and never about the running process itself: the notified process id is the one the first
  registration returned.
\<close>

lemma outdated_process_notified_once:
  assumes "create_proxies ((e, x) # xs) pid sync w = Some (notified, sync', w')"
    and "executor_skeleton x \<notin> sync" "\<forall>(e', y) \<in> set xs. executor_skeleton y = executor_skeleton x"
  shows "\<exists>previous w1.
    RegisterPid e (sdc_application_id_pid_mapping (executor_control x)) (executor_log_id x) pid w = (Some previous, w1) \<and>
    notified = (if previous = pid then [] else [(executor_asil_level x, previous, executor_provider_pid x)])"
proof -
  have later: "ns = []"
    if "create_proxies ys pid sync1 w1 = Some (ns, sync2, w2)" "executor_skeleton x \<in> sync1"
      "\<forall>(e', y) \<in> set ys. executor_skeleton y = executor_skeleton x" for ys sync1 w1 ns sync2 w2
    using that
  proof (induction ys arbitrary: sync1 w1 ns sync2 w2)
    case (Cons z ys)
    obtain e' y where z: "z = (e', y)" by fastforce
    from Cons.prems(1) obtain r n1 s1 w3 n2 where step: "RollbackTransactionLogs e' y pid sync1 w1 = Some (r, n1, s1, w3)"
      "create_proxies ys pid s1 w3 = Some (n2, sync2, w2)" "ns = n1 @ n2"
      by (auto simp: z)
    have y: "executor_skeleton y = executor_skeleton x" using Cons.prems(3) by (simp add: z)
    have "n1 = []" using RollbackTransactionLogs_notifies(2) [OF step(1)] Cons.prems(2) y by simp
    moreover have "n2 = []"
      by (rule Cons.IH [OF step(2)])
        (use RollbackTransactionLogs_notifies(1) [OF step(1)] Cons.prems(2,3) in simp_all)
    ultimately show ?case by (simp add: step(3))
  qed simp
  from assms(1) obtain r n1 s1 w1 n2 where first: "RollbackTransactionLogs e x pid sync w = Some (r, n1, s1, w1)"
    "create_proxies xs pid s1 w1 = Some (n2, sync', w')" "notified = n1 @ n2"
    by auto
  have "n2 = []" using later [OF first(2)] RollbackTransactionLogs_notifies(1) [OF first(1)] assms(3) by simp
  with RollbackTransactionLogs_notifies(3) [OF first(1) assms(2)] first(3) show ?thesis by simp
qed

text \<open>A process with two proxies whose predecessor had the process id 41.\<close>

definition example_executor :: "pid_mapping rollback_executor" where
  "example_executor =
     \<lparr>executor_control = \<lparr>sdc_event_controls = [], sdc_application_id_pid_mapping = ApplicationIdPidMapping 2\<rparr>,
      executor_asil_level = kASIL_QM, executor_provider_pid = 9, executor_log_id = 7,
      executor_skeleton = \<lparr>skeleton_service_id = 1, skeleton_instance_id = 1\<rparr>\<rparr>"


end
