(* ===== verification/Methods.thy ===== *)
theory Methods
  imports Service_Identifiers
begin

text \<open>
  Parts of the service methods: \<^verbatim>\<open>methods/offered_state_machine\<close>,
  \<^verbatim>\<open>methods/type_erased_call_queue\<close> and \<^verbatim>\<open>methods/method_resource_map\<close>.
\<close>

subsection \<open>Whether the service came back\<close>

datatype offered_state = OFFERED | STOP_OFFERED | RE_OFFERED

definition OfferedStateMachine :: offered_state where
  "OfferedStateMachine = OFFERED"

text \<open>The calls that a state does not expect fail their assertion.\<close>

fun Offer :: "offered_state \<Rightarrow> offered_state option" where
  "Offer OFFERED = Some OFFERED"
| "Offer STOP_OFFERED = Some RE_OFFERED"
| "Offer RE_OFFERED = None"

fun StopOffer :: "offered_state \<Rightarrow> offered_state option" where
  "StopOffer OFFERED = Some STOP_OFFERED"
| "StopOffer STOP_OFFERED = None"
| "StopOffer RE_OFFERED = Some STOP_OFFERED"

subsection \<open>Call queues\<close>

text \<open>
  A queue holds one element per call for the arguments and one for the result, if the method
  has any. The sizes are \<^verbatim>\<open>std::size_t\<close>, and so is their product. The memory resource
  that allocates is a parameter.
\<close>

record data_type_size_info =
  type_size :: u64
  type_alignment :: u64

record type_erased_element_info =
  in_arg_type_info :: "data_type_size_info option"
  return_type_info :: "data_type_size_info option"
  queue_size :: u64

record 'r memory_resource =
  allocate :: "u64 \<Rightarrow> u64 \<Rightarrow> 'r \<Rightarrow> u64 \<times> 'r"
  deallocate :: "u64 \<Rightarrow> u64 \<Rightarrow> 'r \<Rightarrow> 'r"

text \<open>A span is its address, or none for the null pointer, and its size in bytes.\<close>

type_synonym byte_span = "u64 option \<times> u64"

record type_erased_call_queue =
  queue_element_info :: type_erased_element_info
  in_args_queue_start_address :: byte_span
  return_queue_start_address :: byte_span

definition allocate_span ::
  "'r memory_resource \<Rightarrow> data_type_size_info option \<Rightarrow> u64 \<Rightarrow> 'r \<Rightarrow> byte_span \<times> 'r" where
  "allocate_span mr type_info calls r =
     (case type_info of
        None \<Rightarrow> ((None, 0), r)
      | Some info \<Rightarrow>
          (let (address, r) = allocate mr (type_size info * calls) (type_alignment info) r
           in ((Some address, type_size info * calls), r)))"

definition AllocateQueue ::
  "'r memory_resource \<Rightarrow> type_erased_element_info \<Rightarrow> 'r \<Rightarrow> (byte_span \<times> byte_span) \<times> 'r" where
  "AllocateQueue mr info r =
     (let (in_args, r) = allocate_span mr (in_arg_type_info info) (queue_size info) r;
          (return_values, r) = allocate_span mr (return_type_info info) (queue_size info) r
      in ((in_args, return_values), r))"

definition TypeErasedCallQueue ::
  "'r memory_resource \<Rightarrow> type_erased_element_info \<Rightarrow> 'r \<Rightarrow> type_erased_call_queue \<times> 'r" where
  "TypeErasedCallQueue mr info r =
     (if in_arg_type_info info = None \<and> return_type_info info = None
      then (\<lparr>queue_element_info = info, in_args_queue_start_address = (None, 0), return_queue_start_address = (None, 0)\<rparr>, r)
      else (let ((in_args, return_values), r) = AllocateQueue mr info r
            in (\<lparr>queue_element_info = info, in_args_queue_start_address = in_args,
                 return_queue_start_address = return_values\<rparr>, r)))"

definition deallocate_span :: "'r memory_resource \<Rightarrow> byte_span \<Rightarrow> 'r \<Rightarrow> 'r" where
  "deallocate_span mr span r = (case fst span of None \<Rightarrow> r | Some address \<Rightarrow> deallocate mr address (snd span) r)"

definition TypeErasedCallQueue_destroy :: "'r memory_resource \<Rightarrow> type_erased_call_queue \<Rightarrow> 'r \<Rightarrow> 'r" where
  "TypeErasedCallQueue_destroy mr queue r =
     deallocate_span mr (return_queue_start_address queue) (deallocate_span mr (in_args_queue_start_address queue) r)"

definition GetInArgValuesQueueStorage :: "type_erased_call_queue \<Rightarrow> byte_span option" where
  "GetInArgValuesQueueStorage queue =
     (if in_arg_type_info (queue_element_info queue) = None then None else Some (in_args_queue_start_address queue))"

definition GetReturnValueQueueStorage :: "type_erased_call_queue \<Rightarrow> byte_span option" where
  "GetReturnValueQueueStorage queue =
     (if return_type_info (queue_element_info queue) = None then None else Some (return_queue_start_address queue))"

definition GetElement :: "u64 \<Rightarrow> data_type_size_info \<Rightarrow> u64 \<times> u64 \<Rightarrow> u64 \<Rightarrow> (u64 \<times> u64) option" where
  "GetElement position info queue_storage calls = do {
     assert_prd (position < calls);
     assert_prd (snd queue_storage = type_size info * calls);
     let element_offset = type_size info * position;
     Some (fst queue_storage + element_offset, type_size info)
   }"

definition GetInArgValuesElementStorage :: "u64 \<Rightarrow> u64 \<times> u64 \<Rightarrow> type_erased_element_info \<Rightarrow> (u64 \<times> u64) option" where
  "GetInArgValuesElementStorage position in_arg_values_storage info = do {
     type_info \<leftarrow> in_arg_type_info info;
     GetElement position type_info in_arg_values_storage (queue_size info)
   }"

definition GetReturnValueElementStorage :: "u64 \<Rightarrow> u64 \<times> u64 \<Rightarrow> type_erased_element_info \<Rightarrow> (u64 \<times> u64) option" where
  "GetReturnValueElementStorage position return_value_storage info = do {
     type_info \<leftarrow> return_type_info info;
     GetElement position type_info return_value_storage (queue_size info)
   }"

subsection \<open>Memory regions of the callers\<close>

text \<open>
  The regions of one application belong to one process; the map is from the application to its
  process and from there from the instance counter of the proxy to the region.
\<close>

record 'a process_specific_resource_map =
  process_pid :: int
  inner_resource_map :: "u16 \<rightharpoonup> 'a"

type_synonym 'a method_resource_map = "u32 \<rightharpoonup> 'a process_specific_resource_map"

datatype clean_up_result = OLD_REGIONS_REMOVED | NO_REGIONS_REMOVED

definition Contains :: "proxy_instance_identifier \<Rightarrow> int \<Rightarrow> 'a method_resource_map \<Rightarrow> bool" where
  "Contains proxy pid m =
     (case m (proxy_application_id proxy) of
        None \<Rightarrow> False
      | Some resources \<Rightarrow>
          if process_pid resources \<noteq> pid then False
          else inner_resource_map resources (proxy_instance_counter proxy) \<noteq> None)"

text \<open>Inserting a counter that is already there keeps the region that is there; the region found is returned.\<close>

definition Insert ::
  "proxy_instance_identifier \<Rightarrow> int \<Rightarrow> 'a \<Rightarrow> 'a method_resource_map \<Rightarrow> 'a \<times> 'a method_resource_map" where
  "Insert proxy pid resource m =
     (let resources = (case m (proxy_application_id proxy) of
            None \<Rightarrow> \<lparr>process_pid = 0, inner_resource_map = Map.empty\<rparr>
          | Some resources \<Rightarrow> resources);
          inserted = (case inner_resource_map resources (proxy_instance_counter proxy) of None \<Rightarrow> resource | Some old \<Rightarrow> old);
          resources = resources\<lparr>process_pid := pid,
            inner_resource_map := (inner_resource_map resources)(proxy_instance_counter proxy \<mapsto> inserted)\<rparr>
      in (inserted, m(proxy_application_id proxy \<mapsto> resources)))"

definition EraseRegionsFromCrashedProcesses ::
  "u32 \<Rightarrow> int \<Rightarrow> 'a method_resource_map \<Rightarrow> clean_up_result \<times> 'a method_resource_map" where
  "EraseRegionsFromCrashedProcesses proxy_app_id pid m =
     (case m proxy_app_id of
        None \<Rightarrow> (NO_REGIONS_REMOVED, m)
      | Some resources \<Rightarrow>
          if process_pid resources \<noteq> pid then (OLD_REGIONS_REMOVED, m(proxy_app_id := None))
          else (NO_REGIONS_REMOVED, m))"

definition CleanUpOldRegions ::
  "proxy_instance_identifier \<Rightarrow> int \<Rightarrow> 'a method_resource_map \<Rightarrow> (clean_up_result \<times> 'a method_resource_map) option" where
  "CleanUpOldRegions proxy pid m = do {
     assert_prd (\<not> Contains proxy pid m);
     Some (EraseRegionsFromCrashedProcesses (proxy_application_id proxy) pid m)
   }"

definition Clear :: "'a method_resource_map \<Rightarrow> 'a method_resource_map" where
  "Clear m = Map.empty"

subsection \<open>Properties\<close>

datatype offer_event = Offered_Event | Stopped_Event

fun offered_run :: "offer_event list \<Rightarrow> offered_state \<Rightarrow> offered_state option" where
  "offered_run [] s = Some s"
| "offered_run (Offered_Event # es) s = Offer s \<bind> offered_run es"
| "offered_run (Stopped_Event # es) s = StopOffer s \<bind> offered_run es"

lemma offered_run_snoc:
  "offered_run (es @ [ev]) s = offered_run es s \<bind> (case ev of Offered_Event \<Rightarrow> Offer | Stopped_Event \<Rightarrow> StopOffer)"
proof (induction es arbitrary: s)
  case Nil
  then show ?case by (cases ev; cases s) simp_all
next
  case (Cons e es)
  then show ?case by (cases e; cases s) simp_all
qed

text \<open>
  The machine tells a proxy whether the service came back after an interruption: after any
  sequence of calls that it accepts, it is in \<open>OFFERED\<close> if the service was never stopped, in
  \<open>STOP_OFFERED\<close> if the last call stopped it, and in \<open>RE_OFFERED\<close> exactly if it was stopped
  at some time and the last call offered it again. It accepts a sequence unless the service is
  stopped twice in a row or, once it was stopped, offered twice in a row.
\<close>

lemma offered_state_machine_history:
  "case offered_run es OfferedStateMachine of
     Some s \<Rightarrow>
       s = (if Stopped_Event \<notin> set es then OFFERED else if last es = Stopped_Event then STOP_OFFERED else RE_OFFERED)
   | None \<Rightarrow>
       \<exists>before ev after. es = before @ [ev, ev] @ after \<and> (ev = Stopped_Event \<or> Stopped_Event \<in> set before)"
proof (induction es rule: rev_induct)
  case Nil
  then show ?case by (simp add: OfferedStateMachine_def)
next
  case (snoc ev es)
  show ?case
  proof (cases "offered_run es OfferedStateMachine")
    case None
    with snoc obtain before x after where
      "es = before @ [x, x] @ after" "x = Stopped_Event \<or> Stopped_Event \<in> set before" by auto
    then have "\<exists>before x after. es @ [ev] = before @ [x, x] @ after \<and> (x = Stopped_Event \<or> Stopped_Event \<in> set before)"
      by (intro exI [of _ before] exI [of _ x] exI [of _ "after @ [ev]"]) simp
    moreover have "offered_run (es @ [ev]) OfferedStateMachine = None" using None by (simp add: offered_run_snoc)
    ultimately show ?thesis by (simp only: option.case)
  next
    case (Some s)
    with snoc have s: "s = (if Stopped_Event \<notin> set es then OFFERED else if last es = Stopped_Event then STOP_OFFERED else RE_OFFERED)"
      by simp
    have repeated: "\<exists>before x after. es @ [ev] = before @ [x, x] @ after \<and> (x = Stopped_Event \<or> Stopped_Event \<in> set before)"
      if "es \<noteq> []" "last es = ev" "ev = Stopped_Event \<or> Stopped_Event \<in> set (butlast es)"
    proof -
      have "es @ [ev] = butlast es @ [ev, ev] @ []" using that(1,2) by (cases es rule: rev_cases) simp_all
      with that(3) show ?thesis by blast
    qed
    have stopped: "es \<noteq> []" "last es = Offered_Event \<Longrightarrow> Stopped_Event \<in> set (butlast es)" if "Stopped_Event \<in> set es"
      using that by (cases es rule: rev_cases; auto)+
    show ?thesis
    proof (cases "offered_run (es @ [ev]) OfferedStateMachine")
      case None
      with Some s have "Stopped_Event \<in> set es" "last es = ev"
        by (cases ev; cases "last es"; simp add: offered_run_snoc split: if_splits)+
      then have "\<exists>before x after. es @ [ev] = before @ [x, x] @ after \<and> (x = Stopped_Event \<or> Stopped_Event \<in> set before)"
        using stopped by (intro repeated; cases ev; simp)
      with None show ?thesis by (simp only: option.case)
    next
      case (Some s')
      with \<open>offered_run es OfferedStateMachine = Some s\<close> s show ?thesis
        by (cases ev) (auto simp: offered_run_snoc split: if_splits)
    qed
  qed
qed

lemma element_offset:
  fixes address n i calls :: u64
  assumes "unat n * unat calls < 2 ^ 64" "unat address + unat n * unat calls \<le> 2 ^ 64" "i < calls"
  shows "unat (address + n * i) = unat address + unat n * unat i"
    "unat n * unat i + unat n \<le> unat n * unat calls"
proof -
  have "unat i + 1 \<le> unat calls" using assms(3) by (simp add: word_less_nat_alt)
  then have "unat n * (unat i + 1) \<le> unat n * unat calls" by (rule mult_le_mono2)
  then show le: "unat n * unat i + unat n \<le> unat n * unat calls" by simp
  have product: "unat (n * i) = unat n * unat i"
    using le assms(1) by (simp add: unat_word_ariths)
  have "unat address + unat n * unat i < 2 ^ 64"
    using le assms(2) unsigned_less [of address] by (cases "unat n = 0") auto
  then show "unat (address + n * i) = unat address + unat n * unat i"
    by (simp add: unat_word_ariths product [unfolded unat_word_ariths])
qed

text \<open>
  The elements of a call queue lie inside its storage and do not overlap, as long as the
  storage has been allocated without its size wrapping around: for every position below the
  queue size there is an element, of the size of the type, that ends before the storage does,
  and a later element starts where an earlier one has ended. Every other position is refused.
\<close>

lemma call_queue_elements_disjoint:
  assumes "unat (type_size info) * unat calls < 2 ^ 64" "unat address + unat (type_size info) * unat calls \<le> 2 ^ 64"
  shows "(case GetElement i info (address, type_size info * calls) calls of
      None \<Rightarrow> calls \<le> i
    | Some (a, n) \<Rightarrow> i < calls \<and> n = type_size info \<and> unat address \<le> unat a \<and>
        unat a + unat n \<le> unat address + unat (type_size info * calls)) \<and>
    (\<forall>a n b k. GetElement i info (address, type_size info * calls) calls = Some (a, n) \<longrightarrow>
       GetElement j info (address, type_size info * calls) calls = Some (b, k) \<longrightarrow> i < j \<longrightarrow>
       unat a + unat n \<le> unat b)"
proof -
  note offset = element_offset [OF assms]
  have storage: "unat (type_size info * calls) = unat (type_size info) * unat calls"
    using assms(1) by (simp add: unat_word_ariths)
  have element: "GetElement k info (address, type_size info * calls) calls =
      (if k < calls then Some (address + type_size info * k, type_size info) else None)" for k
    by (simp add: GetElement_def assert_prd_def)
  have later: "unat (address + type_size info * i) + unat (type_size info) \<le> unat (address + type_size info * j)"
    if "i < j" "j < calls"
  proof -
    have "unat i + 1 \<le> unat j" using that(1) by (simp add: word_less_nat_alt)
    then have "unat (type_size info) * (unat i + 1) \<le> unat (type_size info) * unat j" by (rule mult_le_mono2)
    with offset(1) [of i] offset(1) [of j] that show ?thesis by (simp add: order.strict_trans)
  qed
  show ?thesis
  proof (cases "i < calls")
    case True
    have "unat address \<le> unat (address + type_size info * i) \<and>
        unat (address + type_size info * i) + unat (type_size info) \<le> unat address + unat (type_size info * calls)"
      using offset [OF True] by (simp add: storage)
    with True later show ?thesis by (simp add: element)
  next
    case False
    then show ?thesis by (auto simp: element)
  qed
qed


text \<open>
  The size of a queue is a product of 64-bit numbers that nothing bounds. If it wraps around,
  the checks of \<open>GetElement\<close> still pass, because they multiply again: there are a type size and
  a queue size for which a valid position has its element far behind the end of the storage
  that was allocated.
\<close>

lemma call_queue_size_wraps:
  assumes "info = \<lparr>type_size = 2 ^ 33, type_alignment = 8\<rparr>" "calls = 2 ^ 31 + 1" "position = 2"
  shows "\<exists>a n. GetElement position info (address, type_size info * calls) calls = Some (address + a, n) \<and>
    type_size info * calls < a"
  using assms by (simp add: GetElement_def)

text \<open>
  When a proxy registers its region after the regions of a crashed predecessor have been cleaned
  up, the map contains its region; every region of the same application that belongs to
  another process is gone, and all regions of other applications, and of other proxies of
  the same process, are kept. The clean-up reports a removal exactly if the application was
  known with another process.
\<close>

lemma regions_of_restarted_proxy:
  assumes "CleanUpOldRegions proxy pid m = Some (r, m1)" "Insert proxy pid resource m1 = (resource', m2)"
  shows "Contains proxy pid m2 \<and> resource' = resource \<and>
    (r = OLD_REGIONS_REMOVED \<longleftrightarrow> (\<exists>x. m (proxy_application_id proxy) = Some x \<and> process_pid x \<noteq> pid)) \<and>
    (\<forall>other other_pid. Contains other other_pid m2 \<longleftrightarrow>
       other = proxy \<and> other_pid = pid \<or>
       Contains other other_pid m \<and> (proxy_application_id other = proxy_application_id proxy \<longrightarrow> other_pid = pid))"
proof -
  have new: "\<not> Contains proxy pid m" "(r, m1) = EraseRegionsFromCrashedProcesses (proxy_application_id proxy) pid m"
    using assms(1) by (auto simp: CleanUpOldRegions_def)
  let ?app = "proxy_application_id proxy" and ?count = "proxy_instance_counter proxy"
  have same: "(proxy_application_id other = ?app \<and> proxy_instance_counter other = ?count) \<longleftrightarrow> other = proxy" for other
    by (cases other; cases proxy) auto
  define regions where "regions = (case m1 ?app of None \<Rightarrow> Map.empty | Some x \<Rightarrow> inner_resource_map x)"
  have kept: "m1 = (case m ?app of None \<Rightarrow> m | Some x \<Rightarrow> if process_pid x \<noteq> pid then m(?app := None) else m)"
    "r = OLD_REGIONS_REMOVED \<longleftrightarrow> (\<exists>x. m ?app = Some x \<and> process_pid x \<noteq> pid)"
    using new(2) by (auto simp: EraseRegionsFromCrashedProcesses_def split: option.splits if_splits)
  have count: "regions ?count = None"
    using new(1) kept(1) by (auto simp: regions_def Contains_def split: option.splits)
  have m2: "resource' = resource" "m2 = m1(?app \<mapsto> \<lparr>process_pid = pid, inner_resource_map = regions(?count \<mapsto> resource)\<rparr>)"
    using assms(2) count by (auto simp: Insert_def regions_def Let_def split: option.splits)
  have "Contains other other_pid m2 \<longleftrightarrow> other = proxy \<and> other_pid = pid \<or>
      Contains other other_pid m \<and> (proxy_application_id other = ?app \<longrightarrow> other_pid = pid)" for other other_pid
  proof (cases "proxy_application_id other = ?app")
    case True
    then have "Contains other other_pid m2 \<longleftrightarrow> other_pid = pid \<and> (other = proxy \<or> regions (proxy_instance_counter other) \<noteq> None)"
      using same [of other] by (auto simp: Contains_def m2(2))
    moreover have "regions (proxy_instance_counter other) \<noteq> None \<longleftrightarrow> Contains other pid m"
      using True by (auto simp: regions_def kept(1) Contains_def split: option.splits)
    ultimately show ?thesis using True by auto
  next
    case False
    then have "m2 (proxy_application_id other) = m (proxy_application_id other)"
      by (auto simp: m2(2) kept(1) split: option.splits)
    with False show ?thesis by (auto simp: Contains_def)
  qed
  with m2(1) kept(2) show ?thesis by blast
qed


end
