(* ===== verification/Error_Codes.thy ===== *)
theory Error_Codes
  imports Com_Error
begin

text \<open>
  The numeric side of the error enumerations: the values of \<^verbatim>\<open>ComErrc\<close> and
  \<^verbatim>\<open>MethodErrc\<close> (\<^verbatim>\<open>com_error.h\<close>, \<^verbatim>\<open>methods/method_error.h\<close>), the messages of their
  error domains, and \<^verbatim>\<open>error_serializer.cpp\<close>, which sends an error code as a number
  between processes with 0 for success. The serializer is a template over the enumeration;
  here it takes the list of the enumerators in their declared order.
\<close>

type_synonym error_code = int

datatype method_errc =
    kInvalid
  | kSkeletonAlreadyDestroyed
  | kUnexpectedMessage
  | kUnexpectedMessageSize
  | kMessagePassingError
  | kNotSubscribed
  | kNotOffered
  | kUnknownProxy
  | kNumEnumElements

definition com_errc_values :: "com_errc list" where
  "com_errc_values =
     [com_errc.kInvalid, com_errc.kServiceNotAvailable, com_errc.kMaxSamplesReached,
      com_errc.kBindingFailure, com_errc.kGrantEnforcementError, com_errc.kPeerIsUnreachable,
      com_errc.kFieldValueIsNotValid, com_errc.kSetHandlerNotSet, com_errc.kUnsetFailure,
      com_errc.kSampleAllocationFailure, com_errc.kIllegalUseOfAllocate, com_errc.kServiceNotOffered,
      com_errc.kCommunicationLinkError, com_errc.kNoClients, com_errc.kCommunicationStackError,
      com_errc.kMaxSampleCountNotRealizable, com_errc.kMaxSubscribersExceeded,
      com_errc.kErroneousFileHandle, com_errc.kCouldNotExecute,
      com_errc.kInvalidInstanceIdentifierString, com_errc.kInvalidBindingInformation,
      com_errc.kEventNotExisting, com_errc.kNotSubscribed, com_errc.kInvalidConfiguration,
      com_errc.kInvalidMetaModelShortname, com_errc.kServiceInstanceAlreadyOffered,
      com_errc.kCouldNotRestartProxy, com_errc.kNotOffered, com_errc.kInstanceIDCouldNotBeResolved,
      com_errc.kFindServiceHandlerFailure, com_errc.kInvalidHandle, com_errc.kCallQueueFull,
      com_errc.kServiceElementAlreadyExists, com_errc.kNumEnumElements]"

definition method_errc_values :: "method_errc list" where
  "method_errc_values =
     [method_errc.kInvalid, method_errc.kSkeletonAlreadyDestroyed, method_errc.kUnexpectedMessage,
      method_errc.kUnexpectedMessageSize, method_errc.kMessagePassingError,
      method_errc.kNotSubscribed, method_errc.kNotOffered, method_errc.kUnknownProxy,
      method_errc.kNumEnumElements]"

text \<open>The number of an enumerator is its position.\<close>

definition error_number :: "'e list \<Rightarrow> 'e \<Rightarrow> error_code" where
  "error_number codes e = int (length (takeWhile (\<lambda>x. x \<noteq> e) codes))"

subsection \<open>Messages\<close>

text \<open>
  Asking for the message of \<open>kInvalid\<close> or \<open>kNumEnumElements\<close> terminates the process; any
  number outside of the enumeration is an unknown future error.
\<close>

fun com_errc_message :: "com_errc \<Rightarrow> string option" where
  "com_errc_message com_errc.kInvalid = None"
| "com_errc_message com_errc.kServiceNotAvailable = Some ''Service is not available.''"
| "com_errc_message com_errc.kMaxSamplesReached = Some ''Application holds more SamplePtrs than commited in Subscribe().''"
| "com_errc_message com_errc.kBindingFailure = Some ''Local failure has been detected by the binding.''"
| "com_errc_message com_errc.kGrantEnforcementError = Some ''Request was refused by Grant enforcement layer.''"
| "com_errc_message com_errc.kPeerIsUnreachable = Some ''TLS handshake fail.''"
| "com_errc_message com_errc.kFieldValueIsNotValid = Some ''Field Value is not valid.''"
| "com_errc_message com_errc.kSetHandlerNotSet = Some ''SetHandler has not been registered.''"
| "com_errc_message com_errc.kUnsetFailure = Some ''Failure has been detected by unset operation.''"
| "com_errc_message com_errc.kSampleAllocationFailure = Some ''Not Sufficient memory resources can be allocated.''"
| "com_errc_message com_errc.kIllegalUseOfAllocate = Some ''The allocation was illegally done via custom allocator (i.e., not via shared memory allocation).''"
| "com_errc_message com_errc.kServiceNotOffered = Some ''Service not offered.''"
| "com_errc_message com_errc.kCommunicationLinkError = Some ''Communication link is broken.''"
| "com_errc_message com_errc.kNoClients = Some ''No clients connected.''"
| "com_errc_message com_errc.kCommunicationStackError = Some ''Communication Stack Error, e.g. network stack, network binding, or communication framework reports an error''"
| "com_errc_message com_errc.kMaxSampleCountNotRealizable = Some ''Provided maxSampleCount not realizable.''"
| "com_errc_message com_errc.kMaxSubscribersExceeded = Some ''Subscriber count exceeded''"
| "com_errc_message com_errc.kErroneousFileHandle = Some ''The FileHandle returned from FindServce is corrupt/service not available.''"
| "com_errc_message com_errc.kCouldNotExecute = Some ''Command could not be executed in provided Execution Context.''"
| "com_errc_message com_errc.kInvalidInstanceIdentifierString = Some ''Invalid instance identifier format of string.''"
| "com_errc_message com_errc.kInvalidBindingInformation = Some ''Internal error: Binding information invalid.''"
| "com_errc_message com_errc.kEventNotExisting = Some ''Requested event does not exist on sender side.''"
| "com_errc_message com_errc.kNotSubscribed = Some ''Request invalid: event proxy is not subscribed to the event.''"
| "com_errc_message com_errc.kInvalidConfiguration = Some ''Invalid configuration.''"
| "com_errc_message com_errc.kInvalidMetaModelShortname = Some ''Meta model short name does not adhere to naming requirements.''"
| "com_errc_message com_errc.kServiceInstanceAlreadyOffered = Some ''Service instance is already offered''"
| "com_errc_message com_errc.kCouldNotRestartProxy = Some ''Could not recreate proxy after previous crash.''"
| "com_errc_message com_errc.kNotOffered = Some ''Skeleton Event / Field has not been offered yet.''"
| "com_errc_message com_errc.kInstanceIDCouldNotBeResolved = Some ''Runtime could not resolve a valid InstanceIdentifier from the provided InstanceSpecifier.''"
| "com_errc_message com_errc.kFindServiceHandlerFailure = Some ''StartFindService failed to register handler.''"
| "com_errc_message com_errc.kInvalidHandle = Some ''StopFindService was called with invalid FindServiceHandle.''"
| "com_errc_message com_errc.kCallQueueFull = Some ''Call queue of service method is already full.''"
| "com_errc_message com_errc.kServiceElementAlreadyExists = Some ''A service element (event, field, method) with the same name already exists.''"
| "com_errc_message com_errc.kNumEnumElements = None"

fun method_errc_message :: "method_errc \<Rightarrow> string option" where
  "method_errc_message method_errc.kInvalid = None"
| "method_errc_message method_errc.kSkeletonAlreadyDestroyed = Some ''Command failed since skeleton was already destroyed.''"
| "method_errc_message method_errc.kUnexpectedMessage = Some ''Message with an unexpected type was received.''"
| "method_errc_message method_errc.kUnexpectedMessageSize = Some ''Message with an unexpected size was received.''"
| "method_errc_message method_errc.kMessagePassingError = Some ''Message passing failed with an error.''"
| "method_errc_message method_errc.kNotSubscribed = Some ''Method has not been successfully subscribed.''"
| "method_errc_message method_errc.kNotOffered = Some ''Method has not been fully offered.''"
| "method_errc_message method_errc.kUnknownProxy = Some ''Proxy is not allowed to access method.''"
| "method_errc_message method_errc.kNumEnumElements = None"

definition MessageFor :: "'e list \<Rightarrow> ('e \<Rightarrow> string option) \<Rightarrow> error_code \<Rightarrow> string option" where
  "MessageFor codes message code =
     (if 0 \<le> code \<and> code < int (length codes) then message (codes ! nat code) else Some ''unknown future error'')"

definition ComErrorDomain_MessageFor :: "error_code \<Rightarrow> string option" where
  "ComErrorDomain_MessageFor = MessageFor com_errc_values com_errc_message"

definition MethodErrorDomain_MessageFor :: "error_code \<Rightarrow> string option" where
  "MethodErrorDomain_MessageFor = MessageFor method_errc_values method_errc_message"

text \<open>An error object carries the number and a message of the caller.\<close>

definition MakeError :: "'e list \<Rightarrow> 'e \<Rightarrow> string \<Rightarrow> error_code \<times> string" where
  "MakeError codes code message = (error_number codes code, message)"

subsection \<open>Serialization\<close>

definition SerializeSuccess :: error_code where
  "SerializeSuccess = 0"

definition SerializeError :: "'e list \<Rightarrow> 'e \<Rightarrow> error_code option" where
  "SerializeError codes e = do {
     assert_prd (error_number codes (hd codes) < error_number codes e \<and>
       error_number codes e < error_number codes (last codes));
     Some (error_number codes e)
   }"

definition Deserialize :: "'e list \<Rightarrow> error_code \<Rightarrow> ('e + unit) option" where
  "Deserialize codes n = do {
     assert_prd (error_number codes (hd codes) \<le> n \<and> n < error_number codes (last codes));
     Some (if n \<noteq> 0 then Inl (codes ! nat n) else Inr ())
   }"

text \<open>
  What the serializer asks of an enumeration: its values are distinct, with \<open>kInvalid\<close> first and
  \<open>kNumEnumElements\<close> last, and only these two have no message.
\<close>

locale error_enumeration =
  fixes codes :: "'e list" and message :: "'e \<Rightarrow> string option"
  assumes distinct_values: "distinct codes" and two_values: "2 \<le> length codes"
    and messages: "\<And>e. e \<in> set codes \<Longrightarrow> message e = None \<longleftrightarrow> e = hd codes \<or> e = last codes"
begin

lemma error_number_nth:
  assumes "i < length codes"
  shows "error_number codes (codes ! i) = int i"
proof -
  have "takeWhile (\<lambda>x. x \<noteq> codes ! i) codes = take i codes"
    using assms distinct_values by (intro takeWhile_eq_take_P_nth) (auto simp: nth_eq_iff_index_eq)
  with assms show ?thesis by (simp add: error_number_def)
qed

lemma first_last_number:
  "error_number codes (hd codes) = 0" "error_number codes (last codes) = int (length codes - 1)"
proof -
  have "codes \<noteq> []" "0 < length codes" "length codes - 1 < length codes" using two_values by auto
  then show "error_number codes (hd codes) = 0" "error_number codes (last codes) = int (length codes - 1)"
    using error_number_nth [of 0] error_number_nth [of "length codes - 1"] by (simp_all add: hd_conv_nth last_conv_nth)
qed

lemma SerializeError_nth:
  assumes "i < length codes"
  shows "SerializeError codes (codes ! i) = (if 0 < i \<and> i < length codes - 1 then Some (int i) else None)"
  using assms two_values by (auto simp: SerializeError_def first_last_number error_number_nth assert_prd_def)

lemma serialized_error:
  assumes "e \<in> set codes" "SerializeError codes e = Some n"
  shows "Deserialize codes n = Some (Inl e)" "n \<noteq> SerializeSuccess" "MessageFor codes message n \<noteq> None"
proof -
  obtain i where i: "i < length codes" "e = codes ! i" using assms(1) by (auto simp: in_set_conv_nth)
  with assms(2) have n: "n = int i" "0 < i" "i < length codes - 1"
    by (auto simp: SerializeError_nth split: if_splits)
  then show "Deserialize codes n = Some (Inl e)" "n \<noteq> SerializeSuccess"
    using i by (auto simp: Deserialize_def first_last_number SerializeSuccess_def)
  have "codes \<noteq> []" "0 < length codes" "length codes - 1 < length codes" using two_values by auto
  then have "codes ! i \<noteq> hd codes" "codes ! i \<noteq> last codes"
    using n i nth_eq_iff_index_eq [OF distinct_values, of i 0] nth_eq_iff_index_eq [OF distinct_values, of i "length codes - 1"]
    by (simp_all add: hd_conv_nth last_conv_nth)
  then show "MessageFor codes message n \<noteq> None"
    using i n messages [of "codes ! i"] by (simp add: MessageFor_def)
qed

lemma serialized_success: "Deserialize codes SerializeSuccess = Some (Inr ())"
  using two_values by (simp add: Deserialize_def first_last_number SerializeSuccess_def)

lemma deserialized_error:
  assumes "Deserialize codes n = Some (Inl e)"
  shows "SerializeError codes e = Some n"
proof -
  from assms have n: "0 < n" "n < int (length codes - 1)" "e = codes ! nat n"
    by (auto simp: Deserialize_def first_last_number split: if_splits)
  then show ?thesis by (simp add: SerializeError_nth)
qed

end

interpretation com_codes: error_enumeration com_errc_values com_errc_message
proof
  fix e
  show "com_errc_message e = None \<longleftrightarrow> e = hd com_errc_values \<or> e = last com_errc_values"
    by (cases e) (simp_all add: com_errc_values_def)
qed (simp_all add: com_errc_values_def)

interpretation method_codes: error_enumeration method_errc_values method_errc_message
proof
  fix e
  show "method_errc_message e = None \<longleftrightarrow> e = hd method_errc_values \<or> e = last method_errc_values"
    by (cases e) (simp_all add: method_errc_values_def)
qed (simp_all add: method_errc_values_def)

lemma all_codes: "e \<in> set com_errc_values" "f \<in> set method_errc_values"
  by (cases e; simp add: com_errc_values_def) (cases f; simp add: method_errc_values_def)

text \<open>
  What one process serializes the other reads back. For both enumerations, an error code
  that can be sent arrives as the same code, is never mistaken for success, and has a message
  that can be printed; success arrives as success; and a number that is read as an error is
  the number of that error, so the accepted numbers are exactly those that are sent.
\<close>

lemma error_serialization_round_trip:
  "(SerializeError com_errc_values e = Some n \<longleftrightarrow> Deserialize com_errc_values n = Some (Inl e)) \<and>
   (SerializeError method_errc_values f = Some k \<longleftrightarrow> Deserialize method_errc_values k = Some (Inl f)) \<and>
   (SerializeError com_errc_values e = Some n \<longrightarrow> n \<noteq> SerializeSuccess \<and> ComErrorDomain_MessageFor n \<noteq> None) \<and>
   (SerializeError method_errc_values f = Some k \<longrightarrow> k \<noteq> SerializeSuccess \<and> MethodErrorDomain_MessageFor k \<noteq> None) \<and>
   Deserialize com_errc_values SerializeSuccess = Some (Inr ()) \<and>
   Deserialize method_errc_values SerializeSuccess = Some (Inr ())"
  using com_codes.serialized_error [OF all_codes(1)] com_codes.deserialized_error com_codes.serialized_success
    method_codes.serialized_error [OF all_codes(2)] method_codes.deserialized_error method_codes.serialized_success
  unfolding ComErrorDomain_MessageFor_def MethodErrorDomain_MessageFor_def by blast


end
