(* ===== verification/Event_Notification.thy ===== *)
theory Event_Notification
  imports Event_Memory Pid_Mapping Error_Codes Service_Identifiers
begin

text \<open>
  The notifications about events that processes send each other,
  \<^verbatim>\<open>messaging/message_passing_service_instance\<close>: registering receive handlers, here and at the
  process that provides the event, and notifying them. The operations of one process are
  taken one after the other; only the loop that notifies other processes, which takes the lock
  anew in every round, sees a set of nodes that changes meanwhile.

  The calls an operation makes to the outside are its effects: messages to other processes
  through the client cache, calls of callbacks, and jobs for the executor. What a message that
  could not be sent reports is only logged.
\<close>

subsection \<open>Messages\<close>

text \<open>
  Messages are copied from and to objects byte by byte. How an object is represented is left
  to the platform: a layout gives the size of a type, the bytes of a value and the value of the bytes.
\<close>

record 't layout =
  sizeof :: nat
  to_bytes :: "'t \<Rightarrow> u8 list"
  of_bytes :: "u8 list \<Rightarrow> 't"

definition SerializeToMessage :: "'t layout \<Rightarrow> u8 \<Rightarrow> 't \<Rightarrow> u8 list" where
  "SerializeToMessage layout message_id t = message_id # to_bytes layout t"

definition DeserializeFromPayload :: "'t layout \<Rightarrow> u8 list \<Rightarrow> 't option" where
  "DeserializeFromPayload layout payload =
     (if sizeof layout \<noteq> length payload then None else Some (of_bytes layout payload))"

datatype message_type = kRegisterEventNotifier | kUnregisterEventNotifier | kNotifyEvent | kOutdatedNodeId

definition message_type_number :: "message_type \<Rightarrow> u8" where
  "message_type_number t =
     (case t of kRegisterEventNotifier \<Rightarrow> 1 | kUnregisterEventNotifier \<Rightarrow> 2 | kNotifyEvent \<Rightarrow> 3 | kOutdatedNodeId \<Rightarrow> 4)"

record event_layouts =
  element_layout :: "element_fq_id layout"
  pid_layout :: "pid_t layout"

subsection \<open>State\<close>

text \<open>
  The maps are keyed by what the hash of an element identifier is computed from, which is what
  its comparison looks at. A \<^verbatim>\<open>std::set\<close> of processes is the ascending list of its members.
\<close>

record 'h registered_notification_handler =
  notification_handler :: 'h
  register_no :: u32

record node_counter =
  counter_node_id :: pid_t
  node_counter :: u16

datatype ('h, 'b) effect =
    Sent pid_t "u8 list"
  | Client_Removed pid_t
  | Status_Changed 'b bool
  | Posted element_fq_id
  | Handler_Called 'h

datatype client_quality_type = kASIL_QM | kASIL_QMfromB | kASIL_B

record ('h, 'b) service_instance =
  cur_registration_no :: u32
  asil_level :: client_quality_type
  event_update_handlers :: "u64 \<rightharpoonup> 'h registered_notification_handler list"
  handler_status_change_callbacks :: "u64 \<rightharpoonup> 'b"
  event_update_interested_nodes :: "u64 \<rightharpoonup> pid_t list"
  event_update_remote_registrations :: "u64 \<rightharpoonup> node_counter"
  self_pid :: pid_t
  self_uid :: u32
  effects :: "('h, 'b) effect list"

abbreviation element_key :: "element_fq_id \<Rightarrow> u64" where
  "element_key \<equiv> ElementFqId_hash_key"

definition MessagePassingServiceInstance :: "client_quality_type \<Rightarrow> pid_t \<Rightarrow> u32 \<Rightarrow> ('h, 'b) service_instance" where
  "MessagePassingServiceInstance level pid uid =
     \<lparr>cur_registration_no = 0, asil_level = level, event_update_handlers = Map.empty,
      handler_status_change_callbacks = Map.empty, event_update_interested_nodes = Map.empty,
      event_update_remote_registrations = Map.empty, self_pid = pid, self_uid = uid, effects = []\<rparr>"

definition emit :: "('h, 'b) effect \<Rightarrow> ('h, 'b) service_instance \<Rightarrow> ('h, 'b) service_instance" where
  "emit x s = s\<lparr>effects := effects s @ [x]\<rparr>"

definition has_local_handlers :: "element_fq_id \<Rightarrow> ('h, 'b) service_instance \<Rightarrow> bool" where
  "has_local_handlers event s \<longleftrightarrow>
     (case event_update_handlers s (element_key event) of None \<Rightarrow> False | Some hs \<Rightarrow> hs \<noteq> [])"

definition has_remote_handlers :: "element_fq_id \<Rightarrow> ('h, 'b) service_instance \<Rightarrow> bool" where
  "has_remote_handlers event s \<longleftrightarrow>
     (case event_update_interested_nodes s (element_key event) of None \<Rightarrow> False | Some ns \<Rightarrow> ns \<noteq> [])"

text \<open>The callback of the event is called, if the status has changed and there is one.\<close>

definition call_status_change :: "bool \<Rightarrow> element_fq_id \<Rightarrow> bool \<Rightarrow> ('h, 'b) service_instance \<Rightarrow> ('h, 'b) service_instance" where
  "call_status_change changed event status s =
     (if changed then
        (case handler_status_change_callbacks s (element_key event) of
           None \<Rightarrow> s
         | Some callback \<Rightarrow> emit (Status_Changed callback status) s)
      else s)"

definition set_insert :: "pid_t \<Rightarrow> pid_t list \<Rightarrow> pid_t list" where
  "set_insert p ps = (if p \<in> set ps then ps else insort p ps)"

subsection \<open>Messages from other processes\<close>

definition HandleRegisterNotificationMsg ::
  "event_layouts \<Rightarrow> u8 list \<Rightarrow> pid_t \<Rightarrow> ('h, 'b) service_instance \<Rightarrow> ('h, 'b) service_instance" where
  "HandleRegisterNotificationMsg abi payload sender s =
     (case DeserializeFromPayload (element_layout abi) payload of
        None \<Rightarrow> s
      | Some event \<Rightarrow>
          (let (nodes, notify) = (case event_update_interested_nodes s (element_key event) of
               Some ps \<Rightarrow>
                 (let ps' = set_insert sender ps; already_registered = sender \<in> set ps
                  in (ps', \<not> already_registered \<and> length ps' = 1))
             | None \<Rightarrow> (set_insert sender [], True))
           in call_status_change (notify \<and> \<not> has_local_handlers event s) event True
                (s\<lparr>event_update_interested_nodes := (event_update_interested_nodes s)(element_key event \<mapsto> nodes)\<rparr>)))"

definition HandleUnregisterNotificationMsg ::
  "event_layouts \<Rightarrow> u8 list \<Rightarrow> pid_t \<Rightarrow> ('h, 'b) service_instance \<Rightarrow> ('h, 'b) service_instance" where
  "HandleUnregisterNotificationMsg abi payload sender s =
     (case DeserializeFromPayload (element_layout abi) payload of
        None \<Rightarrow> s
      | Some event \<Rightarrow>
          (case event_update_interested_nodes s (element_key event) of
             None \<Rightarrow> s
           | Some ps \<Rightarrow>
               (let registration_found = sender \<in> set ps; ps' = remove1 sender ps
                in call_status_change (registration_found \<and> ps' = [] \<and> \<not> has_local_handlers event s) event False
                     (s\<lparr>event_update_interested_nodes := (event_update_interested_nodes s)(element_key event \<mapsto> ps')\<rparr>))))"

definition HandleOutdatedNodeIdMsg ::
  "event_layouts \<Rightarrow> u8 list \<Rightarrow> pid_t \<Rightarrow> ('h, 'b) service_instance \<Rightarrow> ('h, 'b) service_instance" where
  "HandleOutdatedNodeIdMsg abi payload sender s =
     (case DeserializeFromPayload (pid_layout abi) payload of
        None \<Rightarrow> s
      | Some pid_to_unregister \<Rightarrow>
          emit (Client_Removed pid_to_unregister)
            (s\<lparr>event_update_interested_nodes :=
                map_option (remove1 pid_to_unregister) \<circ> event_update_interested_nodes s\<rparr>))"

subsection \<open>Notifying\<close>

definition kMaxReceiveHandlersPerEvent :: nat where
  "kMaxReceiveHandlersPerEvent = 5"

definition NodeIdTmpBufferSize :: nat where
  "NodeIdTmpBufferSize = 20"

text \<open>
  Handlers are held weakly. The parameter \<open>alive\<close> says which of them can still be locked.
\<close>

definition NotifyEventLocally ::
  "('h \<Rightarrow> bool) \<Rightarrow> element_fq_id \<Rightarrow> ('h, 'b) service_instance \<Rightarrow> nat \<times> ('h, 'b) service_instance" where
  "NotifyEventLocally alive event s =
     (case event_update_handlers s (element_key event) of
        None \<Rightarrow> (0, s)
      | Some hs \<Rightarrow>
          (let weak_ptrs = map notification_handler (take kMaxReceiveHandlersPerEvent hs);
               called = filter alive weak_ptrs
           in (length called, fold (\<lambda>h. emit (Handler_Called h)) called s)))"

definition HandleNotifyEventMsg ::
  "event_layouts \<Rightarrow> ('h \<Rightarrow> bool) \<Rightarrow> u8 list \<Rightarrow> pid_t \<Rightarrow> ('h, 'b) service_instance \<Rightarrow> ('h, 'b) service_instance" where
  "HandleNotifyEventMsg abi alive payload sender s =
     (case DeserializeFromPayload (element_layout abi) payload of
        None \<Rightarrow> s
      | Some event \<Rightarrow> snd (NotifyEventLocally alive event s))"

fun copy_loop :: "pid_t list \<Rightarrow> pid_t list \<Rightarrow> pid_t list \<times> bool" where
  "copy_loop [] copied = (copied, False)"
| "copy_loop (p # ps) copied =
     (let copied = copied @ [p]
      in if length copied = NodeIdTmpBufferSize then (copied, ps \<noteq> []) else copy_loop ps copied)"

definition CopyNodeIdentifiers :: "element_fq_id \<Rightarrow> (u64 \<rightharpoonup> pid_t list) \<Rightarrow> pid_t \<Rightarrow> pid_t list \<times> bool" where
  "CopyNodeIdentifiers event src_map start_id =
     (case src_map (element_key event) of
        None \<Rightarrow> ([], False)
      | Some ps \<Rightarrow> copy_loop (dropWhile (\<lambda>p. p < start_id) ps) [])"

text \<open>
  One round copies a buffer of nodes and sends to them; \<open>nodes k\<close> is the map of nodes that
  round \<open>k\<close> finds. The counter of rounds is a byte that is not allowed to overflow. The loop
  yields the processes it sends to and the number of rounds.
\<close>

function NotifyEventRemote_loop ::
  "element_fq_id \<Rightarrow> (nat \<Rightarrow> u64 \<rightharpoonup> pid_t list) \<Rightarrow> nat \<Rightarrow> pid_t \<Rightarrow> pid_t list \<times> nat" where
  "NotifyEventRemote_loop event nodes loop_count start_node_id =
     (if loop_count \<ge> 255 then ([], loop_count)
      else
        let (ids, further) = CopyNodeIdentifiers event (nodes loop_count) start_node_id in
        if further then
          (let (rest, n) = NotifyEventRemote_loop event nodes (loop_count + 1) (last ids + 1) in (ids @ rest, n))
        else (ids, loop_count + 1))"
  by pat_completeness auto
termination by (relation "measure (\<lambda>(event, nodes, loop_count, start_node_id). 255 - loop_count)") auto

declare NotifyEventRemote_loop.simps [simp del]

definition NotifyEventRemote ::
  "event_layouts \<Rightarrow> (nat \<Rightarrow> u64 \<rightharpoonup> pid_t list) \<Rightarrow> element_fq_id \<Rightarrow> ('h, 'b) service_instance \<Rightarrow> ('h, 'b) service_instance" where
  "NotifyEventRemote abi nodes event s =
     (let message = SerializeToMessage (element_layout abi) (message_type_number kNotifyEvent) event;
          (ids, loop_count) = NotifyEventRemote_loop event nodes 0 0
      in fold (\<lambda>p. emit (Sent p message)) ids s)"

definition NotifyEvent ::
  "event_layouts \<Rightarrow> (nat \<Rightarrow> u64 \<rightharpoonup> pid_t list) \<Rightarrow> element_fq_id \<Rightarrow> ('h, 'b) service_instance \<Rightarrow> ('h, 'b) service_instance" where
  "NotifyEvent abi nodes event s =
     (let s = NotifyEventRemote abi nodes event s
      in if has_local_handlers event s then emit (Posted event) s else s)"

subsection \<open>Registering\<close>

definition SendRegisterEventNotificationMessage ::
  "event_layouts \<Rightarrow> element_fq_id \<Rightarrow> pid_t \<Rightarrow> ('h, 'b) service_instance \<Rightarrow> ('h, 'b) service_instance" where
  "SendRegisterEventNotificationMessage abi event target s =
     emit (Sent target (SerializeToMessage (element_layout abi) (message_type_number kRegisterEventNotifier) event)) s"

definition RegisterEventNotificationRemote ::
  "event_layouts \<Rightarrow> element_fq_id \<Rightarrow> pid_t \<Rightarrow> ('h, 'b) service_instance \<Rightarrow> ('h, 'b) service_instance" where
  "RegisterEventNotificationRemote abi event target s =
     (let c = (case event_update_remote_registrations s (element_key event) of
            None \<Rightarrow> \<lparr>counter_node_id = target, node_counter = 1\<rparr>
          | Some c \<Rightarrow>
              if counter_node_id c \<noteq> target then c\<lparr>counter_node_id := target, node_counter := 1\<rparr>
              else c\<lparr>node_counter := node_counter c + 1\<rparr>);
          s = s\<lparr>event_update_remote_registrations := (event_update_remote_registrations s)(element_key event \<mapsto> c)\<rparr>
      in if node_counter c = 1 then SendRegisterEventNotificationMessage abi event target s else s)"

definition RegisterEventNotification ::
  "event_layouts \<Rightarrow> element_fq_id \<Rightarrow> 'h \<Rightarrow> pid_t \<Rightarrow> ('h, 'b) service_instance \<Rightarrow> u32 \<times> ('h, 'b) service_instance" where
  "RegisterEventNotification abi event callback target s =
     (let was_empty = \<not> has_local_handlers event s;
          registration_no = cur_registration_no s;
          new_handler = \<lparr>notification_handler = callback, register_no = registration_no\<rparr>;
          hs = (case event_update_handlers s (element_key event) of Some hs \<Rightarrow> hs @ [new_handler] | None \<Rightarrow> [new_handler]);
          s = s\<lparr>cur_registration_no := registration_no + 1,
                event_update_handlers := (event_update_handlers s)(element_key event \<mapsto> hs)\<rparr>;
          notify = was_empty \<and> \<not> has_remote_handlers event s;
          s = (if target \<noteq> self_pid s then RegisterEventNotificationRemote abi event target s else s)
      in (registration_no, call_status_change notify event True s))"

definition ReregisterEventNotification ::
  "event_layouts \<Rightarrow> element_fq_id \<Rightarrow> pid_t \<Rightarrow> ('h, 'b) service_instance \<Rightarrow> ('h, 'b) service_instance" where
  "ReregisterEventNotification abi event target s =
     (if event_update_handlers s (element_key event) = None then s
      else if target \<noteq> self_pid s then
        (case event_update_remote_registrations s (element_key event) of
           None \<Rightarrow> s
         | Some c \<Rightarrow>
             if counter_node_id c = target then
               s\<lparr>event_update_remote_registrations := (event_update_remote_registrations s)
                   (element_key event \<mapsto> c\<lparr>node_counter := node_counter c + 1\<rparr>)\<rparr>
             else
               SendRegisterEventNotificationMessage abi event target
                 (s\<lparr>event_update_remote_registrations := (event_update_remote_registrations s)
                     (element_key event \<mapsto> c\<lparr>counter_node_id := target, node_counter := 1\<rparr>)\<rparr>))
      else s)"

text \<open>The position of the first handler whose number is not less, found by halving.\<close>

function lower_bound :: "'h registered_notification_handler list \<Rightarrow> u32 \<Rightarrow> nat \<Rightarrow> nat \<Rightarrow> nat" where
  "lower_bound hs value first len =
     (if len = 0 then first
      else let half = len div 2; middle = first + half in
        if register_no (hs ! middle) < value then lower_bound hs value (middle + 1) (len - half - 1)
        else lower_bound hs value first half)"
  by pat_completeness auto
termination by (relation "measure (\<lambda>(hs, value, first, len). len)") auto

declare lower_bound.simps [simp del]

definition UnregisterEventNotificationRemote ::
  "event_layouts \<Rightarrow> element_fq_id \<Rightarrow> u32 \<Rightarrow> pid_t \<Rightarrow> ('h, 'b) service_instance \<Rightarrow> ('h, 'b) service_instance option" where
  "UnregisterEventNotificationRemote abi event registration_no target s =
     (case event_update_remote_registrations s (element_key event) of
        None \<Rightarrow> Some s
      | Some c \<Rightarrow> do {
          assert_prd (node_counter c > 0);
          if counter_node_id c \<noteq> target then Some s
          else
            let c = c\<lparr>node_counter := node_counter c - 1\<rparr> in
            if node_counter c = 0 then
              Some (emit (Sent target (SerializeToMessage (element_layout abi) (message_type_number kUnregisterEventNotifier) event))
                (s\<lparr>event_update_remote_registrations := (event_update_remote_registrations s)(element_key event := None)\<rparr>))
            else Some (s\<lparr>event_update_remote_registrations := (event_update_remote_registrations s)(element_key event \<mapsto> c)\<rparr>)
        })"

definition UnregisterEventNotification ::
  "event_layouts \<Rightarrow> element_fq_id \<Rightarrow> u32 \<Rightarrow> pid_t \<Rightarrow> ('h, 'b) service_instance \<Rightarrow> ('h, 'b) service_instance option" where
  "UnregisterEventNotification abi event registration_no target s =
     (case event_update_handlers s (element_key event) of
        None \<Rightarrow> Some s
      | Some hs \<Rightarrow>
          let k = lower_bound hs registration_no 0 (length hs) in
          if k < length hs \<and> register_no (hs ! k) = registration_no then
            let hs = take k hs @ drop (k + 1) hs;
                s = s\<lparr>event_update_handlers := (event_update_handlers s)(element_key event \<mapsto> hs)\<rparr>;
                notify = hs = [] \<and> \<not> has_remote_handlers event s
            in do {
              s \<leftarrow> (if target \<noteq> self_pid s then UnregisterEventNotificationRemote abi event registration_no target s else Some s);
              Some (call_status_change notify event False s)
            }
          else Some s)"

definition NotifyOutdatedNodeId ::
  "event_layouts \<Rightarrow> pid_t \<Rightarrow> pid_t \<Rightarrow> ('h, 'b) service_instance \<Rightarrow> ('h, 'b) service_instance" where
  "NotifyOutdatedNodeId abi outdated target s =
     emit (Sent target (SerializeToMessage (pid_layout abi) (message_type_number kOutdatedNodeId) outdated)) s"

definition RegisterEventNotificationExistenceChangedCallback ::
  "element_fq_id \<Rightarrow> 'b \<Rightarrow> ('h, 'b) service_instance \<Rightarrow> ('h, 'b) service_instance" where
  "RegisterEventNotificationExistenceChangedCallback event callback s =
     (let s = s\<lparr>handler_status_change_callbacks := (handler_status_change_callbacks s)(element_key event \<mapsto> callback)\<rparr>
      in call_status_change (has_local_handlers event s \<or> has_remote_handlers event s) event True s)"

definition UnregisterEventNotificationExistenceChangedCallback ::
  "element_fq_id \<Rightarrow> ('h, 'b) service_instance \<Rightarrow> ('h, 'b) service_instance" where
  "UnregisterEventNotificationExistenceChangedCallback event s =
     s\<lparr>handler_status_change_callbacks := (handler_status_change_callbacks s)(element_key event := None)\<rparr>"

text \<open>The dispatcher of the messages that want no reply.\<close>

definition MessageCallback ::
  "event_layouts \<Rightarrow> ('h \<Rightarrow> bool) \<Rightarrow> pid_t \<Rightarrow> u8 list \<Rightarrow> ('h, 'b) service_instance \<Rightarrow> ('h, 'b) service_instance" where
  "MessageCallback abi alive sender message s =
     (case message of
        [] \<Rightarrow> s
      | t # payload \<Rightarrow>
          if t = message_type_number kRegisterEventNotifier then HandleRegisterNotificationMsg abi payload sender s
          else if t = message_type_number kUnregisterEventNotifier then HandleUnregisterNotificationMsg abi payload sender s
          else if t = message_type_number kNotifyEvent then HandleNotifyEventMsg abi alive payload sender s
          else if t = message_type_number kOutdatedNodeId then HandleOutdatedNodeIdMsg abi payload sender s
          else s)"

definition GetPartnerQualityType :: "client_quality_type \<Rightarrow> quality_type" where
  "GetPartnerQualityType level =
     (case level of kASIL_QM \<Rightarrow> quality_type.kASIL_QM | kASIL_B \<Rightarrow> quality_type.kASIL_B
      | kASIL_QMfromB \<Rightarrow> quality_type.kASIL_QM)"

subsection \<open>Objects as bytes\<close>

text \<open>What the code relies on when it copies an object into a message and back.\<close>

locale object_layout =
  fixes layout :: "'t layout" and representable :: "'t \<Rightarrow> bool"
  assumes length_to_bytes: "representable t \<Longrightarrow> length (to_bytes layout t) = sizeof layout"
    and of_to_bytes: "representable t \<Longrightarrow> of_bytes layout (to_bytes layout t) = t"
begin

lemma payload_round_trip:
  "representable t \<Longrightarrow> DeserializeFromPayload layout (tl (SerializeToMessage layout message_id t)) = Some t"
  by (simp add: SerializeToMessage_def DeserializeFromPayload_def length_to_bytes of_to_bytes)

end

text \<open>The layouts of a little-endian platform, with the last byte of an element identifier unused.\<close>

definition bytes16 :: "u16 \<Rightarrow> u8 list" where
  "bytes16 w = [ucast w, ucast (drop_bit 8 w)]"

definition word16 :: "u8 \<Rightarrow> u8 \<Rightarrow> u16" where
  "word16 a b = ucast a OR push_bit 8 (ucast b)"

definition element_bytes :: "element_fq_id layout" where
  "element_bytes = \<lparr>sizeof = 8,
     to_bytes = (\<lambda>x. bytes16 (fq_service_id x) @ bytes16 (fq_element_id x) @ bytes16 (fq_instance_id x) @
       [of_nat (element_type_number (fq_element_type x)), 0]),
     of_bytes = (\<lambda>bs. \<lparr>fq_service_id = word16 (bs ! 0) (bs ! 1), fq_element_id = word16 (bs ! 2) (bs ! 3),
       fq_instance_id = word16 (bs ! 4) (bs ! 5),
       fq_element_type = (if bs ! 6 = 1 then EVENT else if bs ! 6 = 2 then FIELD else if bs ! 6 = 3 then METHOD else INVALID)\<rparr>)\<rparr>"

definition pid_bytes :: "pid_t layout" where
  "pid_bytes = \<lparr>sizeof = 4,
     to_bytes = (\<lambda>p. let w = word_of_int p :: u32 in bytes16 (ucast w) @ bytes16 (ucast (drop_bit 16 w))),
     of_bytes = (\<lambda>bs. sint (ucast (word16 (bs ! 0) (bs ! 1)) OR push_bit 16 (ucast (word16 (bs ! 2) (bs ! 3))) :: u32))\<rparr>"

definition little_endian :: event_layouts where
  "little_endian = \<lparr>element_layout = element_bytes, pid_layout = pid_bytes\<rparr>"

lemma word16_bytes16: "word16 (ucast w) (ucast (drop_bit 8 w)) = w" for w :: u16
  by (rule bit_word_eqI) (auto simp: word16_def bit_simps)

lemma word32_halves: "ucast (ucast w :: u16) OR push_bit 16 (ucast (ucast (drop_bit 16 w) :: u16)) = w" for w :: u32
  by (rule bit_word_eqI) (auto simp: bit_simps)

interpretation element_object: object_layout element_bytes "\<lambda>x. True"
proof
  show "of_bytes element_bytes (to_bytes element_bytes x) = x" for x
    by (cases "fq_element_type x")
      (simp_all add: element_bytes_def bytes16_def word16_bytes16 element_type_number_def)
qed (simp add: element_bytes_def bytes16_def)

interpretation pid_object: object_layout pid_bytes "\<lambda>p. - (2 ^ 31) \<le> p \<and> p < 2 ^ 31"
proof
  fix p :: pid_t assume "- (2 ^ 31) \<le> p \<and> p < 2 ^ 31"
  then show "of_bytes pid_bytes (to_bytes pid_bytes p) = p"
    by (simp add: pid_bytes_def bytes16_def word16_bytes16 word32_halves Let_def int_word_sint)
qed (simp add: pid_bytes_def bytes16_def Let_def)

subsection \<open>Every node is notified once\<close>

definition nodes_of :: "element_fq_id \<Rightarrow> (u64 \<rightharpoonup> pid_t list) \<Rightarrow> pid_t list" where
  "nodes_of event m = (case m (element_key event) of None \<Rightarrow> [] | Some ps \<Rightarrow> ps)"

lemma copy_loop_take:
  "length copied < NodeIdTmpBufferSize \<Longrightarrow> copy_loop ps copied =
     (copied @ take (NodeIdTmpBufferSize - length copied) ps, NodeIdTmpBufferSize - length copied < length ps)"
proof (induction ps copied rule: copy_loop.induct)
  case (2 p ps copied)
  show ?case
  proof (cases "Suc (length copied) = NodeIdTmpBufferSize")
    case True
    then have "NodeIdTmpBufferSize - length copied = 1" by linarith
    with True show ?thesis by (simp add: Let_def)
  next
    case False
    with 2 have "NodeIdTmpBufferSize - length copied = Suc (NodeIdTmpBufferSize - Suc (length copied))" by linarith
    with False 2 show ?thesis by (simp add: Let_def)
  qed
qed simp

lemma CopyNodeIdentifiers_take:
  "CopyNodeIdentifiers event m i =
     (take 20 (dropWhile (\<lambda>p. p < i) (nodes_of event m)), 20 < length (dropWhile (\<lambda>p. p < i) (nodes_of event m)))"
  by (simp add: CopyNodeIdentifiers_def nodes_of_def copy_loop_take NodeIdTmpBufferSize_def split: option.split)

lemma dropWhile_less_sorted:
  fixes ps :: "'a :: linorder list"
  assumes "sorted_wrt (<) ps"
  shows "set (dropWhile (\<lambda>p. p < i) ps) = {p \<in> set ps. i \<le> p}" "sorted_wrt (<) (dropWhile (\<lambda>p. p < i) ps)"
  using assms by (induction ps) (auto intro: order.trans less_imp_le)

lemma sorted_take_split:
  fixes ps :: "'a :: linorder list"
  assumes "sorted_wrt (<) ps" "n < length ps" "0 < n"
  shows "set ps = set (take n ps) \<union> {p \<in> set ps. last (take n ps) < p}"
    "p \<in> set (take n ps) \<Longrightarrow> p \<le> last (take n ps)"
proof -
  obtain k where k: "n = Suc k" using assms(3) by (cases n) auto
  have take: "take n ps = take k ps @ [ps ! k]" using assms(2) k by (simp add: take_Suc_conv_app_nth)
  have parts: "sorted_wrt (<) (take n ps @ drop n ps)" using assms(1) by simp
  then have above: "\<And>p. p \<in> set (drop n ps) \<Longrightarrow> last (take n ps) < p"
    using take unfolding sorted_wrt_append by auto
  show "p \<in> set (take n ps) \<Longrightarrow> p \<le> last (take n ps)"
    using parts take by (auto simp: sorted_wrt_append intro: less_imp_le)
  have "set ps = set (take n ps) \<union> set (drop n ps)" by (metis append_take_drop_id set_append)
  with above show "set ps = set (take n ps) \<union> {p \<in> set ps. last (take n ps) < p}" by blast
qed

lemma length_pos_imp_nonempty: "length xs = 20 \<Longrightarrow> xs \<noteq> []"
  by auto

text \<open>One round of the loop, in terms of the nodes it finds from the start on.\<close>

lemma NotifyEventRemote_loop_round:
  assumes "c < 255"
  shows "fst (NotifyEventRemote_loop event nodes c i) =
    (let all = dropWhile (\<lambda>p. p < i) (nodes_of event (nodes c)); ids = take 20 all
     in if 20 < length all then ids @ fst (NotifyEventRemote_loop event nodes (c + 1) (last ids + 1)) else all)"
  using assms by (subst NotifyEventRemote_loop.simps) (simp add: CopyNodeIdentifiers_take case_prod_beta Let_def)

lemma NotifyEventRemote_loop_sound:
  assumes "\<And>k. sorted_wrt (<) (nodes_of event (nodes k))"
  shows "sorted_wrt (<) (fst (NotifyEventRemote_loop event nodes c i)) \<and>
    (\<forall>p \<in> set (fst (NotifyEventRemote_loop event nodes c i)). i \<le> p \<and> (\<exists>k. p \<in> set (nodes_of event (nodes k))))"
proof (induction "255 - c" arbitrary: c i)
  case 0
  then show ?case by (subst (1 2) NotifyEventRemote_loop.simps) simp
next
  case (Suc d)
  let ?all = "dropWhile (\<lambda>p. p < i) (nodes_of event (nodes c))"
  note all = dropWhile_less_sorted [OF assms, of i c]
  have c: "c < 255" "d = 255 - (c + 1)" using Suc.hyps(2) by auto
  show ?case
  proof (cases "20 < length ?all")
    case True
    let ?ids = "take 20 ?all"
    let ?rest = "fst (NotifyEventRemote_loop event nodes (c + 1) (last ?ids + 1))"
    have ids: "sorted_wrt (<) ?ids" "set ?ids \<subseteq> set ?all" using all(2) by (auto simp: sorted_wrt_take dest: in_set_takeD)
    have low: "\<And>p. p \<in> set ?ids \<Longrightarrow> p \<le> last ?ids" using sorted_take_split(2) [OF all(2) True] by simp
    have "length ?ids = 20" using True by (simp only: length_take)
    then have "last ?ids \<in> set ?ids" by (intro last_in_set) (rule length_pos_imp_nonempty)
    then have "i \<le> last ?ids" using ids(2) all(1) by auto
    then show ?thesis
      using Suc.hyps(1) [OF c(2), of "last ?ids + 1"] True c(1) ids all(1) low
      by (simp add: NotifyEventRemote_loop_round Let_def sorted_wrt_append ball_Un) force
  next
    case False
    with c(1) all show ?thesis by (auto simp: NotifyEventRemote_loop_round Let_def)
  qed
qed

lemma NotifyEventRemote_loop_complete:
  assumes "\<And>k. sorted_wrt (<) (nodes_of event (nodes k))" "finite U" "\<And>k. set (nodes_of event (nodes k)) \<subseteq> U"
    and "card {q \<in> U. i \<le> q} \<le> 20 * (255 - c)" "i \<le> p" "\<And>k. p \<in> set (nodes_of event (nodes k))"
  shows "p \<in> set (fst (NotifyEventRemote_loop event nodes c i))"
  using assms(4,5)
proof (induction "255 - c" arbitrary: c i)
  case 0
  then have "{q \<in> U. i \<le> q} = {}" using assms(2) by simp
  then show ?case using assms(3,6) 0 by blast
next
  case (Suc d)
  let ?all = "dropWhile (\<lambda>p. p < i) (nodes_of event (nodes c))"
  note all = dropWhile_less_sorted [OF assms(1), of i c]
  have c: "c < 255" "d = 255 - (c + 1)" using Suc.hyps(2) by auto
  have p: "p \<in> set ?all" using all(1) Suc.prems(2) assms(6) by auto
  show ?case
  proof (cases "20 < length ?all")
    case True
    let ?ids = "take 20 ?all"
    note split = sorted_take_split [OF all(2) True]
    have "distinct ?ids" using all(2) by (simp add: sorted_wrt_take strict_sorted_iff)
    then have twenty: "card (set ?ids) = 20" using True by (simp add: distinct_card)
    have "length ?ids = 20" using True by (simp only: length_take)
    then have "last ?ids \<in> set ?ids" by (intro last_in_set) (rule length_pos_imp_nonempty)
    moreover have "\<And>q. q \<in> set ?ids \<Longrightarrow> q \<in> U \<and> i \<le> q"
      using all(1) assms(3) [of c] by (auto dest: in_set_takeD)
    ultimately have "i \<le> last ?ids" "set ?ids \<subseteq> {q \<in> U. i \<le> q}" by blast+
    then have "{q \<in> U. last ?ids + 1 \<le> q} \<union> set ?ids \<subseteq> {q \<in> U. i \<le> q}" by force
    moreover have "{q \<in> U. last ?ids + 1 \<le> q} \<inter> set ?ids = {}" using split(2) by force
    ultimately have "card {q \<in> U. last ?ids + 1 \<le> q} \<le> 20 * (255 - (c + 1))"
      using Suc.prems(1) twenty assms(2) c card_mono [of "{q \<in> U. i \<le> q}" "{q \<in> U. last ?ids + 1 \<le> q} \<union> set ?ids"]
      by (simp add: card_Un_disjoint)
    then show ?thesis
      using Suc.hyps(1) [OF c(2), of "last ?ids + 1"] split(1) p True c(1)
      by (auto simp: NotifyEventRemote_loop_round Let_def)
  next
    case False
    with c(1) p show ?thesis by (simp add: NotifyEventRemote_loop_round Let_def)
  qed
qed

lemma emit_simps [simp]:
  "cur_registration_no (emit x s) = cur_registration_no s" "self_pid (emit x s) = self_pid s"
  "event_update_handlers (emit x s) = event_update_handlers s"
  "handler_status_change_callbacks (emit x s) = handler_status_change_callbacks s"
  "event_update_interested_nodes (emit x s) = event_update_interested_nodes s"
  "event_update_remote_registrations (emit x s) = event_update_remote_registrations s"
  "effects (emit x s) = effects s @ [x]"
  by (simp_all add: emit_def)

lemma fold_emit: "fold (\<lambda>x. emit (f x)) xs s = s\<lparr>effects := effects s @ map f xs\<rparr>"
  by (induction xs arbitrary: s) (simp_all add: emit_def)

text \<open>
  C25. An event is announced to other processes completely and without repetition, although the set
  of interested processes may change between the rounds of the loop: the messages go to
  different processes, in ascending order, only to such that were interested in some round,
  and to all that were interested throughout, as long as no more than 5100 processes are
  involved: 255 rounds of 20.
\<close>

theorem NotifyEventRemote_each_once:
  assumes "\<And>k. sorted_wrt (<) (nodes_of event (nodes k))" "finite U" "card U \<le> 5100"
    and "\<And>k. set (nodes_of event (nodes k)) \<subseteq> U" "\<And>p. p \<in> U \<Longrightarrow> 0 \<le> p"
  shows "\<exists>ids. NotifyEventRemote abi nodes event s =
      s\<lparr>effects := effects s @ map (\<lambda>p. Sent p (SerializeToMessage (element_layout abi) 3 event)) ids\<rparr> \<and>
    sorted_wrt (<) ids \<and>
    (\<Inter>k. set (nodes_of event (nodes k))) \<subseteq> set ids \<and> set ids \<subseteq> (\<Union>k. set (nodes_of event (nodes k)))"
proof -
  let ?ids = "fst (NotifyEventRemote_loop event nodes 0 0)"
  have "{q \<in> U. 0 \<le> q} = U" using assms(5) by auto
  then have "p \<in> set ?ids" if "\<And>k. p \<in> set (nodes_of event (nodes k))" for p
    using NotifyEventRemote_loop_complete [OF assms(1,2,4), where c = 0 and i = 0 and p = p] assms(3-5) that by (simp add: subset_iff)
  then have "(\<Inter>k. set (nodes_of event (nodes k))) \<subseteq> set ?ids" by blast
  with NotifyEventRemote_loop_sound [OF assms(1), where c = 0 and i = 0] show ?thesis
    by (intro exI [of _ ?ids])
      (auto simp: NotifyEventRemote_def fold_emit message_type_number_def case_prod_beta Let_def)
qed

definition example_event :: element_fq_id where
  "example_event = ElementFqId 1 2 3 EVENT"

theorem NotifyEventRemote_each_once_witness:
  "\<exists>ids. NotifyEventRemote little_endian (\<lambda>k. [element_key example_event \<mapsto> [3, 7]]) example_event
      (MessagePassingServiceInstance kASIL_QM 20 0 :: (string, string) service_instance) =
    (MessagePassingServiceInstance kASIL_QM 20 0)\<lparr>effects :=
      map (\<lambda>p. Sent p (SerializeToMessage (element_layout little_endian) 3 example_event)) ids\<rparr> \<and>
    sorted_wrt (<) ids \<and> set ids = {3, 7}"
proof -
  let ?nodes = "\<lambda>k :: nat. [element_key example_event \<mapsto> [3, 7 :: pid_t]]"
  have nodes: "nodes_of example_event (?nodes k) = [3, 7]" for k by (simp add: nodes_of_def)
  let ?s = "MessagePassingServiceInstance kASIL_QM 20 0 :: (string, string) service_instance"
  have pos: "0 \<le> p" if "p \<in> {3, 7}" for p :: pid_t using that by auto
  from NotifyEventRemote_each_once [of example_event ?nodes "{3, 7}" little_endian ?s, unfolded nodes, OF _ _ _ _ pos]
  obtain ids where ids: "NotifyEventRemote little_endian ?nodes example_event ?s =
      ?s\<lparr>effects := effects ?s @ map (\<lambda>p. Sent p (SerializeToMessage (element_layout little_endian) 3 example_event)) ids\<rparr>"
    "sorted_wrt (<) ids" "{3, 7} \<subseteq> set ids" "set ids \<subseteq> {3, 7}" by auto
  have "effects ?s = []" by (simp add: MessagePassingServiceInstance_def)
  with ids show ?thesis by (intro exI [of _ ids]) auto
qed

subsection \<open>Handlers and their numbers\<close>

definition handlers_of :: "element_fq_id \<Rightarrow> ('h, 'b) service_instance \<Rightarrow> 'h registered_notification_handler list" where
  "handlers_of event s = (case event_update_handlers s (element_key event) of None \<Rightarrow> [] | Some hs \<Rightarrow> hs)"

lemma has_local_handlers_iff: "has_local_handlers event s \<longleftrightarrow> handlers_of event s \<noteq> []"
  by (simp add: has_local_handlers_def handlers_of_def split: option.split)

lemma has_remote_handlers_iff:
  "has_remote_handlers event s \<longleftrightarrow> nodes_of event (event_update_interested_nodes s) \<noteq> []"
  by (simp add: has_remote_handlers_def nodes_of_def split: option.split)

text \<open>On ascending numbers halving finds what a search from the front finds.\<close>

lemma lower_bound_0 [simp]: "lower_bound hs v first 0 = first"
  by (simp add: lower_bound.simps)

lemma lower_bound_halve:
  "len \<noteq> 0 \<Longrightarrow> lower_bound hs v first len =
     (if register_no (hs ! (first + len div 2)) < v then lower_bound hs v (first + len div 2 + 1) (len - len div 2 - 1)
      else lower_bound hs v first (len div 2))"
  by (subst lower_bound.simps) (simp add: Let_def)

lemma lower_bound_bounds:
  assumes "sorted_wrt (\<lambda>x y. register_no x < register_no y) hs" "first + len \<le> length hs"
    and "\<forall>k < first. register_no (hs ! k) < v" "\<forall>k. first + len \<le> k \<and> k < length hs \<longrightarrow> \<not> register_no (hs ! k) < v"
  shows "lower_bound hs v first len \<le> length hs \<and> (\<forall>k < lower_bound hs v first len. register_no (hs ! k) < v) \<and>
    (\<forall>k. lower_bound hs v first len \<le> k \<and> k < length hs \<longrightarrow> \<not> register_no (hs ! k) < v)"
  using assms
proof (induction hs v first len rule: lower_bound.induct)
  case (1 hs v first len)
  let ?m = "first + len div 2"
  have mono: "register_no (hs ! j) < register_no (hs ! k)" if "j < k" "k < length hs" for j k
    using sorted_wrt_nth_less [OF "1.prems"(1) that(1)] that(2) by simp
  show ?case
  proof (cases "len = 0")
    case True
    with "1.prems" show ?thesis by simp
  next
    case False
    then have m: "?m < length hs" using "1.prems"(2) by linarith
    show ?thesis
    proof (cases "register_no (hs ! ?m) < v")
      case True
      have below: "\<forall>k < ?m + 1. register_no (hs ! k) < v"
      proof (intro allI impI)
        fix k assume "k < ?m + 1"
        then consider "k = ?m" | "k < ?m" by linarith
        then show "register_no (hs ! k) < v"
          using True mono [OF _ m, of k] by cases (simp, metis order.strict_trans)
      qed
      have same: "?m + 1 + (len - len div 2 - 1) = first + len" using False by simp
      have "lower_bound hs v first len = lower_bound hs v (?m + 1) (len - len div 2 - 1)"
        using True by (simp only: lower_bound_halve [OF False] if_True)
      then show ?thesis
        using "1.IH"(1) [OF False refl refl True "1.prems"(1) _ below] "1.prems"(2,4) same by simp
    next
      case upper: False
      have above: "\<forall>k. ?m \<le> k \<and> k < length hs \<longrightarrow> \<not> register_no (hs ! k) < v"
      proof (intro allI impI)
        fix k assume "?m \<le> k \<and> k < length hs"
        then consider "k = ?m" | "?m < k" "k < length hs" by linarith
        then show "\<not> register_no (hs ! k) < v"
          using upper mono [of ?m k] by cases (simp, metis order.strict_trans)
      qed
      have "lower_bound hs v first len = lower_bound hs v first (len div 2)"
        using upper by (simp only: lower_bound_halve [OF False] if_False)
      then show ?thesis
        using "1.IH"(2) [OF False refl refl upper "1.prems"(1) _ "1.prems"(3) above] m by simp
    qed
  qed
qed

lemma lower_bound_erases:
  assumes "sorted_wrt (\<lambda>x y. register_no x < register_no y) hs" "k = lower_bound hs v 0 (length hs)"
  shows "(if k < length hs \<and> register_no (hs ! k) = v then take k hs @ drop (Suc k) hs else hs) =
    filter (\<lambda>h. register_no h \<noteq> v) hs"
proof -
  let ?P = "\<lambda>h. register_no h \<noteq> v"
  have "k \<le> length hs \<and> (\<forall>j < k. register_no (hs ! j) < v) \<and> (\<forall>j. k \<le> j \<and> j < length hs \<longrightarrow> \<not> register_no (hs ! j) < v)"
    unfolding assms(2) by (rule lower_bound_bounds [OF assms(1)]) auto
  then have k: "k \<le> length hs" "\<And>j. j < k \<Longrightarrow> register_no (hs ! j) < v"
    "k < length hs \<Longrightarrow> \<not> register_no (hs ! k) < v" by blast+
  have front: "filter ?P (take k hs) = take k hs"
  proof (rule filter_True, rule ballI)
    fix h assume "h \<in> set (take k hs)"
    then obtain j where "j < k" "h = hs ! j" using k(1) by (auto simp: in_set_conv_nth)
    with k(2) [of j] show "?P h" by simp
  qed
  show ?thesis
  proof (cases "k < length hs")
    case True
    note hs = id_take_nth_drop [OF True]
    have "sorted_wrt (\<lambda>x y. register_no x < register_no y) (take k hs @ hs ! k # drop (Suc k) hs)"
      unfolding hs [symmetric] by (rule assms(1))
    then have after: "\<forall>h \<in> set (drop (Suc k) hs). register_no (hs ! k) < register_no h"
      by (simp add: sorted_wrt_append)
    have rear: "filter ?P (drop (Suc k) hs) = drop (Suc k) hs"
    proof (rule filter_True, rule ballI)
      fix h assume "h \<in> set (drop (Suc k) hs)"
      with after have "register_no (hs ! k) < register_no h" by blast
      with k(3) [OF True] show "?P h" by auto
    qed
    have "filter ?P hs = filter ?P (take k hs) @ filter ?P (hs ! k # drop (Suc k) hs)"
      by (subst hs, rule filter_append)
    also have "\<dots> = (if register_no (hs ! k) = v then take k hs @ drop (Suc k) hs else take k hs @ hs ! k # drop (Suc k) hs)"
      by (simp only: front filter.simps rear not_not if_False if_True split: if_split) simp
    finally show ?thesis using True hs [symmetric] by (simp only: simp_thms split: if_split)
  next
    case False
    with front k(1) show ?thesis by simp
  qed
qed

subsection \<open>What each operation does to the state\<close>

definition status_effect :: "bool \<Rightarrow> element_fq_id \<Rightarrow> bool \<Rightarrow> (u64 \<rightharpoonup> 'b) \<Rightarrow> ('h, 'b) effect list" where
  "status_effect changed event status callbacks =
     (if changed then (case callbacks (element_key event) of None \<Rightarrow> [] | Some b \<Rightarrow> [Status_Changed b status]) else [])"

lemma call_status_change_eq:
  "call_status_change changed event status s =
     s\<lparr>effects := effects s @ status_effect changed event status (handler_status_change_callbacks s)\<rparr>"
  by (simp add: call_status_change_def status_effect_def emit_def split: option.split)

definition remote_registered :: "pid_t \<Rightarrow> node_counter option \<Rightarrow> node_counter" where
  "remote_registered target r =
     (case r of
        None \<Rightarrow> \<lparr>counter_node_id = target, node_counter = 1\<rparr>
      | Some c \<Rightarrow>
          if counter_node_id c \<noteq> target then c\<lparr>counter_node_id := target, node_counter := 1\<rparr>
          else c\<lparr>node_counter := node_counter c + 1\<rparr>)"

lemma RegisterEventNotificationRemote_eq:
  "RegisterEventNotificationRemote abi event target s =
     (let c = remote_registered target (event_update_remote_registrations s (element_key event))
      in s\<lparr>event_update_remote_registrations := (event_update_remote_registrations s)(element_key event \<mapsto> c),
           effects := effects s @ (if node_counter c = 1
             then [Sent target (SerializeToMessage (element_layout abi) 1 event)] else [])\<rparr>)"
  by (auto simp: RegisterEventNotificationRemote_def remote_registered_def SendRegisterEventNotificationMessage_def
      emit_def message_type_number_def Let_def split: option.split)

lemma RegisterEventNotification_eq:
  "RegisterEventNotification abi event h target s =
     (let c = remote_registered target (event_update_remote_registrations s (element_key event)); remote = (target \<noteq> self_pid s)
      in (cur_registration_no s,
          s\<lparr>cur_registration_no := cur_registration_no s + 1,
            event_update_handlers := (event_update_handlers s)(element_key event \<mapsto>
              handlers_of event s @ [\<lparr>notification_handler = h, register_no = cur_registration_no s\<rparr>]),
            event_update_remote_registrations := (if remote then (event_update_remote_registrations s)(element_key event \<mapsto> c)
              else event_update_remote_registrations s),
            effects := effects s @
              (if remote \<and> node_counter c = 1 then [Sent target (SerializeToMessage (element_layout abi) 1 event)] else []) @
              status_effect (\<not> has_local_handlers event s \<and> \<not> has_remote_handlers event s) event True
                (handler_status_change_callbacks s)\<rparr>))"
  by (simp add: RegisterEventNotification_def RegisterEventNotificationRemote_eq call_status_change_eq handlers_of_def
      has_remote_handlers_def Let_def split: option.split)

lemma UnregisterEventNotificationRemote_eq:
  "UnregisterEventNotificationRemote abi event no target s =
     (case event_update_remote_registrations s (element_key event) of
        None \<Rightarrow> Some s
      | Some c \<Rightarrow>
          if node_counter c = 0 then None
          else if counter_node_id c \<noteq> target then Some s
          else Some (s\<lparr>event_update_remote_registrations := (event_update_remote_registrations s)(element_key event :=
                  if node_counter c = 1 then None else Some (c\<lparr>node_counter := node_counter c - 1\<rparr>)),
                effects := effects s @ (if node_counter c = 1
                  then [Sent target (SerializeToMessage (element_layout abi) 2 event)] else [])\<rparr>))"
  by (auto simp: UnregisterEventNotificationRemote_def assert_prd_def emit_def message_type_number_def Let_def
      word_gt_0 split: option.split)

lemma UnregisterEventNotification_eq:
  assumes "sorted_wrt (\<lambda>x y. register_no x < register_no y) (handlers_of event s)"
  shows "UnregisterEventNotification abi event no target s =
    (if no \<in> register_no ` set (handlers_of event s) then
       (let hs = filter (\<lambda>h. register_no h \<noteq> no) (handlers_of event s);
            s' = s\<lparr>event_update_handlers := (event_update_handlers s)(element_key event \<mapsto> hs)\<rparr>
        in map_option (call_status_change (hs = [] \<and> \<not> has_remote_handlers event s) event False)
             (if target \<noteq> self_pid s then UnregisterEventNotificationRemote abi event no target s' else Some s'))
     else Some s)"
proof -
  let ?hs = "handlers_of event s" and ?k = "lower_bound (handlers_of event s) no 0 (length (handlers_of event s))"
  note erased = lower_bound_erases [OF assms refl, of no]
  have found: "?k < length ?hs \<and> register_no (?hs ! ?k) = no \<longleftrightarrow> no \<in> register_no ` set ?hs"
  proof
    assume "no \<in> register_no ` set ?hs"
    then have "filter (\<lambda>h. register_no h \<noteq> no) ?hs \<noteq> ?hs" by (auto simp: filter_id_conv)
    then show "?k < length ?hs \<and> register_no (?hs ! ?k) = no" using erased by (metis (no_types, lifting))
  qed (auto intro!: image_eqI [of _ _ "?hs ! ?k"])
  show ?thesis
  proof (cases "event_update_handlers s (element_key event)")
    case None
    then show ?thesis by (simp add: UnregisterEventNotification_def handlers_of_def)
  next
    case (Some hs)
    then have hs: "handlers_of event s = hs" by (simp add: handlers_of_def)
    show ?thesis
    proof (cases "no \<in> register_no ` set hs")
      case True
      note c = iffD2 [OF found [unfolded hs] True]
      have e: "take (lower_bound hs no 0 (length hs)) hs @ drop (lower_bound hs no 0 (length hs) + 1) hs =
        filter (\<lambda>h. register_no h \<noteq> no) hs"
        using erased [unfolded hs] unfolding if_P [OF c] Suc_eq_plus1 .
      show ?thesis
        unfolding UnregisterEventNotification_def hs Some option.case Let_def if_P [OF c] if_P [OF True] e
        by (simp add: has_remote_handlers_def map_conv_bind_option comp_def)
    next
      case False
      then have "\<not> (lower_bound hs no 0 (length hs) < length hs \<and> register_no (hs ! lower_bound hs no 0 (length hs)) = no)"
        using found [unfolded hs] by blast
      with False Some show ?thesis
        unfolding UnregisterEventNotification_def hs Some option.case Let_def by (simp only: if_False)
    qed
  qed
qed
end
