(* ===== verification/Notification_Protocol.thy ===== *)
theory Notification_Protocol
  imports Event_Notification
begin

text \<open>
  What the operations of \<open>Event_Notification\<close> guarantee over whole runs: inside one process, and
  between the process that provides an event and one that receives it.
\<close>

subsection \<open>Runs of one process\<close>

datatype ('h, 'b) instance_call =
    Register_Call element_fq_id 'h pid_t
  | Reregister_Call element_fq_id pid_t
  | Unregister_Call element_fq_id u32 pid_t
  | Message_Call pid_t "u8 list"
  | Notify_Call element_fq_id
  | Local_Notify_Call element_fq_id
  | Outdated_Call pid_t pid_t
  | Callback_Call element_fq_id 'b
  | Remove_Callback_Call element_fq_id

fun perform ::
  "event_layouts \<Rightarrow> ('h \<Rightarrow> bool) \<Rightarrow> ('h, 'b) instance_call \<Rightarrow> ('h, 'b) service_instance \<Rightarrow> ('h, 'b) service_instance option" where
  "perform abi alive (Register_Call event h target) s = Some (snd (RegisterEventNotification abi event h target s))"
| "perform abi alive (Reregister_Call event target) s = Some (ReregisterEventNotification abi event target s)"
| "perform abi alive (Unregister_Call event no target) s = UnregisterEventNotification abi event no target s"
| "perform abi alive (Message_Call sender message) s = Some (MessageCallback abi alive sender message s)"
| "perform abi alive (Notify_Call event) s = Some (NotifyEvent abi (\<lambda>k. event_update_interested_nodes s) event s)"
| "perform abi alive (Local_Notify_Call event) s = Some (snd (NotifyEventLocally alive event s))"
| "perform abi alive (Outdated_Call outdated target) s = Some (NotifyOutdatedNodeId abi outdated target s)"
| "perform abi alive (Callback_Call event callback) s = Some (RegisterEventNotificationExistenceChangedCallback event callback s)"
| "perform abi alive (Remove_Callback_Call event) s = Some (UnregisterEventNotificationExistenceChangedCallback event s)"

text \<open>The counters are machine words; calls that would let one wrap around are left out.\<close>

definition counter_room :: "element_fq_id \<Rightarrow> ('h, 'b) service_instance \<Rightarrow> bool" where
  "counter_room event s \<longleftrightarrow>
     (case event_update_remote_registrations s (element_key event) of None \<Rightarrow> True | Some c \<Rightarrow> node_counter c < 0xFFFF)"

fun within_limits :: "('h, 'b) instance_call \<Rightarrow> ('h, 'b) service_instance \<Rightarrow> bool" where
  "within_limits (Register_Call event h target) s \<longleftrightarrow> cur_registration_no s < 0xFFFFFFFF \<and> counter_room event s"
| "within_limits (Reregister_Call event target) s \<longleftrightarrow> counter_room event s"
| "within_limits c s \<longleftrightarrow> True"

definition instance_ok :: "('h, 'b) service_instance \<Rightarrow> bool" where
  "instance_ok s \<longleftrightarrow>
     (\<forall>k hs. event_update_handlers s k = Some hs \<longrightarrow>
        sorted_wrt (\<lambda>x y. register_no x < register_no y) hs \<and> (\<forall>h \<in> set hs. register_no h < cur_registration_no s)) \<and>
     (\<forall>k ps. event_update_interested_nodes s k = Some ps \<longrightarrow> sorted_wrt (<) ps) \<and>
     (\<forall>k c. event_update_remote_registrations s k = Some c \<longrightarrow> node_counter c \<noteq> 0)"

lemma instance_ok_handlers: "instance_ok s \<Longrightarrow> sorted_wrt (\<lambda>x y. register_no x < register_no y) (handlers_of event s)"
  by (simp add: instance_ok_def handlers_of_def split: option.split)

lemma instance_ok_initial: "instance_ok (MessagePassingServiceInstance level pid uid)"
  by (simp add: instance_ok_def MessagePassingServiceInstance_def)

text \<open>Notifying and handling messages leave the handlers and counters alone.\<close>

lemma notify_state:
  "snd (NotifyEventLocally alive event s) = s\<lparr>effects := effects s @ map Handler_Called
     (filter alive (map notification_handler (take kMaxReceiveHandlersPerEvent (handlers_of event s))))\<rparr>"
  "NotifyEventRemote abi nodes event s = s\<lparr>effects := effects s @
     map (\<lambda>p. Sent p (SerializeToMessage (element_layout abi) 3 event)) (fst (NotifyEventRemote_loop event nodes 0 0))\<rparr>"
  by (simp_all add: NotifyEventLocally_def NotifyEventRemote_def handlers_of_def fold_emit message_type_number_def
      case_prod_beta Let_def split: option.split)

definition nodes_after :: "event_layouts \<Rightarrow> pid_t \<Rightarrow> u8 list \<Rightarrow> (u64 \<rightharpoonup> pid_t list) \<Rightarrow> (u64 \<rightharpoonup> pid_t list)" where
  "nodes_after abi sender message m =
     (case message of
        [] \<Rightarrow> m
      | t # payload \<Rightarrow>
          if t = 1 then
            (case DeserializeFromPayload (element_layout abi) payload of
               None \<Rightarrow> m
             | Some event \<Rightarrow> m(element_key event \<mapsto> set_insert sender (nodes_of event m)))
          else if t = 2 then
            (case DeserializeFromPayload (element_layout abi) payload of
               None \<Rightarrow> m
             | Some event \<Rightarrow> m(element_key event := map_option (remove1 sender) (m (element_key event))))
          else if t = 4 then
            (case DeserializeFromPayload (pid_layout abi) payload of
               None \<Rightarrow> m
             | Some p \<Rightarrow> map_option (remove1 p) \<circ> m)
          else m)"

lemma MessageCallback_state:
  "event_update_handlers (MessageCallback abi alive sender message s) = event_update_handlers s"
  "cur_registration_no (MessageCallback abi alive sender message s) = cur_registration_no s"
  "event_update_remote_registrations (MessageCallback abi alive sender message s) = event_update_remote_registrations s"
  "handler_status_change_callbacks (MessageCallback abi alive sender message s) = handler_status_change_callbacks s"
  "self_pid (MessageCallback abi alive sender message s) = self_pid s"
  "event_update_interested_nodes (MessageCallback abi alive sender message s) =
     nodes_after abi sender message (event_update_interested_nodes s)"
  by (simp_all add: MessageCallback_def HandleRegisterNotificationMsg_def HandleUnregisterNotificationMsg_def
      HandleNotifyEventMsg_def HandleOutdatedNodeIdMsg_def call_status_change_eq notify_state message_type_number_def
      nodes_after_def nodes_of_def case_prod_beta Let_def fun_upd_idem split: list.split option.split)

lemma set_insert_sorted: "sorted_wrt (<) ps \<Longrightarrow> sorted_wrt (<) (set_insert p ps)"
  by (auto simp: set_insert_def strict_sorted_iff distinct_insort sorted_insort)

lemma set_insert_simps [simp]: "set (set_insert p ps) = insert p (set ps)" "set_insert p ps \<noteq> []"
  by (auto simp: set_insert_def set_insort_key)

lemma nodes_after_sorted:
  assumes "\<And>k ps. m k = Some ps \<Longrightarrow> sorted_wrt (<) ps" "nodes_after abi sender message m k = Some ps"
  shows "sorted_wrt (<) ps"
proof -
  have "sorted_wrt (<) (nodes_of event m)" for event using assms(1) by (simp add: nodes_of_def split: option.split)
  moreover have "sorted_wrt (<) (remove1 p qs)" if "sorted_wrt (<) qs" for p and qs :: "pid_t list"
    using that by (simp add: strict_sorted_iff sorted_remove1)
  ultimately show ?thesis
    using assms by (auto simp: nodes_after_def set_insert_sorted split: list.splits option.splits if_splits)
qed

lemma ReregisterEventNotification_state:
  "event_update_handlers (ReregisterEventNotification abi event target s) = event_update_handlers s"
  "event_update_interested_nodes (ReregisterEventNotification abi event target s) = event_update_interested_nodes s"
  "handler_status_change_callbacks (ReregisterEventNotification abi event target s) = handler_status_change_callbacks s"
  by (simp_all add: ReregisterEventNotification_def SendRegisterEventNotificationMessage_def split: option.split)

lemma ReregisterEventNotification_effects:
  "effects (ReregisterEventNotification abi event target s) = effects s \<or>
   effects (ReregisterEventNotification abi event target s) =
     effects s @ [Sent target (SerializeToMessage (element_layout abi) 1 event)]"
  by (simp add: ReregisterEventNotification_def SendRegisterEventNotificationMessage_def message_type_number_def
      split: option.split)

lemma notification_state:
  "event_update_handlers (NotifyEvent abi nodes event s) = event_update_handlers s"
  "event_update_handlers (NotifyOutdatedNodeId abi p target s) = event_update_handlers s"
  "event_update_handlers (RegisterEventNotificationExistenceChangedCallback event b s) = event_update_handlers s"
  "event_update_handlers (UnregisterEventNotificationExistenceChangedCallback event s) = event_update_handlers s"
  by (simp_all add: NotifyEvent_def notify_state NotifyOutdatedNodeId_def call_status_change_eq Let_def
      RegisterEventNotificationExistenceChangedCallback_def UnregisterEventNotificationExistenceChangedCallback_def)

lemmas unchanged_handlers = ReregisterEventNotification_state MessageCallback_state notification_state notify_state

lemma instance_ok_register:
  assumes "instance_ok s" "cur_registration_no s < 0xFFFFFFFF" "counter_room event s"
  shows "instance_ok (snd (RegisterEventNotification abi event h target s))"
proof -
  have next_no: "cur_registration_no s < cur_registration_no s + 1"
    using assms(2) by (auto simp: word_less_nat_alt unat_word_ariths)
  have "node_counter (remote_registered target (event_update_remote_registrations s (element_key event))) \<noteq> 0"
    using assms(3) by (auto simp: remote_registered_def counter_room_def word_less_nat_alt unat_eq_zero [symmetric]
        unat_word_ariths simp del: unat_eq_zero split: option.splits)
  then show ?thesis
    using assms(1) order.strict_trans [OF _ next_no] next_no
    by (auto simp: RegisterEventNotification_eq instance_ok_def handlers_of_def Let_def sorted_wrt_append split: option.splits)
qed

lemma instance_ok_reregister:
  assumes "instance_ok s" "counter_room event s"
  shows "instance_ok (ReregisterEventNotification abi event target s)"
proof -
  have "node_counter c + 1 \<noteq> 0" if "event_update_remote_registrations s (element_key event) = Some c" for c
    using assms(2) that by (auto simp: counter_room_def word_less_nat_alt unat_eq_zero [symmetric] unat_word_ariths
        simp del: unat_eq_zero)
  with assms(1) show ?thesis
    by (auto simp: ReregisterEventNotification_def instance_ok_def SendRegisterEventNotificationMessage_def
        split: option.split)
qed

lemma instance_ok_unregister:
  assumes "instance_ok s"
  shows "\<exists>s'. UnregisterEventNotification abi event no target s = Some s' \<and> instance_ok s'"
proof -
  have "\<forall>h \<in> set (handlers_of event s). register_no h < cur_registration_no s"
    using assms by (cases "event_update_handlers s (element_key event)") (auto simp: instance_ok_def handlers_of_def)
  with assms instance_ok_handlers [OF assms, of event] show ?thesis
    by (auto simp: UnregisterEventNotification_eq UnregisterEventNotificationRemote_eq
        call_status_change_eq Let_def instance_ok_def sorted_wrt_filter split: option.splits)
qed

lemma instance_ok_perform:
  assumes "instance_ok s" "within_limits c s"
  shows "\<exists>s'. perform abi alive c s = Some s' \<and> instance_ok s'"
proof (cases c)
  case (Message_Call sender message)
  with assms(1) show ?thesis by (auto simp: instance_ok_def MessageCallback_state dest: nodes_after_sorted [rotated])
qed (use assms in \<open>auto intro: instance_ok_register instance_ok_reregister instance_ok_unregister\<close>,
    auto simp: instance_ok_def NotifyEvent_def notify_state NotifyOutdatedNodeId_def call_status_change_eq
      RegisterEventNotificationExistenceChangedCallback_def UnregisterEventNotificationExistenceChangedCallback_def Let_def)

inductive reachable_instance :: "event_layouts \<Rightarrow> ('h \<Rightarrow> bool) \<Rightarrow> ('h, 'b) service_instance \<Rightarrow> bool"
  for abi alive where
  initial: "reachable_instance abi alive (MessagePassingServiceInstance level pid uid)"
| call: "reachable_instance abi alive s \<Longrightarrow> within_limits c s \<Longrightarrow> perform abi alive c s = Some s' \<Longrightarrow>
    reachable_instance abi alive s'"

lemma reachable_instance_ok: "reachable_instance abi alive s \<Longrightarrow> instance_ok s"
proof (induction rule: reachable_instance.induct)
  case (call s c s')
  then show ?case using instance_ok_perform [of s c abi alive] by auto
qed (rule instance_ok_initial)

text \<open>The specification: per event, the list of the handlers with their numbers.\<close>

fun handlers_after :: "('h, 'b) instance_call \<Rightarrow> u32 \<Rightarrow> element_fq_id \<Rightarrow>
    'h registered_notification_handler list \<Rightarrow> 'h registered_notification_handler list" where
  "handlers_after (Register_Call event' h target) no event hs =
     (if ElementFqId_equal event event' then hs @ [\<lparr>notification_handler = h, register_no = no\<rparr>] else hs)"
| "handlers_after (Unregister_Call event' no' target) no event hs =
     (if ElementFqId_equal event event' then filter (\<lambda>h. register_no h \<noteq> no') hs else hs)"
| "handlers_after c no event hs = hs"

lemma element_key_eq_iff: "element_key a = element_key b \<longleftrightarrow> ElementFqId_equal a b"
  by (rule ElementFqId_hash_key_inject)

lemma handlers_of_perform:
  assumes "instance_ok s" "perform abi alive c s = Some s'"
  shows "handlers_of event s' = handlers_after c (cur_registration_no s) event (handlers_of event s)"
proof (cases c)
  case (Unregister_Call event' no target)
  note eq = UnregisterEventNotification_eq [OF instance_ok_handlers [OF assms(1), of event'], of abi no target]
  have unchanged: "filter (\<lambda>h. register_no h \<noteq> no) (handlers_of event' s) = handlers_of event' s"
    if "no \<notin> register_no ` set (handlers_of event' s)" using that by (auto simp: filter_id_conv)
  from assms(2) Unregister_Call
  have "event_update_handlers s' = (if no \<in> register_no ` set (handlers_of event' s)
      then (event_update_handlers s)(element_key event' \<mapsto> filter (\<lambda>h. register_no h \<noteq> no) (handlers_of event' s))
      else event_update_handlers s)"
    by (auto simp: eq UnregisterEventNotificationRemote_eq call_status_change_eq Let_def split: if_splits option.splits)
  moreover have "handlers_of event s = handlers_of event' s" if "ElementFqId_equal event event'"
    using that by (simp add: handlers_of_def element_key_eq_iff [symmetric])
  ultimately show ?thesis using Unregister_Call unchanged
    by (auto simp: handlers_of_def [of _ s'] element_key_eq_iff) (simp_all add: handlers_of_def)
next
  case (Register_Call event' h target)
  moreover have "handlers_of event s = handlers_of event' s" if "ElementFqId_equal event event'"
    using that by (simp add: handlers_of_def element_key_eq_iff [symmetric])
  ultimately show ?thesis
    using assms(2) by (auto simp: RegisterEventNotification_eq Let_def handlers_of_def [of _ s'] element_key_eq_iff)
      (simp_all add: handlers_of_def)
qed (use assms(2) in \<open>auto simp: handlers_of_def unchanged_handlers\<close>)

text \<open>
  C24. Registering receive handlers behaves as its specification, a list per event: in every state
  that a process reaches, each call returns, a registration appends the handler under a new
  number, an unregistration removes the handler with the given number and no other, although
  it looks it up by halving, and no other call, and no message from another process, changes
  the handlers. The numbers stay unique. This holds until the 32-bit number or the 16-bit
  counter of a remote registration would wrap around.
\<close>

theorem registrations_refine_lists:
  assumes "reachable_instance abi alive s" "within_limits c s"
  shows "\<exists>s'. perform abi alive c s = Some s' \<and> reachable_instance abi alive s' \<and>
    (\<forall>event. handlers_of event s' = handlers_after c (cur_registration_no s) event (handlers_of event s) \<and>
      distinct (map register_no (handlers_of event s')))"
proof -
  note ok = reachable_instance_ok [OF assms(1)]
  obtain s' where s': "perform abi alive c s = Some s'" "instance_ok s'"
    using instance_ok_perform [OF ok assms(2)] by blast
  have "distinct (map register_no (handlers_of event s'))" for event
    using instance_ok_handlers [OF s'(2), of event] strict_sorted_iff [of "map register_no (handlers_of event s')"] by (simp add: sorted_wrt_map)
  with s'(1) reachable_instance.call [OF assms s'(1)] handlers_of_perform [OF ok s'(1)] show ?thesis by blast
qed

theorem registrations_refine_lists_witness:
  "\<exists>s'. perform little_endian (\<lambda>h. True) (Register_Call example_event ''handler'' 20)
      (MessagePassingServiceInstance kASIL_QM 10 0 :: (string, string) service_instance) = Some s' \<and>
    handlers_of example_event s' = [\<lparr>notification_handler = ''handler'', register_no = 0\<rparr>]"
proof -
  let ?s = "MessagePassingServiceInstance kASIL_QM 10 0 :: (string, string) service_instance"
  have "within_limits (Register_Call example_event ''handler'' 20) ?s"
    by (simp add: MessagePassingServiceInstance_def counter_room_def)
  from registrations_refine_lists [OF reachable_instance.initial this, of little_endian "\<lambda>h. True"]
  obtain s' where "perform little_endian (\<lambda>h. True) (Register_Call example_event ''handler'' 20) ?s = Some s'"
    "handlers_of example_event s' =
      handlers_after (Register_Call example_event ''handler'' 20 :: (string, string) instance_call)
        (cur_registration_no ?s) example_event (handlers_of example_event ?s)" by blast
  then show ?thesis by (simp add: MessagePassingServiceInstance_def handlers_of_def ElementFqId_equal_def)
qed

subsection \<open>Telling the provider of an event whether anybody listens\<close>

fun statuses :: "'b \<Rightarrow> ('h, 'b) effect list \<Rightarrow> bool list" where
  "statuses b [] = []"
| "statuses b (Status_Changed b' x # es) = (if b' = b then x # statuses b es else statuses b es)"
| "statuses b (e # es) = statuses b es"

text \<open>What the callback was told last; at the beginning that there are no handlers.\<close>

definition last_status :: "'b \<Rightarrow> ('h, 'b) effect list \<Rightarrow> bool" where
  "last_status b es = (statuses b es \<noteq> [] \<and> last (statuses b es))"

definition has_handlers :: "element_fq_id \<Rightarrow> ('h, 'b) service_instance \<Rightarrow> bool" where
  "has_handlers event s \<longleftrightarrow> has_local_handlers event s \<or> has_remote_handlers event s"

definition fresh_callback :: "'b \<Rightarrow> ('h, 'b) service_instance \<Rightarrow> bool" where
  "fresh_callback b s \<longleftrightarrow> b \<notin> ran (handler_status_change_callbacks s) \<and> statuses b (effects s) = []"

text \<open>A callback belongs to one event. Messages about outdated processes are left out.\<close>

fun status_call :: "('h, 'b) instance_call \<Rightarrow> ('h, 'b) service_instance \<Rightarrow> bool" where
  "status_call (Callback_Call event b) s \<longleftrightarrow> fresh_callback b s"
| "status_call (Message_Call sender (t # payload)) s \<longleftrightarrow> t \<noteq> message_type_number kOutdatedNodeId"
| "status_call c s \<longleftrightarrow> within_limits c s"

inductive status_run :: "event_layouts \<Rightarrow> ('h \<Rightarrow> bool) \<Rightarrow> ('h, 'b) service_instance \<Rightarrow> bool" for abi alive where
  initial: "status_run abi alive (MessagePassingServiceInstance level pid uid)"
| call: "status_run abi alive s \<Longrightarrow> status_call c s \<Longrightarrow> perform abi alive c s = Some s' \<Longrightarrow> status_run abi alive s'"

lemma statuses_append [simp]: "statuses b (es @ es') = statuses b es @ statuses b es'"
  by (induction b es rule: statuses.induct) simp_all

lemma statuses_calls [simp]:
  "statuses b (map (\<lambda>p. Sent p m) ps) = []" "statuses b (map Handler_Called hs) = []"
  by (induction ps, simp_all, induction hs, simp_all)

lemma statuses_status_effect [simp]:
  "statuses b (status_effect changed event x callbacks) =
     (if changed \<and> callbacks (element_key event) = Some b then [x] else [])"
  by (simp add: status_effect_def split: option.split)

text \<open>No callback is used for two events, and each one was told the truth last.\<close>

definition callbacks_apart :: "(u64 \<rightharpoonup> 'b) \<Rightarrow> bool" where
  "callbacks_apart m \<longleftrightarrow> (\<forall>k k' b. m k = Some b \<longrightarrow> m k' = Some b \<longrightarrow> k = k')"

definition status_ok :: "('h, 'b) service_instance \<Rightarrow> bool" where
  "status_ok s \<longleftrightarrow> instance_ok s \<and> callbacks_apart (handler_status_change_callbacks s) \<and>
     (\<forall>event b. handler_status_change_callbacks s (element_key event) = Some b \<longrightarrow>
        last_status b (effects s) = has_handlers event s)"

lemma status_ok_step:
  assumes "status_ok s" "instance_ok s'" "handler_status_change_callbacks s' = handler_status_change_callbacks s"
    and "effects s' = effects s @ es"
    and "\<And>event b. handler_status_change_callbacks s (element_key event) = Some b \<Longrightarrow>
      has_handlers event s' = (if statuses b es = [] then has_handlers event s else last (statuses b es))"
  shows "status_ok s'"
  using assms unfolding status_ok_def by (simp add: last_status_def)

lemma has_handlers_fields:
  "event_update_handlers s' (element_key event) = event_update_handlers s (element_key event) \<Longrightarrow>
   event_update_interested_nodes s' (element_key event) = event_update_interested_nodes s (element_key event) \<Longrightarrow>
   has_handlers event s' = has_handlers event s"
  by (simp add: has_handlers_def has_local_handlers_def has_remote_handlers_def)

text \<open>An operation that changes one event only, and reports it if the status has changed.\<close>

lemma status_ok_change:
  assumes "status_ok s" "instance_ok s'" "handler_status_change_callbacks s' = handler_status_change_callbacks s"
    and "effects s' = effects s @ sent @ status_effect changed event x (handler_status_change_callbacks s)"
    and "\<And>b. statuses b sent = []"
    and "\<And>k. k \<noteq> element_key event \<Longrightarrow> event_update_handlers s' k = event_update_handlers s k \<and>
      event_update_interested_nodes s' k = event_update_interested_nodes s k"
    and "has_handlers event s' = (if changed then x else has_handlers event s)"
  shows "status_ok s'"
proof (rule status_ok_step [OF assms(1-4)])
  fix event' b assume b: "handler_status_change_callbacks s (element_key event') = Some b"
  show "has_handlers event' s' = (if statuses b (sent @ status_effect changed event x (handler_status_change_callbacks s)) = []
      then has_handlers event' s else last (statuses b (sent @ status_effect changed event x (handler_status_change_callbacks s))))"
  proof (cases "element_key event' = element_key event")
    case True
    then have "has_handlers event' s = has_handlers event s" "has_handlers event' s' = has_handlers event s'"
      by (simp_all add: has_handlers_def has_local_handlers_def has_remote_handlers_def)
    with assms(5,7) True b show ?thesis by simp
  next
    case False
    then have "handler_status_change_callbacks s (element_key event) \<noteq> Some b"
      using assms(1) b unfolding status_ok_def callbacks_apart_def by blast
    moreover have "has_handlers event' s' = has_handlers event' s"
      using assms(6) [OF False] by (intro has_handlers_fields) simp_all
    ultimately show ?thesis using assms(5) by simp
  qed
qed

lemma status_ok_same:
  assumes "status_ok s" "instance_ok s'" "handler_status_change_callbacks s' = handler_status_change_callbacks s"
    and "effects s' = effects s @ es" "\<And>b. statuses b es = []"
    and "event_update_handlers s' = event_update_handlers s" "event_update_interested_nodes s' = event_update_interested_nodes s"
  shows "status_ok s'"
proof (rule status_ok_step [OF assms(1-4)])
  show "has_handlers event s' = (if statuses b es = [] then has_handlers event s else last (statuses b es))" for event b
    using assms(5-7) has_handlers_fields [of s' event s] by simp
qed

lemma status_ok_register:
  assumes "status_ok s" "instance_ok s'" "s' = snd (RegisterEventNotification abi event h target s)"
  shows "status_ok s'"
proof -
  let ?sent = "if target \<noteq> self_pid s \<and>
      node_counter (remote_registered target (event_update_remote_registrations s (element_key event))) = 1
    then [Sent target (SerializeToMessage (element_layout abi) 1 event)] else []"
  show ?thesis
    by (rule status_ok_change [OF assms(1,2), of ?sent "\<not> has_handlers event s" event True])
      (simp_all add: assms(3) RegisterEventNotification_eq Let_def has_handlers_def has_local_handlers_def has_remote_handlers_def)
qed

lemma UnregisterEventNotificationRemote_state:
  assumes "UnregisterEventNotificationRemote abi event no target s = Some s'"
  obtains r sent where "s' = s\<lparr>event_update_remote_registrations := r, effects := effects s @ sent\<rparr>" "\<And>b. statuses b sent = []"
proof (cases "event_update_remote_registrations s (element_key event)")
  case None
  with assms that [where r = "event_update_remote_registrations s" and sent = "[]"] show ?thesis
    by (simp add: UnregisterEventNotificationRemote_eq)
next
  case (Some c)
  with assms that [where r = "event_update_remote_registrations s'" and sent = "drop (length (effects s)) (effects s')"] show ?thesis
    by (auto simp: UnregisterEventNotificationRemote_eq split: if_splits)
qed

lemma UnregisterEventNotification_state:
  assumes "UnregisterEventNotification abi event no target s = Some s'" "no \<in> register_no ` set (handlers_of event s)"
    and "sorted_wrt (\<lambda>x y. register_no x < register_no y) (handlers_of event s)"
    and "hs = filter (\<lambda>h. register_no h \<noteq> no) (handlers_of event s)"
  obtains r sent where "s' = s\<lparr>event_update_handlers := (event_update_handlers s)(element_key event \<mapsto> hs),
      event_update_remote_registrations := r,
      effects := effects s @ sent @ status_effect (hs = [] \<and> \<not> has_remote_handlers event s) event False
        (handler_status_change_callbacks s)\<rparr>" "\<And>b. statuses b sent = []"
proof -
  let ?s = "s\<lparr>event_update_handlers := (event_update_handlers s)(element_key event \<mapsto> hs)\<rparr>"
  have "map_option (call_status_change (hs = [] \<and> \<not> has_remote_handlers event s) event False)
      (if target \<noteq> self_pid s then UnregisterEventNotificationRemote abi event no target ?s else Some ?s) = Some s'"
    using assms(1) unfolding UnregisterEventNotification_eq [OF assms(3)] if_P [OF assms(2)] Let_def assms(4) [symmetric] .
  then obtain s2 where s2: "(if target \<noteq> self_pid s then UnregisterEventNotificationRemote abi event no target ?s else Some ?s) = Some s2"
    "s' = call_status_change (hs = [] \<and> \<not> has_remote_handlers event s) event False s2"
    unfolding map_option_eq_Some by blast
  obtain r sent where "s2 = ?s\<lparr>event_update_remote_registrations := r, effects := effects s @ sent\<rparr>" "\<And>b. statuses b sent = []"
  proof (cases "target = self_pid s")
    case True
    with s2(1) that [where r = "event_update_remote_registrations s" and sent = "[]"] show ?thesis by auto
  next
    case False
    with s2(1) UnregisterEventNotificationRemote_state [of abi event no target ?s s2] that show ?thesis by auto
  qed
  with s2(2) that [where r = r and sent = sent] show ?thesis by (simp add: call_status_change_eq)
qed

lemma status_ok_unregister:
  assumes "status_ok s" "instance_ok s'" "UnregisterEventNotification abi event no target s = Some s'"
  shows "status_ok s'"
proof (cases "no \<in> register_no ` set (handlers_of event s)")
  case True
  let ?hs = "filter (\<lambda>h. register_no h \<noteq> no) (handlers_of event s)"
  have "sorted_wrt (\<lambda>x y. register_no x < register_no y) (handlers_of event s)"
    using assms(1) by (intro instance_ok_handlers) (simp add: status_ok_def)
  from UnregisterEventNotification_state [OF assms(3) True this refl] obtain r sent where
    s': "s' = s\<lparr>event_update_handlers := (event_update_handlers s)(element_key event \<mapsto> ?hs),
        event_update_remote_registrations := r,
        effects := effects s @ sent @ status_effect (?hs = [] \<and> \<not> has_remote_handlers event s) event False
          (handler_status_change_callbacks s)\<rparr>" and sent: "\<And>b. statuses b sent = []" by blast
  have local: "has_local_handlers event s" using True by (auto simp: has_local_handlers_iff)
  show ?thesis
    by (rule status_ok_change [OF assms(1,2), of sent "?hs = [] \<and> \<not> has_remote_handlers event s" event False])
      (use local in \<open>auto simp: s' sent has_handlers_def has_local_handlers_def has_remote_handlers_def\<close>)
next
  case False
  then show ?thesis using assms
    by (simp add: UnregisterEventNotification_eq instance_ok_handlers status_ok_def)
qed

lemma HandleRegisterNotificationMsg_eq:
  assumes "DeserializeFromPayload (element_layout abi) payload = Some event"
  shows "HandleRegisterNotificationMsg abi payload sender s =
    s\<lparr>event_update_interested_nodes := (event_update_interested_nodes s)(element_key event \<mapsto>
        set_insert sender (nodes_of event (event_update_interested_nodes s))),
      effects := effects s @ status_effect (\<not> has_handlers event s) event True (handler_status_change_callbacks s)\<rparr>"
proof (cases "event_update_interested_nodes s (element_key event)")
  case None
  with assms show ?thesis
    by (simp add: HandleRegisterNotificationMsg_def call_status_change_eq nodes_of_def has_handlers_def has_remote_handlers_def)
next
  case (Some ps)
  then have "sender \<notin> set ps \<and> length (set_insert sender ps) = 1 \<longleftrightarrow> ps = []" by (auto simp: set_insert_def)
  with Some assms show ?thesis
    by (simp add: HandleRegisterNotificationMsg_def call_status_change_eq nodes_of_def has_handlers_def has_remote_handlers_def
        Let_def conj_commute)
qed

lemma status_ok_HandleRegister:
  assumes "status_ok s" "instance_ok (HandleRegisterNotificationMsg abi payload sender s)"
  shows "status_ok (HandleRegisterNotificationMsg abi payload sender s)"
proof (cases "DeserializeFromPayload (element_layout abi) payload")
  case None
  with assms show ?thesis by (simp add: HandleRegisterNotificationMsg_def)
next
  case (Some event)
  note eq = HandleRegisterNotificationMsg_eq [OF Some, of sender s]
  show ?thesis
    by (rule status_ok_change [OF assms, of "[]" "\<not> has_handlers event s" event True])
      (simp_all add: eq has_handlers_def has_local_handlers_def has_remote_handlers_def)
qed

lemma status_ok_HandleUnregister:
  assumes "status_ok s" "instance_ok (HandleUnregisterNotificationMsg abi payload sender s)"
  shows "status_ok (HandleUnregisterNotificationMsg abi payload sender s)"
proof (cases "DeserializeFromPayload (element_layout abi) payload")
  case None
  with assms show ?thesis by (simp add: HandleUnregisterNotificationMsg_def)
next
  case (Some event)
  show ?thesis
  proof (cases "event_update_interested_nodes s (element_key event)")
    case None
    with assms Some show ?thesis by (simp add: HandleUnregisterNotificationMsg_def)
  next
    case nodes: (Some ps)
    let ?changed = "sender \<in> set ps \<and> remove1 sender ps = [] \<and> \<not> has_local_handlers event s"
    have eq: "HandleUnregisterNotificationMsg abi payload sender s =
      s\<lparr>event_update_interested_nodes := (event_update_interested_nodes s)(element_key event \<mapsto> remove1 sender ps),
        effects := effects s @ status_effect ?changed event False (handler_status_change_callbacks s)\<rparr>"
      using Some nodes by (simp add: HandleUnregisterNotificationMsg_def call_status_change_eq Let_def)
    have "remove1 sender ps = [] \<longleftrightarrow> ps = []" if "sender \<notin> set ps" using that by (simp add: remove1_idem)
    then show ?thesis
      by (intro status_ok_change [OF assms, of "[]" ?changed event False])
        (auto simp: eq nodes has_handlers_def has_local_handlers_def has_remote_handlers_def)
  qed
qed

lemma status_ok_message:
  assumes "status_ok s" "instance_ok (MessageCallback abi alive sender message s)" "status_call (Message_Call sender message) s"
  shows "status_ok (MessageCallback abi alive sender message s)"
proof (cases message)
  case Nil
  with assms(1) show ?thesis by (simp add: MessageCallback_def)
next
  case (Cons t payload)
  have "status_ok (HandleNotifyEventMsg abi alive payload sender s)" if "t = 3"
  proof (cases "DeserializeFromPayload (element_layout abi) payload")
    case (Some event)
    with assms(2) Cons that show ?thesis
      by (intro status_ok_same [OF assms(1)]) (auto simp: MessageCallback_def message_type_number_def HandleNotifyEventMsg_def notify_state)
  qed (use assms(1) in \<open>simp add: HandleNotifyEventMsg_def\<close>)
  with assms Cons show ?thesis
    by (auto simp: MessageCallback_def message_type_number_def intro: status_ok_HandleRegister status_ok_HandleUnregister split: if_splits)
qed

lemma status_ok_callback:
  assumes "status_ok s" "fresh_callback b s"
  shows "status_ok (RegisterEventNotificationExistenceChangedCallback event b s)"
proof -
  let ?s = "RegisterEventNotificationExistenceChangedCallback event b s"
  have s': "?s = s\<lparr>handler_status_change_callbacks := (handler_status_change_callbacks s)(element_key event \<mapsto> b),
      effects := effects s @ (if has_handlers event s then [Status_Changed b True] else [])\<rparr>"
    by (simp add: RegisterEventNotificationExistenceChangedCallback_def call_status_change_eq status_effect_def Let_def
        has_handlers_def has_local_handlers_def has_remote_handlers_def)
  have new: "handler_status_change_callbacks s k \<noteq> Some b" for k
    using assms(2) by (auto simp: fresh_callback_def ran_def)
  have "last_status b' (effects ?s) = has_handlers event' ?s"
    if "handler_status_change_callbacks ?s (element_key event') = Some b'" for event' b'
  proof (cases "element_key event' = element_key event")
    case True
    then have "has_handlers event' ?s = has_handlers event s"
      by (simp add: s' has_handlers_def has_local_handlers_def has_remote_handlers_def)
    moreover have "b' = b" using True that by (simp add: s')
    moreover have "statuses b (effects s) = []" using assms(2) by (simp add: fresh_callback_def)
    ultimately show ?thesis by (auto simp: s' last_status_def)
  next
    case False
    then have old: "handler_status_change_callbacks s (element_key event') = Some b'" using that by (simp add: s')
    have "has_handlers event' ?s = has_handlers event' s" by (intro has_handlers_fields) (simp_all add: s')
    moreover have "b' \<noteq> b" using old new by auto
    ultimately show ?thesis using old assms(1) by (simp add: s' status_ok_def last_status_def)
  qed
  moreover have "callbacks_apart (handler_status_change_callbacks ?s)"
    using assms(1) new by (auto simp: s' status_ok_def callbacks_apart_def)
  ultimately show ?thesis using assms(1) by (simp add: status_ok_def instance_ok_def s')
qed

lemma status_call_limits: "status_call c s \<Longrightarrow> within_limits c s"
  by (cases "(c, s)" rule: status_call.cases) auto

lemma status_ok_perform:
  assumes "status_ok s" "status_call c s" "perform abi alive c s = Some s'"
  shows "status_ok s'"
proof -
  have ok: "instance_ok s'"
    using instance_ok_perform [of s c abi alive] status_call_limits [OF assms(2)] assms(1,3) by (auto simp: status_ok_def)
  show ?thesis
  proof (cases c)
    case (Remove_Callback_Call event)
    with assms ok show ?thesis
      by (auto simp: UnregisterEventNotificationExistenceChangedCallback_def status_ok_def callbacks_apart_def has_handlers_def
          has_local_handlers_def has_remote_handlers_def split: if_splits)
  next
    case (Register_Call event h target)
    with assms ok show ?thesis by (auto intro: status_ok_register)
  next
    case (Unregister_Call event no target)
    with assms ok show ?thesis by (auto intro: status_ok_unregister)
  next
    case (Message_Call sender message)
    with assms ok show ?thesis by (auto intro: status_ok_message)
  next
    case (Callback_Call event b)
    with assms show ?thesis by (auto intro: status_ok_callback)
  next
    case (Reregister_Call event target)
    then have "effects s' = effects s \<or> effects s' = effects s @ [Sent target (SerializeToMessage (element_layout abi) 1 event)]"
      using assms(3) ReregisterEventNotification_effects [of abi event target s] by auto
    then obtain es where "effects s' = effects s @ es" "\<And>b. statuses b es = []" by fastforce
    with Reregister_Call assms(3) show ?thesis
      by (intro status_ok_same [OF assms(1) ok]) (auto simp: ReregisterEventNotification_state)
  next
    case (Notify_Call event)
    with assms(3) show ?thesis
      by (intro status_ok_same [OF assms(1) ok, of "drop (length (effects s)) (effects s')"])
        (auto simp: NotifyEvent_def notify_state Let_def)
  next
    case (Local_Notify_Call event)
    with assms(3) show ?thesis
      by (intro status_ok_same [OF assms(1) ok, of "drop (length (effects s)) (effects s')"]) (auto simp: notify_state)
  next
    case (Outdated_Call outdated target)
    with assms(3) show ?thesis
      by (intro status_ok_same [OF assms(1) ok, of "drop (length (effects s)) (effects s')"]) (auto simp: NotifyOutdatedNodeId_def)
  qed
qed

lemma status_run_ok: "status_run abi alive s \<Longrightarrow> status_ok s"
proof (induction rule: status_run.induct)
  case (initial level pid uid)
  show ?case by (simp add: status_ok_def instance_ok_initial callbacks_apart_def) (simp add: MessagePassingServiceInstance_def)
next
  case (call s c s')
  then show ?case by (auto intro: status_ok_perform)
qed

text \<open>
  The provider of an event always knows whether anybody listens: whatever calls and messages
  a process has handled, the callback of an event was told last whether there are receive
  handlers, here or in another process. Only messages about outdated processes are excluded.
\<close>

lemma handler_status_reported:
  assumes "status_run abi alive s" "handler_status_change_callbacks s (element_key event) = Some b"
  shows "last_status b (effects s) \<longleftrightarrow> has_handlers event s"
  using status_run_ok [OF assms(1)] assms(2) by (simp add: status_ok_def)

definition observed_instance :: "(string, string) service_instance" where
  "observed_instance = MessageCallback little_endian (\<lambda>h. True) 10
     (SerializeToMessage (element_layout little_endian) 1 example_event)
     (RegisterEventNotificationExistenceChangedCallback example_event ''callback'' (MessagePassingServiceInstance kASIL_QM 20 0))"

lemma observed_instance_eq:
  "observed_instance = (MessagePassingServiceInstance kASIL_QM 20 0)
     \<lparr>event_update_interested_nodes := [element_key example_event \<mapsto> [10]],
      handler_status_change_callbacks := [element_key example_event \<mapsto> ''callback''],
      effects := [Status_Changed ''callback'' True]\<rparr>"
proof -
  have "DeserializeFromPayload element_bytes (to_bytes element_bytes example_event) = Some example_event"
    using element_object.payload_round_trip [where t = example_event] by (simp add: SerializeToMessage_def)
  then show ?thesis
    by (simp add: observed_instance_def MessageCallback_def SerializeToMessage_def message_type_number_def
        HandleRegisterNotificationMsg_def little_endian_def RegisterEventNotificationExistenceChangedCallback_def
        call_status_change_eq status_effect_def has_local_handlers_def has_remote_handlers_def set_insert_def
        MessagePassingServiceInstance_def Let_def)
qed

lemma observed_instance_run: "status_run little_endian (\<lambda>h. True) observed_instance"
  unfolding observed_instance_def SerializeToMessage_def
  by (rule status_run.call [where c = "Message_Call 10 (1 # to_bytes (element_layout little_endian) example_event)"],
      rule status_run.call [where c = "Callback_Call example_event ''callback''"], rule status_run.initial)
    (simp_all add: fresh_callback_def MessagePassingServiceInstance_def message_type_number_def)


text \<open>
  A message about an outdated process removes this process from all events and reports
  nothing. If it was the only one that listened to an event, the callback keeps being told
  that there are handlers while there are none.
\<close>

lemma outdated_process_not_reported:
  assumes "instance_ok s" "DeserializeFromPayload (pid_layout abi) payload = Some p"
  shows "let s' = MessageCallback abi alive sender (message_type_number kOutdatedNodeId # payload) s in
    effects s' = effects s @ [Client_Removed p] \<and>
    (\<forall>event. p \<notin> set (nodes_of event (event_update_interested_nodes s'))) \<and>
    (\<forall>event b. handler_status_change_callbacks s (element_key event) = Some b \<and> last_status b (effects s) \<and>
       \<not> has_local_handlers event s \<and> nodes_of event (event_update_interested_nodes s) = [p] \<longrightarrow>
       last_status b (effects s') \<and> \<not> has_handlers event s')"
proof -
  have distinct: "distinct (nodes_of event (event_update_interested_nodes s))" for event
    using assms(1) by (auto simp: instance_ok_def nodes_of_def strict_sorted_iff split: option.split)
  have nodes: "nodes_of event (map_option (remove1 p) \<circ> event_update_interested_nodes s) =
      remove1 p (nodes_of event (event_update_interested_nodes s))" for event
    by (simp add: nodes_of_def split: option.split)
  have "MessageCallback abi alive sender (message_type_number kOutdatedNodeId # payload) s =
    emit (Client_Removed p) (s\<lparr>event_update_interested_nodes := map_option (remove1 p) \<circ> event_update_interested_nodes s\<rparr>)"
    using assms(2) by (simp add: MessageCallback_def message_type_number_def HandleOutdatedNodeIdMsg_def)
  then show ?thesis
    using distinct by (auto simp: nodes last_status_def has_handlers_def has_local_handlers_def has_remote_handlers_iff Let_def)
qed

end
