(* ===== verification/Notification_Link.thy ===== *)
theory Notification_Link
  imports Notification_Protocol
begin

text \<open>
  Two processes connected by their messages: one that registers receive handlers for events, and
  the one that provides them. The messages of a call arrive before the next call, in order.
\<close>

subsection \<open>A consumer and a provider\<close>

fun messages_to :: "pid_t \<Rightarrow> ('h, 'b) effect list \<Rightarrow> u8 list list" where
  "messages_to p [] = []"
| "messages_to p (Sent target message # es) = (if target = p then message # messages_to p es else messages_to p es)"
| "messages_to p (e # es) = messages_to p es"

definition deliver :: "event_layouts \<Rightarrow> ('h \<Rightarrow> bool) \<Rightarrow> pid_t \<Rightarrow> u8 list list \<Rightarrow> ('h, 'b) service_instance \<Rightarrow> ('h, 'b) service_instance" where
  "deliver abi alive sender messages s = fold (MessageCallback abi alive sender) messages s"

text \<open>The messages that a process has sent since an earlier state.\<close>

definition sent_since :: "('h, 'b) service_instance \<Rightarrow> ('h, 'b) service_instance \<Rightarrow> pid_t \<Rightarrow> u8 list list" where
  "sent_since s s' p = messages_to p (drop (length (effects s)) (effects s'))"

text \<open>Messages that declare a process outdated.\<close>

definition declares_outdated :: "event_layouts \<Rightarrow> pid_t \<Rightarrow> u8 list \<Rightarrow> bool" where
  "declares_outdated abi q message \<longleftrightarrow>
     (case message of
        [] \<Rightarrow> False
      | t # payload \<Rightarrow> t = message_type_number kOutdatedNodeId \<and> DeserializeFromPayload (pid_layout abi) payload = Some q)"

text \<open>What the consumer does: handlers are registered at this provider, and it does not declare itself outdated.\<close>

fun consumer_call :: "event_layouts \<Rightarrow> pid_t \<Rightarrow> pid_t \<Rightarrow> ('h, 'b) instance_call \<Rightarrow> bool" where
  "consumer_call abi consumer provider (Register_Call event h target) \<longleftrightarrow> target = provider"
| "consumer_call abi consumer provider (Unregister_Call event no target) \<longleftrightarrow> target = provider"
| "consumer_call abi consumer provider (Reregister_Call event target) \<longleftrightarrow> target = provider"
| "consumer_call abi consumer provider (Outdated_Call outdated target) \<longleftrightarrow>
     \<not> declares_outdated abi consumer (SerializeToMessage (pid_layout abi) (message_type_number kOutdatedNodeId) outdated)"
| "consumer_call abi consumer provider c \<longleftrightarrow> True"

fun other_consumer_call :: "('h, 'b) instance_call \<Rightarrow> bool" where
  "other_consumer_call (Register_Call event h target) \<longleftrightarrow> False"
| "other_consumer_call (Unregister_Call event no target) \<longleftrightarrow> False"
| "other_consumer_call (Reregister_Call event target) \<longleftrightarrow> False"
| "other_consumer_call c \<longleftrightarrow> True"

text \<open>What else happens at the provider: anything but messages that speak for the consumer or declare it outdated.\<close>

fun provider_call :: "event_layouts \<Rightarrow> pid_t \<Rightarrow> ('h, 'b) instance_call \<Rightarrow> bool" where
  "provider_call abi consumer (Message_Call sender message) \<longleftrightarrow> sender \<noteq> consumer \<and> \<not> declares_outdated abi consumer message"
| "provider_call abi consumer c \<longleftrightarrow> True"

text \<open>The events whose registration the consumer has renewed.\<close>

fun renewed_after :: "('h, 'b) instance_call \<Rightarrow> u64 set \<Rightarrow> u64 set" where
  "renewed_after (Reregister_Call event target) R = insert (element_key event) R"
| "renewed_after c R = R"

inductive linked ::
  "event_layouts \<Rightarrow> ('h \<Rightarrow> bool) \<Rightarrow> ('g \<Rightarrow> bool) \<Rightarrow> u64 set \<Rightarrow> ('h, 'b) service_instance \<Rightarrow> ('g, 'd) service_instance \<Rightarrow> bool"
  for abi alive_c alive_p where
  connected: "pid \<noteq> pid' \<Longrightarrow> linked abi alive_c alive_p {} (MessagePassingServiceInstance level pid uid)
    (MessagePassingServiceInstance level' pid' uid')"
| consumer: "linked abi alive_c alive_p R c p \<Longrightarrow> consumer_call abi (self_pid c) (self_pid p) call \<Longrightarrow> within_limits call c \<Longrightarrow>
    perform abi alive_c call c = Some c' \<Longrightarrow>
    linked abi alive_c alive_p (renewed_after call R) c' (deliver abi alive_p (self_pid c) (sent_since c c' (self_pid p)) p)"
| provider: "linked abi alive_c alive_p R c p \<Longrightarrow> provider_call abi (self_pid c) call \<Longrightarrow> within_limits call p \<Longrightarrow>
    perform abi alive_p call p = Some p' \<Longrightarrow> linked abi alive_c alive_p R c p'"

definition handlers_at :: "u64 \<Rightarrow> ('h, 'b) service_instance \<Rightarrow> 'h registered_notification_handler list" where
  "handlers_at k s = (case event_update_handlers s k of None \<Rightarrow> [] | Some hs \<Rightarrow> hs)"

definition nodes_at :: "u64 \<Rightarrow> ('h, 'b) service_instance \<Rightarrow> pid_t list" where
  "nodes_at k s = (case event_update_interested_nodes s k of None \<Rightarrow> [] | Some ps \<Rightarrow> ps)"

lemma at_element_key: "handlers_of event s = handlers_at (element_key event) s"
  "nodes_of event (event_update_interested_nodes s) = nodes_at (element_key event) s"
  by (simp_all add: handlers_of_def handlers_at_def nodes_of_def nodes_at_def)

text \<open>
  For each event the consumer counts at least its handlers, exactly those unless it has renewed the
  registration, and the provider has it among the interested processes exactly if it keeps a count.
\<close>

definition link_at :: "bool \<Rightarrow> u64 \<Rightarrow> ('h, 'b) service_instance \<Rightarrow> ('g, 'd) service_instance \<Rightarrow> bool" where
  "link_at renewed k c p \<longleftrightarrow>
     (case event_update_remote_registrations c k of
        None \<Rightarrow> handlers_at k c = []
      | Some r \<Rightarrow> counter_node_id r = self_pid p \<and> node_counter r \<noteq> 0 \<and> length (handlers_at k c) \<le> unat (node_counter r) \<and>
          (\<not> renewed \<longrightarrow> length (handlers_at k c) = unat (node_counter r))) \<and>
     (self_pid c \<in> set (nodes_at k p) \<longleftrightarrow> event_update_remote_registrations c k \<noteq> None)"

definition link_ok :: "u64 set \<Rightarrow> ('h, 'b) service_instance \<Rightarrow> ('g, 'd) service_instance \<Rightarrow> bool" where
  "link_ok R c p \<longleftrightarrow> instance_ok c \<and> instance_ok p \<and> self_pid c \<noteq> self_pid p \<and> (\<forall>k. link_at (k \<in> R) k c p)"

definition copies_elements :: "event_layouts \<Rightarrow> bool" where
  "copies_elements abi \<longleftrightarrow>
     (\<forall>event. DeserializeFromPayload (element_layout abi) (to_bytes (element_layout abi) event) = Some event)"

lemma copies_elements_little_endian: "copies_elements little_endian"
  using element_object.payload_round_trip
  by (simp add: copies_elements_def little_endian_def SerializeToMessage_def)

lemma link_at_cong:
  assumes "link_at b k c p" "event_update_remote_registrations c' k = event_update_remote_registrations c k"
    "handlers_at k c' = handlers_at k c" "self_pid c' = self_pid c" "self_pid p' = self_pid p"
    "self_pid c \<in> set (nodes_at k p') \<longleftrightarrow> self_pid c \<in> set (nodes_at k p)"
  shows "link_at b k c' p'"
  using assms by (simp add: link_at_def split: option.splits)

lemma UnregisterEventNotification_keeps:
  assumes "UnregisterEventNotification abi event no target s = Some s'"
  shows "self_pid s' = self_pid s \<and> event_update_interested_nodes s' = event_update_interested_nodes s"
  using assms
  by (auto simp: UnregisterEventNotification_def UnregisterEventNotificationRemote_eq call_status_change_eq bind_eq_Some Let_def
      split: option.splits if_splits)

lemma perform_keeps:
  assumes "perform abi alive call s = Some s'"
  shows "self_pid s' = self_pid s"
    and "(case call of Message_Call sender message \<Rightarrow>
        event_update_interested_nodes s' = nodes_after abi sender message (event_update_interested_nodes s)
      | _ \<Rightarrow> event_update_interested_nodes s' = event_update_interested_nodes s)"
  using assms UnregisterEventNotification_keeps [of abi _ _ _ s s']
  by (cases call; auto simp: MessageCallback_state ReregisterEventNotification_def SendRegisterEventNotificationMessage_def
      RegisterEventNotification_eq NotifyEvent_def notify_state NotifyOutdatedNodeId_def call_status_change_eq Let_def
      RegisterEventNotificationExistenceChangedCallback_def UnregisterEventNotificationExistenceChangedCallback_def
      split: option.splits)+

lemma other_consumer_call_keeps:
  assumes "other_consumer_call call" "perform abi alive call s = Some s'"
  shows "event_update_handlers s' = event_update_handlers s \<and>
    event_update_remote_registrations s' = event_update_remote_registrations s"
  using assms
  by (cases call) (auto simp: MessageCallback_state NotifyEvent_def notify_state NotifyOutdatedNodeId_def call_status_change_eq Let_def
      RegisterEventNotificationExistenceChangedCallback_def UnregisterEventNotificationExistenceChangedCallback_def)

lemma silent_message:
  assumes "\<not> declares_outdated abi q message" "sender \<noteq> q \<or> message = [] \<or> hd message \<notin> {1, 2}"
    and "event_update_interested_nodes s' = nodes_after abi sender message (event_update_interested_nodes s)"
  shows "q \<in> set (nodes_at k s') \<longleftrightarrow> q \<in> set (nodes_at k s)"
  using assms
  by (cases message; cases "event_update_interested_nodes s k")
    (auto simp: nodes_at_def nodes_after_def nodes_of_def declares_outdated_def message_type_number_def in_set_remove1
      split: option.splits if_splits)

lemma provider_call_keeps:
  assumes "provider_call abi q call" "perform abi alive call s = Some s'"
  shows "q \<in> set (nodes_at k s') \<longleftrightarrow> q \<in> set (nodes_at k s)"
proof (cases call)
  case (Message_Call sender message)
  with perform_keeps(2) [OF assms(2)] assms(1) show ?thesis by (intro silent_message [of abi q message sender]) auto
qed (use perform_keeps(2) [OF assms(2)] in \<open>simp_all add: nodes_at_def\<close>)

lemma messages_to_append [simp]: "messages_to p (es @ es') = messages_to p es @ messages_to p es'"
  by (induction p es rule: messages_to.induct) simp_all

lemma messages_to_status [simp]: "messages_to p (status_effect changed event x callbacks) = []"
  by (simp add: status_effect_def split: option.split)

lemma deliver_one:
  "event_update_interested_nodes (deliver abi alive sender [m] s) = nodes_after abi sender m (event_update_interested_nodes s)"
  "deliver abi alive sender [] s = s" "self_pid (deliver abi alive sender ms s) = self_pid s"
  by (simp_all add: deliver_def MessageCallback_state) (induction ms arbitrary: s, simp_all add: MessageCallback_state)

lemma instance_ok_deliver: "instance_ok s \<Longrightarrow> instance_ok (deliver abi alive sender ms s)"
proof (induction ms arbitrary: s)
  case (Cons m ms)
  have "instance_ok (MessageCallback abi alive sender m s)"
    using instance_ok_perform [OF Cons.prems, of "Message_Call sender m" abi alive] by simp
  from Cons.IH [OF this] show ?case by (simp add: deliver_def)
qed (simp add: deliver_def)

lemma deliver_silent:
  assumes "\<And>m. m \<in> set ms \<Longrightarrow> \<not> declares_outdated abi q m \<and> hd m \<notin> {1, 2}"
  shows "q \<in> set (nodes_at k (deliver abi alive sender ms s)) \<longleftrightarrow> q \<in> set (nodes_at k s)"
  using assms
proof (induction ms arbitrary: s)
  case (Cons m ms)
  have "q \<in> set (nodes_at k (MessageCallback abi alive sender m s)) \<longleftrightarrow> q \<in> set (nodes_at k s)"
    using Cons.prems [of m] by (intro silent_message [of abi q m sender]) (auto simp: MessageCallback_state)
  with Cons.IH [of "MessageCallback abi alive sender m s"] Cons.prems show ?case by (simp add: deliver_def)
qed (simp add: deliver_def)

lemma messages_to_Sent: "messages_to t (map (\<lambda>p. Sent p m) ids) = map (\<lambda>p. m) (filter (\<lambda>p. p = t) ids)"
  by (induction ids) auto

lemma messages_to_handlers [simp]: "messages_to t (map Handler_Called hs) = []"
  by (induction hs) simp_all

lemma MessageCallback_sends_nothing:
  "\<exists>es. effects (MessageCallback abi alive sender message s) = effects s @ es \<and> messages_to t es = []"
  by (cases message)
    (auto simp: MessageCallback_def HandleRegisterNotificationMsg_def HandleUnregisterNotificationMsg_def HandleNotifyEventMsg_def
      HandleOutdatedNodeIdMsg_def call_status_change_eq notify_state case_prod_beta Let_def split: option.split)

lemma other_call_silent:
  assumes "other_consumer_call call" "consumer_call abi q provider call" "perform abi alive call c = Some c'"
    and "m \<in> set (sent_since c c' provider)"
  shows "\<not> declares_outdated abi q m \<and> hd m \<notin> {1, 2}"
proof (cases call)
  case (Message_Call sender message)
  obtain es where "effects (MessageCallback abi alive sender message c) = effects c @ es" "messages_to provider es = []"
    using MessageCallback_sends_nothing [of abi alive sender message c provider] by blast
  with Message_Call assms(3,4) show ?thesis by (auto simp: sent_since_def)
next
  case (Notify_Call event)
  with assms(3,4) show ?thesis
    by (auto simp: sent_since_def NotifyEvent_def notify_state Let_def messages_to_Sent SerializeToMessage_def declares_outdated_def
        message_type_number_def split: if_splits)
next
  case (Outdated_Call outdated target)
  with assms show ?thesis
    by (auto simp: sent_since_def NotifyOutdatedNodeId_def SerializeToMessage_def message_type_number_def split: if_splits)
qed (use assms in \<open>auto simp: sent_since_def notify_state call_status_change_eq Let_def
    RegisterEventNotificationExistenceChangedCallback_def UnregisterEventNotificationExistenceChangedCallback_def\<close>)

lemma link_register:
  assumes ok: "link_ok R c p" "counter_room event c" "copies_elements abi"
    and c': "c' = snd (RegisterEventNotification abi event h (self_pid p) c)"
    and p': "p' = deliver abi alive (self_pid c) (sent_since c c' (self_pid p)) p"
  shows "link_at (k \<in> R) k c' p'"
proof -
  let ?r = "event_update_remote_registrations c (element_key event)"
  have pids: "self_pid p \<noteq> self_pid c" using ok(1) by (auto simp: link_ok_def)
  have at: "link_at (k \<in> R) k c p" for k using ok(1) by (simp add: link_ok_def)
  note eq = RegisterEventNotification_eq [of abi event h "self_pid p" c, unfolded Let_def]
  have sent: "sent_since c c' (self_pid p) =
      (if node_counter (remote_registered (self_pid p) ?r) = 1 then [SerializeToMessage (element_layout abi) 1 event] else [])"
    using pids by (simp add: sent_since_def c' eq)
  have state: "event_update_remote_registrations c' = (event_update_remote_registrations c)(element_key event \<mapsto> remote_registered (self_pid p) ?r)"
    "event_update_handlers c' = (event_update_handlers c)(element_key event \<mapsto>
       handlers_at (element_key event) c @ [\<lparr>notification_handler = h, register_no = cur_registration_no c\<rparr>])"
    "self_pid c' = self_pid c" "self_pid p' = self_pid p"
    using pids by (simp_all add: c' eq p' deliver_one at_element_key)
  then have hs: "handlers_at k c' = (if k = element_key event
      then handlers_at k c @ [\<lparr>notification_handler = h, register_no = cur_registration_no c\<rparr>] else handlers_at k c)"
    by (simp add: handlers_at_def)
  show ?thesis
  proof (cases ?r)
    case None
    then have one: "sent_since c c' (self_pid p) = [SerializeToMessage (element_layout abi) 1 event]"
      by (simp add: sent remote_registered_def)
    have nodes: "event_update_interested_nodes p' =
        (event_update_interested_nodes p)(element_key event \<mapsto> set_insert (self_pid c) (nodes_at (element_key event) p))"
      using ok(3) by (simp add: p' one deliver_one nodes_after_def SerializeToMessage_def copies_elements_def at_element_key)
    show ?thesis
    proof (cases "k = element_key event")
      case True
      then have "self_pid c \<in> set (nodes_at k p')" by (simp add: nodes_at_def nodes)
      moreover have "handlers_at k c = []" using at [of k] None True by (simp add: link_at_def)
      ultimately show ?thesis
        using None True by (simp add: link_at_def state remote_registered_def handlers_at_def)
    next
      case False
      then show ?thesis
        by (intro link_at_cong [OF at]) (simp_all add: state handlers_at_def nodes_at_def nodes)
    qed
  next
    case (Some r)
    with at [of "element_key event"] have r: "counter_node_id r = self_pid p" "node_counter r \<noteq> 0" by (simp_all add: link_at_def)
    have "node_counter r < 0xFFFF" using ok(2) Some by (simp add: counter_room_def)
    then have next_count: "unat (node_counter r + 1) = Suc (unat (node_counter r))"
      by (simp add: word_less_nat_alt unat_word_ariths)
    then have nz: "node_counter r + 1 \<noteq> 1" "node_counter r + 1 \<noteq> 0" using r(2) by auto
    then have "p' = p" by (simp add: p' sent Some r(1) remote_registered_def deliver_one)
    show ?thesis
    proof (cases "k = element_key event")
      case True
      then show ?thesis
        using \<open>p' = p\<close> at [of k] r(1) nz(2) next_count Some hs by (simp add: link_at_def state(1,3) remote_registered_def)
    next
      case False
      then show ?thesis using hs \<open>p' = p\<close> by (intro link_at_cong [OF at]) (simp_all add: state(1,3))
    qed
  qed
qed

lemma link_reregister:
  assumes ok: "link_ok R c p" "counter_room event c"
    and c': "c' = ReregisterEventNotification abi event (self_pid p) c"
    and p': "p' = deliver abi alive (self_pid c) (sent_since c c' (self_pid p)) p"
  shows "link_at (k \<in> insert (element_key event) R) k c' p'"
proof -
  have pids: "self_pid p \<noteq> self_pid c" using ok(1) by (auto simp: link_ok_def)
  have at: "link_at (k \<in> R) k c p" for k using ok(1) by (simp add: link_ok_def)
  have weak: "link_at (k \<in> insert (element_key event) R) k c p"
    using at [of k] by (auto simp: link_at_def split: option.splits)
  show ?thesis
  proof (cases "event_update_handlers c (element_key event) = None \<or> event_update_remote_registrations c (element_key event) = None")
    case True
    then have "c' = c" by (auto simp: c' ReregisterEventNotification_def split: option.split)
    then show ?thesis using weak by (simp add: p' sent_since_def deliver_one)
  next
    case False
    then obtain r where r: "event_update_remote_registrations c (element_key event) = Some r" by auto
    with at [of "element_key event"] have "counter_node_id r = self_pid p" by (simp add: link_at_def)
    with False r pids have counted: "event_update_remote_registrations c (element_key event) = Some r"
      "c' = c\<lparr>event_update_remote_registrations := (event_update_remote_registrations c)
          (element_key event \<mapsto> r\<lparr>node_counter := node_counter r + 1\<rparr>)\<rparr>"
      by (auto simp: c' ReregisterEventNotification_def)
    then have "p' = p" by (simp add: p' sent_since_def deliver_one)
    moreover have "node_counter r < 0xFFFF" using ok(2) counted(1) by (simp add: counter_room_def)
    then have next_count: "unat (node_counter r + 1) = Suc (unat (node_counter r))"
      by (simp add: word_less_nat_alt unat_word_ariths)
    then have "node_counter r + 1 \<noteq> 0" by auto
    ultimately show ?thesis
      using at [of "element_key event"] weak counted next_count
      by (cases "k = element_key event") (auto simp: link_at_def handlers_at_def split: option.splits)
  qed
qed

lemma length_filter_one:
  assumes "sorted_wrt (\<lambda>x y. register_no x < register_no y) hs" "no \<in> register_no ` set hs"
  shows "length hs = Suc (length (filter (\<lambda>h. register_no h \<noteq> no) hs))"
proof -
  obtain xs h ys where hs: "hs = xs @ h # ys" "register_no h = no" using assms(2) by (auto dest!: split_list)
  then have "filter (\<lambda>h. register_no h \<noteq> no) xs = xs" "filter (\<lambda>h. register_no h \<noteq> no) ys = ys"
    using assms(1) by (auto simp: filter_id_conv sorted_wrt_append)
  with hs show ?thesis by simp
qed

lemma link_unregister:
  assumes ok: "link_ok R c p" "copies_elements abi"
    and c': "UnregisterEventNotification abi event no (self_pid p) c = Some c'"
    and p': "p' = deliver abi alive (self_pid c) (sent_since c c' (self_pid p)) p"
  shows "link_at (k \<in> R) k c' p'"
proof -
  let ?k = "element_key event"
  let ?hs = "filter (\<lambda>h. register_no h \<noteq> no) (handlers_at ?k c)"
  have pids: "self_pid p \<noteq> self_pid c" using ok(1) by (auto simp: link_ok_def)
  have at: "link_at (k \<in> R) k c p" for k using ok(1) by (simp add: link_ok_def)
  have sorted: "sorted_wrt (\<lambda>x y. register_no x < register_no y) (handlers_of event c)"
    using ok(1) by (simp add: link_ok_def instance_ok_handlers)
  note eq = UnregisterEventNotification_eq [OF sorted, of abi no "self_pid p", unfolded Let_def at_element_key]
  show ?thesis
  proof (cases "no \<in> register_no ` set (handlers_at ?k c)")
    case False
    with c' eq have "c' = c" by simp
    with p' at show ?thesis by (simp add: sent_since_def deliver_one)
  next
    case True
    note count = length_filter_one [OF sorted [unfolded at_element_key] True]
    from True have "handlers_at ?k c \<noteq> []" by auto
    with at [of ?k] obtain r where r: "event_update_remote_registrations c ?k = Some r" "counter_node_id r = self_pid p"
      "node_counter r \<noteq> 0" "Suc (length ?hs) \<le> unat (node_counter r)" "?k \<notin> R \<longrightarrow> Suc (length ?hs) = unat (node_counter r)"
      using count by (auto simp: link_at_def split: option.splits)
    have minus: "unat (node_counter r - 1) = unat (node_counter r) - 1" using r(3) by (simp add: unat_minus_one)
    have one: "?hs = []" if "node_counter r = 1" using r(4) that by simp
    have c'_eq: "c' = c\<lparr>event_update_handlers := (event_update_handlers c)(?k \<mapsto> ?hs),
        event_update_remote_registrations := (event_update_remote_registrations c)(?k :=
          if node_counter r = 1 then None else Some (r\<lparr>node_counter := node_counter r - 1\<rparr>)),
        effects := effects c @ (if node_counter r = 1 then [Sent (self_pid p) (SerializeToMessage (element_layout abi) 2 event)] else []) @
          status_effect (?hs = [] \<and> \<not> has_remote_handlers event c) event False (handler_status_change_callbacks c)\<rparr>"
      using c' True pids r(1-3) unfolding eq
      by (simp add: UnregisterEventNotificationRemote_eq call_status_change_eq)
    have sent: "sent_since c c' (self_pid p) = (if node_counter r = 1 then [SerializeToMessage (element_layout abi) 2 event] else [])"
      by (simp add: sent_since_def c'_eq)
    have nodes: "event_update_interested_nodes p' = (if node_counter r = 1 then (event_update_interested_nodes p)
        (?k := map_option (remove1 (self_pid c)) (event_update_interested_nodes p ?k)) else event_update_interested_nodes p)"
      using ok(2) by (simp add: p' sent deliver_one nodes_after_def SerializeToMessage_def copies_elements_def)
    have "distinct (nodes_at ?k p)"
      using ok(1) by (auto simp: link_ok_def instance_ok_def nodes_at_def strict_sorted_iff split: option.split)
    then have gone: "self_pid c \<notin> set (nodes_at ?k p')" if "node_counter r = 1"
      using nodes that by (auto simp: nodes_at_def split: option.splits)
    have pids': "self_pid c' = self_pid c" "self_pid p' = self_pid p" by (simp_all add: c'_eq p' deliver_one)
    show ?thesis
    proof (cases "k = ?k")
      case True
      have "handlers_at k c' = ?hs" using True by (simp add: handlers_at_def c'_eq)
      moreover have "nodes_at k p' = nodes_at k p" if "node_counter r \<noteq> 1" using that nodes by (simp add: nodes_at_def)
      moreover have "node_counter r - 1 \<noteq> 0" if "node_counter r \<noteq> 1" using that by simp
      moreover have "length ?hs \<le> unat (node_counter r - 1)" "?k \<notin> R \<longrightarrow> length ?hs = unat (node_counter r - 1)"
        using r(4,5) unfolding minus by auto
      ultimately show ?thesis
        using True gone one r(1,2) pids' at [of k] by (cases "node_counter r = 1") (simp_all add: link_at_def c'_eq)
    next
      case False
      then show ?thesis using nodes pids' by (intro link_at_cong [OF at]) (simp_all add: c'_eq handlers_at_def nodes_at_def)
    qed
  qed
qed

lemma linked_ok:
  assumes "linked abi alive_c alive_p R c p" "copies_elements abi"
  shows "link_ok R c p"
  using assms(1)
proof (induction rule: linked.induct)
  case (connected pid pid' level uid level' uid')
  then show ?case
    by (simp add: link_ok_def instance_ok_initial)
      (simp add: link_at_def handlers_at_def nodes_at_def MessagePassingServiceInstance_def)
next
  case (consumer R c p call c')
  let ?p = "deliver abi alive_p (self_pid c) (sent_since c c' (self_pid p)) p"
  have at: "link_at (k \<in> R) k c p" for k using consumer.IH by (simp add: link_ok_def)
  have "instance_ok c'" using instance_ok_perform [of c call abi alive_c] consumer by (auto simp: link_ok_def)
  moreover have "instance_ok ?p" using consumer by (simp add: instance_ok_deliver link_ok_def)
  moreover have "link_at (k \<in> renewed_after call R) k c' ?p" for k
  proof (cases "other_consumer_call call")
    case True
    have "renewed_after call R = R" using True by (cases call) simp_all
    moreover have "link_at (k \<in> R) k c' ?p"
      by (rule link_at_cong [OF at])
        (use other_consumer_call_keeps [OF True consumer.hyps(4)] perform_keeps(1) [OF consumer.hyps(4)]
          deliver_silent [OF other_call_silent [OF True consumer.hyps(2,4)]] in \<open>simp_all add: handlers_at_def deliver_one\<close>)
    ultimately show ?thesis by simp
  next
    case False
    with consumer assms(2) show ?thesis
      by (cases call) (auto intro: link_register link_unregister link_reregister [simplified])
  qed
  moreover have "self_pid c' \<noteq> self_pid ?p" using consumer perform_keeps(1) [of abi alive_c call c c'] by (auto simp: link_ok_def deliver_one)
  ultimately show ?case by (simp add: link_ok_def)
next
  case (provider R c p call p')
  have ok: "instance_ok c" "instance_ok p" "self_pid c \<noteq> self_pid p" "\<And>k. link_at (k \<in> R) k c p"
    using provider.IH by (simp_all add: link_ok_def)
  have "instance_ok p'" using instance_ok_perform [OF ok(2) provider.hyps(3), of abi alive_p] provider.hyps(4) by auto
  moreover have "link_at (k \<in> R) k c p'" for k
    by (rule link_at_cong [OF ok(4)])
      (simp_all add: perform_keeps(1) [OF provider.hyps(4)] provider_call_keeps [OF provider.hyps(2,4)])
  ultimately show ?case using ok(1,3) perform_keeps(1) [OF provider.hyps(4)] by (simp add: link_ok_def)
qed

lemma messages_to_each:
  "distinct ids \<Longrightarrow> messages_to q (map (\<lambda>p. Sent p m) ids) = (if q \<in> set ids then [m] else [])"
  by (induction ids) auto

lemma sent_by_NotifyEvent:
  assumes "instance_ok p" "length (nodes_of event (event_update_interested_nodes p)) \<le> 5100" "0 \<le> q"
    and "p' = NotifyEvent abi (\<lambda>k. event_update_interested_nodes p) event p"
  shows "sent_since p p' q = (if q \<in> set (nodes_of event (event_update_interested_nodes p))
    then [SerializeToMessage (element_layout abi) 3 event] else [])"
proof -
  let ?nodes = "nodes_of event (event_update_interested_nodes p)"
  let ?ids = "fst (NotifyEventRemote_loop event (\<lambda>k. event_update_interested_nodes p) 0 0)"
  have sorted: "sorted_wrt (<) ?nodes" using assms(1) by (simp add: instance_ok_def nodes_of_def split: option.split)
  have "card {q \<in> set ?nodes. 0 \<le> q} \<le> card (set ?nodes)" by (intro card_mono) auto
  then have "card {q \<in> set ?nodes. 0 \<le> q} \<le> 5100" using card_length [of ?nodes] assms(2) by linarith
  then have "q \<in> set ?ids \<longleftrightarrow> q \<in> set ?nodes"
    using NotifyEventRemote_loop_sound [of event "\<lambda>k. event_update_interested_nodes p" 0 0]
      NotifyEventRemote_loop_complete [of event "\<lambda>k. event_update_interested_nodes p" "set ?nodes" 0 0 q] sorted assms(3) by auto
  moreover have "distinct ?ids"
    using NotifyEventRemote_loop_sound [of event "\<lambda>k. event_update_interested_nodes p" 0 0] sorted by (simp add: strict_sorted_iff)
  ultimately show ?thesis
    by (simp add: sent_since_def assms(4) NotifyEvent_def notify_state Let_def messages_to_each)
qed

text \<open>
  C23. Notifications work across two processes that keep their ids. The consumer may register, renew and
  unregister receive handlers at the provider and make any other call, the provider may make any call and
  receive the messages of others, as long as no counter wraps around and no message declares the consumer
  outdated. Then the provider counts the consumer as interested in an event exactly if the consumer keeps a
  count for it, whenever the consumer has a handler for it, and only then unless the registration has been
  renewed. If at most 5100 processes are interested, an announcement of the event reaches the consumer and
  calls its handlers: those that are still alive, of the first five, in the order of their registration, and
  nothing else happens.
\<close>

theorem notification_reaches_handlers:
  assumes "linked abi alive_c alive_p R c p" "copies_elements abi" "0 \<le> self_pid c"
    and "length (nodes_of event (event_update_interested_nodes p)) \<le> 5100"
  shows "(self_pid c \<in> set (nodes_of event (event_update_interested_nodes p)) \<longleftrightarrow>
      event_update_remote_registrations c (element_key event) \<noteq> None) \<and>
    (handlers_of event c \<noteq> [] \<longrightarrow> self_pid c \<in> set (nodes_of event (event_update_interested_nodes p))) \<and>
    (element_key event \<notin> R \<longrightarrow> self_pid c \<in> set (nodes_of event (event_update_interested_nodes p)) \<longrightarrow> handlers_of event c \<noteq> []) \<and>
    deliver abi alive_c (self_pid p)
      (sent_since p (NotifyEvent abi (\<lambda>k. event_update_interested_nodes p) event p) (self_pid c)) c =
    c\<lparr>effects := effects c @ map Handler_Called (filter alive_c (map notification_handler (take 5 (handlers_of event c))))\<rparr>"
proof -
  note ok = linked_ok [OF assms(1,2)]
  then have at: "link_at (element_key event \<in> R) (element_key event) c p" by (simp add: link_ok_def)
  then have registered: "self_pid c \<in> set (nodes_of event (event_update_interested_nodes p)) \<longleftrightarrow>
      event_update_remote_registrations c (element_key event) \<noteq> None" by (simp add: link_at_def at_element_key)
  have handled: "handlers_of event c \<noteq> [] \<Longrightarrow> event_update_remote_registrations c (element_key event) \<noteq> None"
    "element_key event \<notin> R \<Longrightarrow> event_update_remote_registrations c (element_key event) \<noteq> None \<Longrightarrow> handlers_of event c \<noteq> []"
    using at by (auto simp: link_at_def at_element_key unat_eq_zero split: option.splits)
  have sent: "sent_since p (NotifyEvent abi (\<lambda>k. event_update_interested_nodes p) event p) (self_pid c) =
      (if event_update_remote_registrations c (element_key event) \<noteq> None then [SerializeToMessage (element_layout abi) 3 event] else [])"
    using ok registered sent_by_NotifyEvent [OF _ assms(4,3) refl, of abi] by (simp add: link_ok_def)
  have "deliver abi alive_c (self_pid p)
      (sent_since p (NotifyEvent abi (\<lambda>k. event_update_interested_nodes p) event p) (self_pid c)) c =
    c\<lparr>effects := effects c @ map Handler_Called (filter alive_c (map notification_handler (take 5 (handlers_of event c))))\<rparr>"
  proof (cases "event_update_remote_registrations c (element_key event)")
    case None
    then have "handlers_of event c = []" using handled(1) by auto
    with None show ?thesis by (simp add: sent deliver_def)
  next
    case (Some r)
    then show ?thesis
      using assms(2) by (simp add: sent deliver_def MessageCallback_def SerializeToMessage_def message_type_number_def
          HandleNotifyEventMsg_def copies_elements_def notify_state kMaxReceiveHandlersPerEvent_def)
  qed
  with registered handled show ?thesis by blast
qed

definition example_provider :: "(string, string) service_instance" where
  "example_provider = deliver little_endian (\<lambda>h. True) 10 [SerializeToMessage (element_layout little_endian) 1 example_event]
     (MessagePassingServiceInstance kASIL_QM 20 0)"

definition example_consumer :: "(string, string) service_instance" where
  "example_consumer = snd (RegisterEventNotification little_endian example_event ''handler'' 20
     (MessagePassingServiceInstance kASIL_QM 10 0))"

lemma example_pids: "self_pid example_consumer = 10" "self_pid example_provider = 20"
  by (simp_all add: example_consumer_def example_provider_def RegisterEventNotification_eq deliver_one Let_def
      MessagePassingServiceInstance_def)

lemma example_handlers: "handlers_of example_event example_consumer = [\<lparr>notification_handler = ''handler'', register_no = 0\<rparr>]"
  by (simp add: example_consumer_def RegisterEventNotification_eq Let_def handlers_of_def MessagePassingServiceInstance_def)

lemma example_linked: "linked little_endian (\<lambda>h. True) (\<lambda>h. True) {} example_consumer example_provider"
proof -
  let ?c = "MessagePassingServiceInstance kASIL_QM 10 0 :: (string, string) service_instance"
  let ?p = "MessagePassingServiceInstance kASIL_QM 20 0 :: (string, string) service_instance"
  have start: "linked little_endian (\<lambda>h. True) (\<lambda>h. True) {} ?c ?p" by (rule linked.connected) simp
  have call: "perform little_endian (\<lambda>h. True) (Register_Call example_event ''handler'' 20) ?c = Some example_consumer"
    by (simp add: example_consumer_def)
  have "linked little_endian (\<lambda>h. True) (\<lambda>h. True) {} example_consumer
      (deliver little_endian (\<lambda>h. True) (self_pid ?c) (sent_since ?c example_consumer (self_pid ?p)) ?p)"
    using linked.consumer [OF start _ _ call] by (simp add: MessagePassingServiceInstance_def counter_room_def)
  moreover have "sent_since ?c example_consumer (self_pid ?p) = [SerializeToMessage (element_layout little_endian) 1 example_event]"
    by (simp add: sent_since_def example_consumer_def RegisterEventNotification_eq Let_def MessagePassingServiceInstance_def
        remote_registered_def)
  ultimately show ?thesis by (simp add: example_provider_def MessagePassingServiceInstance_def)
qed

lemma example_nodes: "nodes_of example_event (event_update_interested_nodes example_provider) = [10]"
  using copies_elements_little_endian
  by (simp add: example_provider_def deliver_one nodes_after_def nodes_of_def SerializeToMessage_def copies_elements_def
      MessagePassingServiceInstance_def set_insert_def)

theorem notification_reaches_handlers_witness:
  "deliver little_endian (\<lambda>h. True) 20
      (sent_since example_provider (NotifyEvent little_endian (\<lambda>k. event_update_interested_nodes example_provider) example_event
        example_provider) 10) example_consumer =
    example_consumer\<lparr>effects := effects example_consumer @ [Handler_Called ''handler'']\<rparr>"
  using notification_reaches_handlers [OF example_linked copies_elements_little_endian, of example_event]
  by (simp add: example_pids example_handlers example_nodes)

text \<open>
  A renewed registration at a provider that comes back under the same process id is never undone:
  it counts the same handler a second time. When the last handler of the process is
  unregistered afterwards, no message is sent, and the provider keeps notifying a process
  without any handler.
\<close>

lemma reregistration_not_undone:
  assumes "linked abi alive_c alive_p R c p" "copies_elements abi" "handlers_of event c = [h]" "element_key event \<notin> R"
  shows "\<exists>c'. UnregisterEventNotification abi event (register_no h) (self_pid p)
      (ReregisterEventNotification abi event (self_pid p) c) = Some c' \<and>
    handlers_of event c' = [] \<and> sent_since c c' (self_pid p) = [] \<and>
    self_pid c \<in> set (nodes_of event (event_update_interested_nodes p))"
proof -
  note ok = linked_ok [OF assms(1,2)]
  then have "link_at (element_key event \<in> R) (element_key event) c p" and pids: "self_pid p \<noteq> self_pid c" by (auto simp: link_ok_def)
  with assms(4) have at: "link_at False (element_key event) c p" by simp
  then obtain r where r: "event_update_remote_registrations c (element_key event) = Some r" "counter_node_id r = self_pid p"
    "unat (node_counter r) = 1"
    using assms(3) by (auto simp: link_at_def at_element_key split: option.splits)
  then have one: "node_counter r = 1" by (simp add: word_unat_eq_iff)
  have hs: "event_update_handlers c (element_key event) = Some [h]"
    using assms(3) by (simp add: handlers_of_def split: option.splits)
  define c1 where "c1 = c\<lparr>event_update_remote_registrations := (event_update_remote_registrations c)
    (element_key event \<mapsto> r\<lparr>node_counter := 2\<rparr>)\<rparr>"
  have c1: "ReregisterEventNotification abi event (self_pid p) c = c1"
    using hs r pids one by (simp add: ReregisterEventNotification_def c1_def)
  have "handlers_of event c1 = [h]" using hs by (simp add: c1_def handlers_of_def)
  then show ?thesis
    using at pids r by (auto simp: c1 UnregisterEventNotification_eq UnregisterEventNotificationRemote_eq call_status_change_eq
        Let_def) (auto simp: c1_def sent_since_def handlers_of_def link_at_def handlers_at_def nodes_at_def nodes_of_def hs
        split: option.splits)
qed

end
