(* ===== verification/Method_Messages.thy ===== *)
theory Method_Messages
  imports Event_Notification
begin

text \<open>
  The part of \<^verbatim>\<open>messaging/message_passing_service_instance\<close> that subscribes to and calls the
  methods of a service, in the same process or by messages that are answered.

  An error has a domain, the enumeration it comes from, and a number in it. The code compares and
  sends only the number; a result that is returned in the same process keeps the domain. The
  handlers that a service registers are code of the service: their calls are a parameter that works
  on a state \<open>'w\<close> and finds out whether the scope of the handler still exists.
\<close>

type_synonym uid_t = u32

text \<open>The errors of the two enumerations, and those of any other domain, known by their number.\<close>

datatype result_error = Method_Error method_errc | Com_Error com_errc | Other_Error error_code

type_synonym code_result = "result_error + unit"

abbreviation method_error :: "method_errc \<Rightarrow> code_result" where
  "method_error e \<equiv> Inl (Method_Error e)"

abbreviation com_error :: "com_errc \<Rightarrow> code_result" where
  "com_error e \<equiv> Inl (Com_Error e)"

fun code_of_error :: "result_error \<Rightarrow> error_code" where
  "code_of_error (Method_Error e) = error_number method_errc_values e"
| "code_of_error (Com_Error e) = error_number com_errc_values e"
| "code_of_error (Other_Error n) = n"

datatype message_with_reply_type = kSubscribeServiceMethod | kCallMethod

definition message_with_reply_type_number :: "message_with_reply_type \<Rightarrow> u8" where
  "message_with_reply_type_number t = (case t of kSubscribeServiceMethod \<Rightarrow> 1 | kCallMethod \<Rightarrow> 2)"

type_synonym subscribe_payload = "skeleton_instance_identifier \<times> proxy_instance_identifier"
type_synonym call_payload = "proxy_method_instance_identifier \<times> u64"

record method_layouts =
  subscribe_layout :: "subscribe_payload layout"
  call_layout :: "call_payload layout"
  reply_layout :: "error_code layout"

record ('s, 'c, 'w) method_handlers =
  invoke_subscribed :: "'s \<Rightarrow> proxy_instance_identifier \<Rightarrow> uid_t \<Rightarrow> pid_t \<Rightarrow> 'w \<Rightarrow> code_result option \<times> 'w"
  invoke_call :: "'c \<Rightarrow> u64 \<Rightarrow> 'w \<Rightarrow> unit option \<times> 'w"

record ('s, 'c) method_service =
  subscribe_service_method_handlers :: "skeleton_instance_identifier \<rightharpoonup> 's \<times> uid_t set option"
  call_method_handlers :: "proxy_method_instance_identifier \<rightharpoonup> 'c \<times> uid_t"
  method_self_pid :: pid_t
  method_self_uid :: uid_t

subsection \<open>Replies\<close>

definition SerializeToMethodReplyMessage :: "method_layouts \<Rightarrow> code_result \<Rightarrow> u8 list option" where
  "SerializeToMethodReplyMessage abi reply_result = do {
     code \<leftarrow> (case reply_result of
         Inr _ \<Rightarrow> Some SerializeSuccess
       | Inl e \<Rightarrow>
           let n = code_of_error e in
           if 0 \<le> n \<and> nat n < length method_errc_values then SerializeError method_errc_values (method_errc_values ! nat n)
           else None);
     Some (to_bytes (reply_layout abi) code)
   }"

definition DeserializeFromMethodReplyPayload :: "method_layouts \<Rightarrow> u8 list \<Rightarrow> (result_error + code_result) option" where
  "DeserializeFromMethodReplyPayload abi payload =
     (if sizeof (reply_layout abi) \<noteq> length payload
      then Some (Inl (Method_Error kUnexpectedMessageSize))
      else do {
        reported \<leftarrow> Deserialize method_errc_values (of_bytes (reply_layout abi) payload);
        Some (Inr (map_sum Method_Error id reported))
      })"

definition IsMethodErrorRecoverable :: "result_error \<Rightarrow> bool option" where
  "IsMethodErrorRecoverable err =
     (let code = code_of_error err in
      if code \<in> error_number method_errc_values ` {kSkeletonAlreadyDestroyed, kUnknownProxy, kNotSubscribed, kNotOffered} then Some True
      else if code \<in> error_number method_errc_values ` {kUnexpectedMessage, kUnexpectedMessageSize, kMessagePassingError} then Some False
      else None)"

subsection \<open>In the process of the service\<close>

definition CallSubscribeServiceMethodLocally ::
  "('s, 'c, 'w) method_handlers \<Rightarrow> ('s, 'c) method_service \<Rightarrow> skeleton_instance_identifier \<Rightarrow> proxy_instance_identifier \<Rightarrow>
   uid_t \<Rightarrow> pid_t \<Rightarrow> 'w \<Rightarrow> code_result \<times> 'w" where
  "CallSubscribeServiceMethodLocally handlers m skeleton proxy proxy_uid proxy_pid w =
     (case subscribe_service_method_handlers m skeleton of
        None \<Rightarrow> (method_error kNotOffered, w)
      | Some (handler, allowed_proxy_uids) \<Rightarrow>
          if (case allowed_proxy_uids of None \<Rightarrow> False | Some uids \<Rightarrow> proxy_uid \<notin> uids) then (method_error kUnknownProxy, w)
          else
            (case invoke_subscribed handlers handler proxy proxy_uid proxy_pid w of
               (None, w) \<Rightarrow> (method_error kSkeletonAlreadyDestroyed, w)
             | (Some r, w) \<Rightarrow> (r, w)))"

definition CallServiceMethodLocally ::
  "('s, 'c, 'w) method_handlers \<Rightarrow> ('s, 'c) method_service \<Rightarrow> proxy_method_instance_identifier \<Rightarrow> u64 \<Rightarrow> uid_t \<Rightarrow> 'w \<Rightarrow>
   code_result \<times> 'w" where
  "CallServiceMethodLocally handlers m proxy_method queue_position proxy_uid w =
     (case call_method_handlers m proxy_method of
        None \<Rightarrow> (method_error kNotSubscribed, w)
      | Some (handler, allowed_proxy_uid) \<Rightarrow>
          if allowed_proxy_uid \<noteq> proxy_uid then (method_error kUnknownProxy, w)
          else
            (case invoke_call handlers handler queue_position w of
               (None, w) \<Rightarrow> (method_error kSkeletonAlreadyDestroyed, w)
             | (Some _, w) \<Rightarrow> (Inr (), w)))"

definition HandleSubscribeServiceMethodMsg ::
  "method_layouts \<Rightarrow> ('s, 'c, 'w) method_handlers \<Rightarrow> ('s, 'c) method_service \<Rightarrow> u8 list \<Rightarrow> uid_t \<Rightarrow> pid_t \<Rightarrow> 'w \<Rightarrow>
   code_result \<times> 'w" where
  "HandleSubscribeServiceMethodMsg abi handlers m payload sender_uid sender w =
     (case DeserializeFromPayload (subscribe_layout abi) payload of
        None \<Rightarrow> (method_error kUnexpectedMessageSize, w)
      | Some (skeleton, proxy) \<Rightarrow> CallSubscribeServiceMethodLocally handlers m skeleton proxy sender_uid sender w)"

definition HandleCallMethodMsg ::
  "method_layouts \<Rightarrow> ('s, 'c, 'w) method_handlers \<Rightarrow> ('s, 'c) method_service \<Rightarrow> u8 list \<Rightarrow> uid_t \<Rightarrow> 'w \<Rightarrow> code_result \<times> 'w" where
  "HandleCallMethodMsg abi handlers m payload sender_uid w =
     (case DeserializeFromPayload (call_layout abi) payload of
        None \<Rightarrow> (method_error kUnexpectedMessageSize, w)
      | Some (proxy_method, queue_position) \<Rightarrow> CallServiceMethodLocally handlers m proxy_method queue_position sender_uid w)"

definition MessageCallbackWithReply ::
  "method_layouts \<Rightarrow> ('s, 'c, 'w) method_handlers \<Rightarrow> ('s, 'c) method_service \<Rightarrow> uid_t \<Rightarrow> pid_t \<Rightarrow> u8 list \<Rightarrow> 'w \<Rightarrow>
   code_result \<times> 'w" where
  "MessageCallbackWithReply abi handlers m sender_uid sender message w =
     (case message of
        [] \<Rightarrow> (method_error kUnexpectedMessageSize, w)
      | t # payload \<Rightarrow>
          if t = message_with_reply_type_number kSubscribeServiceMethod
          then HandleSubscribeServiceMethodMsg abi handlers m payload sender_uid sender w
          else if t = message_with_reply_type_number kCallMethod
          then HandleCallMethodMsg abi handlers m payload sender_uid w
          else (method_error kUnexpectedMessage, w))"

text \<open>
  The callback for messages with a reply: it yields the replies it has sent, in order, and whether the
  connection to the client goes on. The scope of the callback may have expired, and the
  connection may refuse a reply.
\<close>

definition SendMessageWithReplyCallback ::
  "method_layouts \<Rightarrow> ('s, 'c, 'w) method_handlers \<Rightarrow> ('s, 'c) method_service \<Rightarrow> bool \<Rightarrow> (u8 list \<Rightarrow> bool) \<Rightarrow>
   uid_t \<Rightarrow> pid_t \<Rightarrow> u8 list \<Rightarrow> 'w \<Rightarrow> (u8 list list \<times> bool \<times> 'w) option" where
  "SendMessageWithReplyCallback abi handlers m scope_exists reply_accepted client_uid client_pid message w =
     (if \<not> scope_exists then do {
        reply \<leftarrow> SerializeToMethodReplyMessage abi (method_error kSkeletonAlreadyDestroyed);
        if \<not> reply_accepted reply then Some ([reply], False, w) else None
      }
      else
        let (r, w) = MessageCallbackWithReply abi handlers m client_uid client_pid message w in do {
          unrecoverable \<leftarrow> (case r of Inr _ \<Rightarrow> Some False | Inl err \<Rightarrow> map_option Not (IsMethodErrorRecoverable err));
          reply \<leftarrow> SerializeToMethodReplyMessage abi r;
          Some ([reply], reply_accepted reply \<and> \<not> unrecoverable, w)
        })"

subsection \<open>In the process of the proxy\<close>

text \<open>Sending a message and waiting for its reply, which may fail, is a parameter.\<close>

type_synonym 'w send_wait_reply = "pid_t \<Rightarrow> u8 list \<Rightarrow> 'w \<Rightarrow> (unit + u8 list) \<times> 'w"

definition CallSubscribeServiceMethodRemotely ::
  "method_layouts \<Rightarrow> 'w send_wait_reply \<Rightarrow> skeleton_instance_identifier \<Rightarrow> proxy_instance_identifier \<Rightarrow> pid_t \<Rightarrow> 'w \<Rightarrow>
   (code_result \<times> 'w) option" where
  "CallSubscribeServiceMethodRemotely abi send skeleton proxy target w =
     (case send target (SerializeToMessage (subscribe_layout abi) (message_with_reply_type_number kSubscribeServiceMethod)
         (skeleton, proxy)) w of
        (Inl _, w) \<Rightarrow> Some (method_error kMessagePassingError, w)
      | (Inr reply, w) \<Rightarrow> do {
          deserialization_result \<leftarrow> DeserializeFromMethodReplyPayload abi reply;
          Some (case deserialization_result of Inl e \<Rightarrow> Inl e | Inr r \<Rightarrow> r, w)
        })"

definition CallServiceMethodRemotely ::
  "method_layouts \<Rightarrow> 'w send_wait_reply \<Rightarrow> proxy_method_instance_identifier \<Rightarrow> u64 \<Rightarrow> pid_t \<Rightarrow> 'w \<Rightarrow> (code_result \<times> 'w) option" where
  "CallServiceMethodRemotely abi send proxy_method queue_position target w =
     (case send target (SerializeToMessage (call_layout abi) (message_with_reply_type_number kCallMethod)
         (proxy_method, queue_position)) w of
        (Inl _, w) \<Rightarrow> Some (method_error kMessagePassingError, w)
      | (Inr reply, w) \<Rightarrow> do {
          deserialization_result \<leftarrow> DeserializeFromMethodReplyPayload abi reply;
          Some (case deserialization_result of
              Inl _ \<Rightarrow> method_error kUnexpectedMessageSize
            | Inr (Inl e) \<Rightarrow> Inl e
            | Inr (Inr _) \<Rightarrow> Inr (), w)
        })"

definition binding_result :: "code_result \<Rightarrow> code_result" where
  "binding_result r = (case r of Inl _ \<Rightarrow> com_error kBindingFailure | Inr _ \<Rightarrow> Inr ())"

definition SubscribeServiceMethod ::
  "method_layouts \<Rightarrow> ('s, 'c, 'w) method_handlers \<Rightarrow> 'w send_wait_reply \<Rightarrow> ('s, 'c) method_service \<Rightarrow>
   skeleton_instance_identifier \<Rightarrow> proxy_instance_identifier \<Rightarrow> pid_t \<Rightarrow> 'w \<Rightarrow> (code_result \<times> 'w) option" where
  "SubscribeServiceMethod abi handlers send m skeleton proxy target w =
     map_option (map_prod binding_result id)
       (if target = method_self_pid m
        then Some (CallSubscribeServiceMethodLocally handlers m skeleton proxy (method_self_uid m) target w)
        else CallSubscribeServiceMethodRemotely abi send skeleton proxy target w)"

definition CallMethod ::
  "method_layouts \<Rightarrow> ('s, 'c, 'w) method_handlers \<Rightarrow> 'w send_wait_reply \<Rightarrow> ('s, 'c) method_service \<Rightarrow>
   proxy_method_instance_identifier \<Rightarrow> u64 \<Rightarrow> pid_t \<Rightarrow> 'w \<Rightarrow> (code_result \<times> 'w) option" where
  "CallMethod abi handlers send m proxy_method queue_position target w =
     map_option (map_prod binding_result id)
       (if target = method_self_pid m
        then Some (CallServiceMethodLocally handlers m proxy_method queue_position (method_self_uid m) w)
        else CallServiceMethodRemotely abi send proxy_method queue_position target w)"

subsection \<open>Registering handlers\<close>

definition RegisterOnServiceMethodSubscribedHandler ::
  "skeleton_instance_identifier \<Rightarrow> 's \<Rightarrow> uid_t set option \<Rightarrow> ('s, 'c) method_service \<Rightarrow> code_result \<times> ('s, 'c) method_service" where
  "RegisterOnServiceMethodSubscribedHandler skeleton callback allowed_proxy_uids m =
     (if subscribe_service_method_handlers m skeleton \<noteq> None then (com_error kBindingFailure, m)
      else (Inr (), m\<lparr>subscribe_service_method_handlers :=
             (subscribe_service_method_handlers m)(skeleton \<mapsto> (callback, allowed_proxy_uids))\<rparr>))"

definition RegisterMethodCallHandler ::
  "proxy_method_instance_identifier \<Rightarrow> 'c \<Rightarrow> uid_t \<Rightarrow> ('s, 'c) method_service \<Rightarrow> (code_result \<times> ('s, 'c) method_service) option" where
  "RegisterMethodCallHandler proxy_method callback allowed_proxy_uid m = do {
     assert_prd (call_method_handlers m proxy_method = None);
     Some (Inr (), m\<lparr>call_method_handlers := (call_method_handlers m)(proxy_method \<mapsto> (callback, allowed_proxy_uid))\<rparr>)
   }"

definition UnregisterOnServiceMethodSubscribedHandler ::
  "skeleton_instance_identifier \<Rightarrow> ('s, 'c) method_service \<Rightarrow> ('s, 'c) method_service option" where
  "UnregisterOnServiceMethodSubscribedHandler skeleton m = do {
     assert_prd (subscribe_service_method_handlers m skeleton \<noteq> None);
     Some (m\<lparr>subscribe_service_method_handlers := (subscribe_service_method_handlers m)(skeleton := None)\<rparr>)
   }"

definition UnregisterMethodCallHandler ::
  "proxy_method_instance_identifier \<Rightarrow> ('s, 'c) method_service \<Rightarrow> ('s, 'c) method_service option" where
  "UnregisterMethodCallHandler proxy_method m = do {
     assert_prd (call_method_handlers m proxy_method \<noteq> None);
     Some (m\<lparr>call_method_handlers := (call_method_handlers m)(proxy_method := None)\<rparr>)
   }"

subsection \<open>The bytes of the messages\<close>

definition bytes32 :: "u32 \<Rightarrow> u8 list" where
  "bytes32 w = bytes16 (ucast w) @ bytes16 (ucast (drop_bit 16 w))"

definition word32_at :: "u8 list \<Rightarrow> nat \<Rightarrow> u32" where
  "word32_at bs i = ucast (word16 (bs ! i) (bs ! (i + 1))) OR push_bit 16 (ucast (word16 (bs ! (i + 2)) (bs ! (i + 3))))"

definition proxy_bytes :: "proxy_instance_identifier \<Rightarrow> u8 list" where
  "proxy_bytes p = bytes32 (proxy_application_id p) @ bytes16 (proxy_instance_counter p) @ [0, 0]"

definition proxy_at :: "u8 list \<Rightarrow> nat \<Rightarrow> proxy_instance_identifier" where
  "proxy_at bs i = \<lparr>proxy_application_id = word32_at bs i, proxy_instance_counter = word16 (bs ! (i + 4)) (bs ! (i + 5))\<rparr>"

definition subscribe_bytes :: "subscribe_payload layout" where
  "subscribe_bytes = \<lparr>sizeof = 12,
     to_bytes = (\<lambda>(s, p). bytes16 (skeleton_service_id s) @ bytes16 (skeleton_instance_id s) @ proxy_bytes p),
     of_bytes = (\<lambda>bs. (\<lparr>skeleton_service_id = word16 (bs ! 0) (bs ! 1), skeleton_instance_id = word16 (bs ! 2) (bs ! 3)\<rparr>,
       proxy_at bs 4))\<rparr>"

definition call_bytes :: "call_payload layout" where
  "call_bytes = \<lparr>sizeof = 24,
     to_bytes = (\<lambda>(m, q). proxy_bytes (method_proxy_instance m) @ bytes16 (method_or_field_id (method_unique_id m)) @
       [method_type_number (id_method_type (method_unique_id m)), 0, 0, 0, 0, 0] @
       bytes32 (ucast q) @ bytes32 (ucast (drop_bit 32 q))),
     of_bytes = (\<lambda>bs. (\<lparr>method_proxy_instance = proxy_at bs 0,
         method_unique_id = \<lparr>method_or_field_id = word16 (bs ! 8) (bs ! 9),
           id_method_type = (if bs ! 10 = 1 then kMethod else if bs ! 10 = 2 then kGet else if bs ! 10 = 3 then kSet else kUnknown)\<rparr>\<rparr>,
       ucast (word32_at bs 16) OR push_bit 32 (ucast (word32_at bs 20))))\<rparr>"

definition little_endian_methods :: method_layouts where
  "little_endian_methods = \<lparr>subscribe_layout = subscribe_bytes, call_layout = call_bytes, reply_layout = pid_bytes\<rparr>"

lemma word64_halves: "ucast (ucast w :: u32) OR push_bit 32 (ucast (ucast (drop_bit 32 w) :: u32)) = w" for w :: u64
  by (rule bit_word_eqI) (auto simp: bit_simps)

lemmas byte_defs = bytes32_def word32_at_def proxy_bytes_def proxy_at_def bytes16_def word16_bytes16 word32_halves word64_halves

interpretation subscribe_object: object_layout subscribe_bytes "\<lambda>x. True"
  by standard (simp_all add: subscribe_bytes_def byte_defs split_beta prod_eq_iff)

interpretation call_object: object_layout call_bytes "\<lambda>x. True"
proof
  fix x :: call_payload
  show "of_bytes call_bytes (to_bytes call_bytes x) = x"
    by (cases "id_method_type (method_unique_id (fst x))")
      (simp_all add: call_bytes_def byte_defs split_beta method_type_number_def prod_eq_iff)
qed (simp add: call_bytes_def byte_defs split_beta)

subsection \<open>Remote calls are local calls\<close>

text \<open>The results that the reply of a service can express: success and the errors of the message protocol.\<close>

definition protocol_result :: "code_result \<Rightarrow> bool" where
  "protocol_result r \<longleftrightarrow>
     (case r of
        Inr _ \<Rightarrow> True
      | Inl (Method_Error e) \<Rightarrow> e \<noteq> method_errc.kInvalid \<and> e \<noteq> method_errc.kNumEnumElements
      | Inl _ \<Rightarrow> False)"

text \<open>The results after which the service keeps the connection.\<close>

definition keeps_connection :: "code_result \<Rightarrow> bool" where
  "keeps_connection r \<longleftrightarrow>
     r \<notin> {method_error kUnexpectedMessage, method_error kUnexpectedMessageSize, method_error kMessagePassingError}"

text \<open>What the messages rely on: objects can be copied into bytes and back.\<close>

definition copies_methods :: "method_layouts \<Rightarrow> bool" where
  "copies_methods abi \<longleftrightarrow> object_layout (subscribe_layout abi) (\<lambda>x. True) \<and> object_layout (call_layout abi) (\<lambda>x. True) \<and>
     object_layout (reply_layout abi) (\<lambda>n. 0 \<le> n \<and> n < 8)"

lemma copies_methods_little_endian: "copies_methods little_endian_methods"
proof -
  have "object_layout pid_bytes (\<lambda>n. 0 \<le> n \<and> n < 8)"
    by standard (simp_all add: pid_object.length_to_bytes pid_object.of_to_bytes)
  then show ?thesis
    by (simp add: copies_methods_def little_endian_methods_def subscribe_object.object_layout_axioms call_object.object_layout_axioms)
qed

lemma code_ends:
  "error_number method_errc_values (hd method_errc_values) = 0"
  "error_number method_errc_values (last method_errc_values) = 8" "length method_errc_values = 9"
  by (simp_all add: method_errc_values_def error_number_def)

lemma reply_round_trip:
  assumes "copies_methods abi" "protocol_result r"
  shows "\<exists>b. SerializeToMethodReplyMessage abi r = Some b \<and> DeserializeFromMethodReplyPayload abi b = Some (Inr r)"
proof -
  from assms(1) have l: "object_layout (reply_layout abi) (\<lambda>n. 0 \<le> n \<and> n < 8)" by (simp add: copies_methods_def)
  show ?thesis
  proof (cases r)
    case (Inl err)
    with assms(2) obtain e where e: "err = Method_Error e" "e \<noteq> method_errc.kInvalid" "e \<noteq> method_errc.kNumEnumElements"
      by (cases err) (simp_all add: protocol_result_def)
    let ?n = "error_number method_errc_values e"
    have n: "0 < ?n" "?n < 8" "method_errc_values ! nat ?n = e"
      using e(2,3) by (cases e; simp add: error_number_def method_errc_values_def)+
    with Inl e(1) object_layout.length_to_bytes [OF l, of ?n] object_layout.of_to_bytes [OF l, of ?n] show ?thesis
      by (simp add: SerializeToMethodReplyMessage_def DeserializeFromMethodReplyPayload_def SerializeError_def Deserialize_def
          code_ends nat_less_iff)
  next
    case (Inr u)
    with object_layout.length_to_bytes [OF l, of 0] object_layout.of_to_bytes [OF l, of 0] show ?thesis
      by (simp add: SerializeToMethodReplyMessage_def DeserializeFromMethodReplyPayload_def Deserialize_def SerializeSuccess_def code_ends)
  qed
qed

text \<open>
  A connection to the service: an open one brings each message to the service and its reply back, and the
  service may close it after the reply. On a closed one, or when the service ends, sending fails.
\<close>

definition connected_to ::
  "method_layouts \<Rightarrow> ('s, 'c, 'w) method_handlers \<Rightarrow> ('s, 'c) method_service \<Rightarrow> uid_t \<Rightarrow> pid_t \<Rightarrow> (bool \<times> 'w) send_wait_reply" where
  "connected_to abi handlers m uid pid target message s =
     (case s of (is_open, w) \<Rightarrow>
        if \<not> is_open then (Inl (), s)
        else
          (case SendMessageWithReplyCallback abi handlers m True (\<lambda>reply. True) uid pid message w of
             Some (reply # _, goes_on, w') \<Rightarrow> (Inr reply, (goes_on, w'))
           | _ \<Rightarrow> (Inl (), (False, w))))"

lemma recoverable_result:
  assumes "protocol_result (Inl err)"
  shows "IsMethodErrorRecoverable err = Some (keeps_connection (Inl err))"
proof -
  obtain e where e: "err = Method_Error e" "e \<noteq> method_errc.kInvalid" "e \<noteq> method_errc.kNumEnumElements"
    using assms by (cases err) (simp_all add: protocol_result_def)
  then show ?thesis
    by (cases e) (simp_all add: IsMethodErrorRecoverable_def keeps_connection_def method_errc_values_def error_number_def)
qed

lemma connected_to_reply:
  assumes "copies_methods abi" "MessageCallbackWithReply abi handlers m uid pid message w = (r, w')" "protocol_result r"
  shows "\<exists>b. connected_to abi handlers m uid pid target message (True, w) = (Inr b, (keeps_connection r, w')) \<and>
    DeserializeFromMethodReplyPayload abi b = Some (Inr r)"
proof -
  obtain b where "SerializeToMethodReplyMessage abi r = Some b" "DeserializeFromMethodReplyPayload abi b = Some (Inr r)"
    using reply_round_trip [OF assms(1,3)] by blast
  with assms(2,3) show ?thesis
    by (cases r) (simp_all add: connected_to_def SendMessageWithReplyCallback_def recoverable_result, simp add: keeps_connection_def)
qed

lemma call_result_protocol:
  "protocol_result (fst (CallServiceMethodLocally handlers m proxy_method queue_position uid w))"
  "keeps_connection (fst (CallServiceMethodLocally handlers m proxy_method queue_position uid w))"
  by (auto simp: CallServiceMethodLocally_def protocol_result_def keeps_connection_def split: option.split prod.split)

lemma subscribe_message:
  "copies_methods abi \<Longrightarrow> MessageCallbackWithReply abi handlers m uid pid
     (SerializeToMessage (subscribe_layout abi) (message_with_reply_type_number kSubscribeServiceMethod) (skeleton, proxy)) w =
   CallSubscribeServiceMethodLocally handlers m skeleton proxy uid pid w"
  using object_layout.payload_round_trip [of "subscribe_layout abi" "\<lambda>x. True" "(skeleton, proxy)"]
  by (simp add: copies_methods_def SerializeToMessage_def MessageCallbackWithReply_def HandleSubscribeServiceMethodMsg_def)

lemma call_message:
  "copies_methods abi \<Longrightarrow> MessageCallbackWithReply abi handlers m uid pid
     (SerializeToMessage (call_layout abi) (message_with_reply_type_number kCallMethod) (proxy_method, queue_position)) w =
   CallServiceMethodLocally handlers m proxy_method queue_position uid w"
  using object_layout.payload_round_trip [of "call_layout abi" "\<lambda>x. True" "(proxy_method, queue_position)"]
  by (simp add: copies_methods_def SerializeToMessage_def MessageCallbackWithReply_def HandleCallMethodMsg_def
      message_with_reply_type_number_def)

text \<open>
  C38. Over an open connection to a service that runs, whose replies are accepted, and objects that can be
  copied as bytes, calling a method remotely has the result and the effect of a local call by the same user,
  and leaves the connection open. A remote subscription has the result, with its error domain, and the
  effect of a local one whenever that result is success or an error of the message protocol; the connection
  stays open unless the error is one of an unexpected message, an unexpected size or the message passing
  itself. On a closed connection both fail with \<open>kMessagePassingError\<close>, without any effect.
\<close>

theorem remote_method_calls_are_local:
  assumes "copies_methods abi"
  shows "CallServiceMethodRemotely abi (connected_to abi handlers m uid pid) proxy_method queue_position target (True, w) =
      (case CallServiceMethodLocally handlers m proxy_method queue_position uid w of (r, w') \<Rightarrow> Some (r, True, w')) \<and>
    (case CallSubscribeServiceMethodLocally handlers m skeleton proxy uid pid w of (r, w') \<Rightarrow>
       protocol_result r \<longrightarrow>
       CallSubscribeServiceMethodRemotely abi (connected_to abi handlers m uid pid) skeleton proxy target (True, w) =
         Some (r, keeps_connection r, w')) \<and>
    CallServiceMethodRemotely abi (connected_to abi handlers m uid pid) proxy_method queue_position target (False, w) =
      Some (method_error kMessagePassingError, False, w) \<and>
    CallSubscribeServiceMethodRemotely abi (connected_to abi handlers m uid pid) skeleton proxy target (False, w) =
      Some (method_error kMessagePassingError, False, w)"
proof -
  obtain r w1 where call: "CallServiceMethodLocally handlers m proxy_method queue_position uid w = (r, w1)" by fastforce
  then have "protocol_result r" "keeps_connection r"
    using call_result_protocol [of handlers m proxy_method queue_position uid w] by simp_all
  with connected_to_reply [OF assms trans [OF call_message [OF assms] call], of pid target] have
    "CallServiceMethodRemotely abi (connected_to abi handlers m uid pid) proxy_method queue_position target (True, w) =
      Some (r, True, w1)"
    by (auto simp: CallServiceMethodRemotely_def split: sum.split)
  moreover obtain r' w2 where sub: "CallSubscribeServiceMethodLocally handlers m skeleton proxy uid pid w = (r', w2)" by fastforce
  then have "CallSubscribeServiceMethodRemotely abi (connected_to abi handlers m uid pid) skeleton proxy target (True, w) =
      Some (r', keeps_connection r', w2)" if "protocol_result r'"
    using connected_to_reply [OF assms trans [OF subscribe_message [OF assms] sub] that, of target]
    by (auto simp: CallSubscribeServiceMethodRemotely_def)
  ultimately show ?thesis
    using call sub by (simp add: CallServiceMethodRemotely_def CallSubscribeServiceMethodRemotely_def connected_to_def)
qed

definition example_proxy_method :: proxy_method_instance_identifier where
  "example_proxy_method = \<lparr>method_proxy_instance = \<lparr>proxy_application_id = 5, proxy_instance_counter = 1\<rparr>,
     method_unique_id = \<lparr>method_or_field_id = 2, id_method_type = kMethod\<rparr>\<rparr>"

definition example_methods :: "(string, string) method_service" where
  "example_methods = \<lparr>subscribe_service_method_handlers =
       [\<lparr>skeleton_service_id = 1, skeleton_instance_id = 2\<rparr> \<mapsto> (''subscribe'', None)],
     call_method_handlers = [example_proxy_method \<mapsto> (''call'', 7)], method_self_pid = 20, method_self_uid = 3\<rparr>"

text \<open>Handlers that count their calls; subscribing is refused.\<close>

definition counting_handlers :: "(string, string, nat) method_handlers" where
  "counting_handlers = \<lparr>invoke_subscribed = (\<lambda>h proxy uid pid w. (Some (com_error kBindingFailure), w + 1)),
     invoke_call = (\<lambda>h q w. (Some (), w + 1))\<rparr>"

theorem remote_method_calls_are_local_witness:
  "CallServiceMethodRemotely little_endian_methods (connected_to little_endian_methods counting_handlers example_methods 7 10)
     example_proxy_method 0 20 (True, 5) = Some (Inr (), True, 6) \<and>
   CallSubscribeServiceMethodRemotely little_endian_methods (connected_to little_endian_methods counting_handlers example_methods 7 10)
     \<lparr>skeleton_service_id = 9, skeleton_instance_id = 9\<rparr> \<lparr>proxy_application_id = 5, proxy_instance_counter = 1\<rparr> 20 (True, 5) =
     Some (method_error kNotOffered, True, 5)"
  using remote_method_calls_are_local [OF copies_methods_little_endian, of counting_handlers example_methods 7 10 example_proxy_method 0
      20 5 "\<lparr>skeleton_service_id = 9, skeleton_instance_id = 9\<rparr>" "\<lparr>proxy_application_id = 5, proxy_instance_counter = 1\<rparr>"]
  by (simp add: CallServiceMethodLocally_def CallSubscribeServiceMethodLocally_def example_methods_def counting_handlers_def
      protocol_result_def keeps_connection_def)

text \<open>
  C40. A subscription that the service refuses with \<open>kBindingFailure\<close> of the communication
  layer is misread: its number is sent without its domain, means a message of an unexpected size on the
  other side, and lets the service close the connection to the proxy.
\<close>

theorem binding_failure_closes_connection:
  assumes "copies_methods abi" "CallSubscribeServiceMethodLocally handlers m skeleton proxy uid pid w = (com_error kBindingFailure, w')"
  shows "CallSubscribeServiceMethodRemotely abi (connected_to abi handlers m uid pid) skeleton proxy target (True, w) =
      Some (method_error kUnexpectedMessageSize, False, w') \<and>
    (\<exists>reply. SendMessageWithReplyCallback abi handlers m True (\<lambda>reply. True) uid pid
      (SerializeToMessage (subscribe_layout abi) (message_with_reply_type_number kSubscribeServiceMethod) (skeleton, proxy)) w =
      Some ([reply], False, w'))"
proof -
  have "code_of_error (Com_Error kBindingFailure) = code_of_error (Method_Error kUnexpectedMessageSize)"
    by (simp add: com_errc_values_def method_errc_values_def error_number_def)
  then have same: "SerializeToMethodReplyMessage abi (com_error kBindingFailure) =
      SerializeToMethodReplyMessage abi (method_error kUnexpectedMessageSize)"
    "IsMethodErrorRecoverable (Com_Error kBindingFailure) = IsMethodErrorRecoverable (Method_Error kUnexpectedMessageSize)"
    unfolding SerializeToMethodReplyMessage_def IsMethodErrorRecoverable_def by (simp_all only: sum.case Let_def)
  have size: "protocol_result (method_error kUnexpectedMessageSize)" "\<not> keeps_connection (method_error kUnexpectedMessageSize)"
    by (simp_all add: protocol_result_def keeps_connection_def)
  obtain b where "SerializeToMethodReplyMessage abi (com_error kBindingFailure) = Some b"
    "DeserializeFromMethodReplyPayload abi b = Some (Inr (method_error kUnexpectedMessageSize))"
    using reply_round_trip [OF assms(1) size(1)] same(1) by auto
  with size same(2) recoverable_result [OF size(1)] trans [OF subscribe_message [OF assms(1)] assms(2)] show ?thesis
    by (simp add: CallSubscribeServiceMethodRemotely_def SendMessageWithReplyCallback_def connected_to_def)
qed

theorem binding_failure_closes_connection_witness:
  "CallSubscribeServiceMethodRemotely little_endian_methods
     (connected_to little_endian_methods counting_handlers example_methods 7 10)
     \<lparr>skeleton_service_id = 1, skeleton_instance_id = 2\<rparr> \<lparr>proxy_application_id = 5, proxy_instance_counter = 1\<rparr> 20 (True, 5) =
   Some (method_error kUnexpectedMessageSize, False, 6)"
  using binding_failure_closes_connection [OF copies_methods_little_endian, of counting_handlers example_methods
      "\<lparr>skeleton_service_id = 1, skeleton_instance_id = 2\<rparr>" "\<lparr>proxy_application_id = 5, proxy_instance_counter = 1\<rparr>" 7 10 5 6 20]
  by (simp add: CallSubscribeServiceMethodLocally_def example_methods_def counting_handlers_def)

text \<open>
  C39. A message makes the service run a handler only for a user who may: whatever bytes arrive, if
  anything happens, it is one call of a registered handler with the identity of the sender,
  and the handler either admits every user or names the sender among its users.
\<close>

theorem handlers_run_for_allowed_users:
  assumes "MessageCallbackWithReply abi handlers m uid pid message w = (r, w')" "w' \<noteq> w"
  shows "(\<exists>skeleton h allowed proxy. subscribe_service_method_handlers m skeleton = Some (h, allowed) \<and>
      (allowed = None \<or> uid \<in> the allowed) \<and> w' = snd (invoke_subscribed handlers h proxy uid pid w)) \<or>
    (\<exists>proxy_method h queue_position. call_method_handlers m proxy_method = Some (h, uid) \<and>
      w' = snd (invoke_call handlers h queue_position w))"
proof -
  have sub: ?thesis if "CallSubscribeServiceMethodLocally handlers m skeleton proxy uid pid w = (r, w')" for skeleton proxy
  proof -
    from that assms(2) obtain h a where "subscribe_service_method_handlers m skeleton = Some (h, a)"
      "a = None \<or> uid \<in> the a" "w' = snd (invoke_subscribed handlers h proxy uid pid w)"
      by (auto simp: CallSubscribeServiceMethodLocally_def split: option.splits prod.splits if_splits)
    then show ?thesis by blast
  qed
  have call: ?thesis if "CallServiceMethodLocally handlers m pm q uid w = (r, w')" for pm q
  proof -
    from that assms(2) obtain h where "call_method_handlers m pm = Some (h, uid)" "w' = snd (invoke_call handlers h q w)"
      by (auto simp: CallServiceMethodLocally_def split: option.splits prod.splits if_splits)
    then show ?thesis by blast
  qed
  from assms have "(\<exists>skeleton proxy. CallSubscribeServiceMethodLocally handlers m skeleton proxy uid pid w = (r, w')) \<or>
    (\<exists>pm q. CallServiceMethodLocally handlers m pm q uid w = (r, w'))"
    by (auto simp: MessageCallbackWithReply_def HandleSubscribeServiceMethodMsg_def HandleCallMethodMsg_def
        split: list.splits if_splits option.splits prod.splits)
  then show ?thesis using sub call by blast
qed

theorem handlers_run_for_allowed_users_witness:
  "(\<exists>skeleton h allowed proxy. subscribe_service_method_handlers example_methods skeleton = Some (h, allowed) \<and>
      (allowed = None \<or> 7 \<in> the allowed) \<and> 6 = snd (invoke_subscribed counting_handlers h proxy 7 10 5)) \<or>
    (\<exists>proxy_method h queue_position. call_method_handlers example_methods proxy_method = Some (h, 7) \<and>
      6 = snd (invoke_call counting_handlers h queue_position 5))"
proof -
  have "MessageCallbackWithReply little_endian_methods counting_handlers example_methods 7 10
      (SerializeToMessage (call_layout little_endian_methods) (message_with_reply_type_number kCallMethod) (example_proxy_method, 0)) 5 =
    (Inr (), 6)"
    by (simp add: call_message [OF copies_methods_little_endian] CallServiceMethodLocally_def example_methods_def counting_handlers_def)
  then show ?thesis by (rule handlers_run_for_allowed_users) simp
qed

end
