(* ===== verification/Message_Service.thy ===== *)
theory Message_Service
  imports Method_Messages
begin

text \<open>
  \<^verbatim>\<open>messaging/message_passing_service.cpp\<close>: the service instances of a process, one for
  QM and one for ASIL-B if that is configured, and the guards that the registrations of method
  handlers return, \<^verbatim>\<open>messaging/method_call_registration_guard.cpp\<close> and
  \<^verbatim>\<open>messaging/method_subscription_registration_guard.cpp\<close>.

  An instance consists of its part for events and its part for methods. Asking for the
  ASIL-B instance of a process without one dereferences a null pointer; the model treats it
  like the failed assertion for an invalid level and yields \<open>None\<close>.
\<close>

record ('h, 'b, 's, 'c) messaging_instance =
  event_part :: "('h, 'b) service_instance"
  method_part :: "('s, 'c) method_service"

record ('h, 'b, 's, 'c) message_passing_service =
  qm_instance :: "('h, 'b, 's, 'c) messaging_instance"
  asil_b_instance :: "('h, 'b, 's, 'c) messaging_instance option"

text \<open>What the factory makes: both parts start without any registration.\<close>

definition MessagePassingServiceInstanceFactory_Create ::
  "client_quality_type \<Rightarrow> pid_t \<Rightarrow> uid_t \<Rightarrow> ('h, 'b, 's, 'c) messaging_instance" where
  "MessagePassingServiceInstanceFactory_Create level pid uid =
     \<lparr>event_part = MessagePassingServiceInstance level pid uid,
      method_part = \<lparr>subscribe_service_method_handlers = Map.empty, call_method_handlers = Map.empty,
        method_self_pid = pid, method_self_uid = uid\<rparr>\<rparr>"

definition MessagePassingService :: "bool \<Rightarrow> pid_t \<Rightarrow> uid_t \<Rightarrow> ('h, 'b, 's, 'c) message_passing_service" where
  "MessagePassingService asil_b_configured pid uid =
     (let qm_client_quality_type = (if asil_b_configured then kASIL_QMfromB else client_quality_type.kASIL_QM)
      in \<lparr>qm_instance = MessagePassingServiceInstanceFactory_Create qm_client_quality_type pid uid,
          asil_b_instance = (if asil_b_configured
            then Some (MessagePassingServiceInstanceFactory_Create client_quality_type.kASIL_B pid uid) else None)\<rparr>)"

definition GetMessagePassingServiceInstance ::
  "quality_type \<Rightarrow> ('h, 'b, 's, 'c) message_passing_service \<Rightarrow> ('h, 'b, 's, 'c) messaging_instance option" where
  "GetMessagePassingServiceInstance level s =
     (case level of
        quality_type.kASIL_QM \<Rightarrow> Some (qm_instance s)
      | quality_type.kASIL_B \<Rightarrow> asil_b_instance s
      | quality_type.kInvalid \<Rightarrow> None)"

text \<open>The instance is an object: what an operation changes of it stays changed.\<close>

definition put_instance ::
  "quality_type \<Rightarrow> ('h, 'b, 's, 'c) messaging_instance \<Rightarrow> ('h, 'b, 's, 'c) message_passing_service \<Rightarrow>
   ('h, 'b, 's, 'c) message_passing_service" where
  "put_instance level x s =
     (if level = quality_type.kASIL_B then s\<lparr>asil_b_instance := Some x\<rparr> else s\<lparr>qm_instance := x\<rparr>)"

definition on_events ::
  "quality_type \<Rightarrow> (('h, 'b) service_instance \<Rightarrow> ('r \<times> ('h, 'b) service_instance) option) \<Rightarrow>
   ('h, 'b, 's, 'c) message_passing_service \<Rightarrow> ('r \<times> ('h, 'b, 's, 'c) message_passing_service) option" where
  "on_events level f s = do {
     x \<leftarrow> GetMessagePassingServiceInstance level s;
     (r, y) \<leftarrow> f (event_part x);
     Some (r, put_instance level (x\<lparr>event_part := y\<rparr>) s)
   }"

definition on_methods ::
  "quality_type \<Rightarrow> (('s, 'c) method_service \<Rightarrow> ('r \<times> ('s, 'c) method_service) option) \<Rightarrow>
   ('h, 'b, 's, 'c) message_passing_service \<Rightarrow> ('r \<times> ('h, 'b, 's, 'c) message_passing_service) option" where
  "on_methods level f s = do {
     x \<leftarrow> GetMessagePassingServiceInstance level s;
     (r, y) \<leftarrow> f (method_part x);
     Some (r, put_instance level (x\<lparr>method_part := y\<rparr>) s)
   }"

subsection \<open>Events\<close>

definition service_NotifyEvent ::
  "event_layouts \<Rightarrow> (nat \<Rightarrow> u64 \<rightharpoonup> pid_t list) \<Rightarrow> quality_type \<Rightarrow> element_fq_id \<Rightarrow>
   ('h, 'b, 's, 'c) message_passing_service \<Rightarrow> (unit \<times> ('h, 'b, 's, 'c) message_passing_service) option" where
  "service_NotifyEvent abi nodes level event = on_events level (\<lambda>x. Some ((), NotifyEvent abi nodes event x))"

definition service_RegisterEventNotification ::
  "event_layouts \<Rightarrow> quality_type \<Rightarrow> element_fq_id \<Rightarrow> 'h \<Rightarrow> pid_t \<Rightarrow>
   ('h, 'b, 's, 'c) message_passing_service \<Rightarrow> (u32 \<times> ('h, 'b, 's, 'c) message_passing_service) option" where
  "service_RegisterEventNotification abi level event callback target =
     on_events level (\<lambda>x. Some (RegisterEventNotification abi event callback target x))"

definition service_ReregisterEventNotification ::
  "event_layouts \<Rightarrow> quality_type \<Rightarrow> element_fq_id \<Rightarrow> pid_t \<Rightarrow>
   ('h, 'b, 's, 'c) message_passing_service \<Rightarrow> (unit \<times> ('h, 'b, 's, 'c) message_passing_service) option" where
  "service_ReregisterEventNotification abi level event target =
     on_events level (\<lambda>x. Some ((), ReregisterEventNotification abi event target x))"

definition service_UnregisterEventNotification ::
  "event_layouts \<Rightarrow> quality_type \<Rightarrow> element_fq_id \<Rightarrow> u32 \<Rightarrow> pid_t \<Rightarrow>
   ('h, 'b, 's, 'c) message_passing_service \<Rightarrow> (unit \<times> ('h, 'b, 's, 'c) message_passing_service) option" where
  "service_UnregisterEventNotification abi level event registration_no target =
     on_events level (\<lambda>x. map_option (Pair ()) (UnregisterEventNotification abi event registration_no target x))"

definition service_NotifyOutdatedNodeId ::
  "event_layouts \<Rightarrow> quality_type \<Rightarrow> pid_t \<Rightarrow> pid_t \<Rightarrow>
   ('h, 'b, 's, 'c) message_passing_service \<Rightarrow> (unit \<times> ('h, 'b, 's, 'c) message_passing_service) option" where
  "service_NotifyOutdatedNodeId abi level outdated target =
     on_events level (\<lambda>x. Some ((), NotifyOutdatedNodeId abi outdated target x))"

definition service_RegisterEventNotificationExistenceChangedCallback ::
  "quality_type \<Rightarrow> element_fq_id \<Rightarrow> 'b \<Rightarrow>
   ('h, 'b, 's, 'c) message_passing_service \<Rightarrow> (unit \<times> ('h, 'b, 's, 'c) message_passing_service) option" where
  "service_RegisterEventNotificationExistenceChangedCallback level event callback =
     on_events level (\<lambda>x. Some ((), RegisterEventNotificationExistenceChangedCallback event callback x))"

definition service_UnregisterEventNotificationExistenceChangedCallback ::
  "quality_type \<Rightarrow> element_fq_id \<Rightarrow>
   ('h, 'b, 's, 'c) message_passing_service \<Rightarrow> (unit \<times> ('h, 'b, 's, 'c) message_passing_service) option" where
  "service_UnregisterEventNotificationExistenceChangedCallback level event =
     on_events level (\<lambda>x. Some ((), UnregisterEventNotificationExistenceChangedCallback event x))"

subsection \<open>Methods\<close>

text \<open>
  A guard holds what its destructor unregisters. Destroying it does nothing once the scope of
  the service has ended.
\<close>

datatype registration_guard =
    Method_Subscription_Guard quality_type skeleton_instance_identifier
  | Method_Call_Guard quality_type proxy_method_instance_identifier

definition service_UnregisterOnServiceMethodSubscribedHandler ::
  "quality_type \<Rightarrow> skeleton_instance_identifier \<Rightarrow>
   ('h, 'b, 's, 'c) message_passing_service \<Rightarrow> (unit \<times> ('h, 'b, 's, 'c) message_passing_service) option" where
  "service_UnregisterOnServiceMethodSubscribedHandler level skeleton =
     on_methods level (\<lambda>x. map_option (Pair ()) (UnregisterOnServiceMethodSubscribedHandler skeleton x))"

definition service_UnregisterMethodCallHandler ::
  "quality_type \<Rightarrow> proxy_method_instance_identifier \<Rightarrow>
   ('h, 'b, 's, 'c) message_passing_service \<Rightarrow> (unit \<times> ('h, 'b, 's, 'c) message_passing_service) option" where
  "service_UnregisterMethodCallHandler level proxy_method =
     on_methods level (\<lambda>x. map_option (Pair ()) (UnregisterMethodCallHandler proxy_method x))"

definition destroy_guard ::
  "bool \<Rightarrow> registration_guard \<Rightarrow>
   ('h, 'b, 's, 'c) message_passing_service \<Rightarrow> (unit \<times> ('h, 'b, 's, 'c) message_passing_service) option" where
  "destroy_guard scope_exists guard s =
     (if \<not> scope_exists then Some ((), s)
      else case guard of
        Method_Subscription_Guard level skeleton \<Rightarrow> service_UnregisterOnServiceMethodSubscribedHandler level skeleton s
      | Method_Call_Guard level proxy_method \<Rightarrow> service_UnregisterMethodCallHandler level proxy_method s)"

definition service_RegisterOnServiceMethodSubscribedHandler ::
  "quality_type \<Rightarrow> skeleton_instance_identifier \<Rightarrow> 's \<Rightarrow> uid_t set option \<Rightarrow> ('h, 'b, 's, 'c) message_passing_service \<Rightarrow>
   ((result_error + registration_guard) \<times> ('h, 'b, 's, 'c) message_passing_service) option" where
  "service_RegisterOnServiceMethodSubscribedHandler level skeleton callback allowed_proxy_uids s = do {
     (r, s) \<leftarrow> on_methods level (\<lambda>x. Some (RegisterOnServiceMethodSubscribedHandler skeleton callback allowed_proxy_uids x)) s;
     Some (case r of Inl e \<Rightarrow> Inl e | Inr _ \<Rightarrow> Inr (Method_Subscription_Guard level skeleton), s)
   }"

definition service_RegisterMethodCallHandler ::
  "quality_type \<Rightarrow> proxy_method_instance_identifier \<Rightarrow> 'c \<Rightarrow> uid_t \<Rightarrow> ('h, 'b, 's, 'c) message_passing_service \<Rightarrow>
   ((result_error + registration_guard) \<times> ('h, 'b, 's, 'c) message_passing_service) option" where
  "service_RegisterMethodCallHandler level proxy_method callback allowed_proxy_uid s = do {
     (r, s) \<leftarrow> on_methods level (RegisterMethodCallHandler proxy_method callback allowed_proxy_uid) s;
     Some (case r of Inl e \<Rightarrow> Inl e | Inr _ \<Rightarrow> Inr (Method_Call_Guard level proxy_method), s)
   }"

text \<open>
  Subscribing to and calling methods does not change the instance; the handlers may change
  the state \<open>'w\<close>.
\<close>

definition service_SubscribeServiceMethod ::
  "method_layouts \<Rightarrow> ('s, 'c, 'w) method_handlers \<Rightarrow> 'w send_wait_reply \<Rightarrow> quality_type \<Rightarrow> skeleton_instance_identifier \<Rightarrow>
   proxy_instance_identifier \<Rightarrow> pid_t \<Rightarrow> ('h, 'b, 's, 'c) message_passing_service \<Rightarrow> 'w \<Rightarrow> (code_result \<times> 'w) option" where
  "service_SubscribeServiceMethod abi handlers send level skeleton proxy target s w = do {
     x \<leftarrow> GetMessagePassingServiceInstance level s;
     SubscribeServiceMethod abi handlers send (method_part x) skeleton proxy target w
   }"

definition service_CallMethod ::
  "method_layouts \<Rightarrow> ('s, 'c, 'w) method_handlers \<Rightarrow> 'w send_wait_reply \<Rightarrow> quality_type \<Rightarrow> proxy_method_instance_identifier \<Rightarrow>
   u64 \<Rightarrow> pid_t \<Rightarrow> ('h, 'b, 's, 'c) message_passing_service \<Rightarrow> 'w \<Rightarrow> (code_result \<times> 'w) option" where
  "service_CallMethod abi handlers send level proxy_method queue_position target s w = do {
     x \<leftarrow> GetMessagePassingServiceInstance level s;
     CallMethod abi handlers send (method_part x) proxy_method queue_position target w
   }"

subsection \<open>The instances are separate objects\<close>

lemma instance_access [simp]:
  "GetMessagePassingServiceInstance level (put_instance level' x s) =
     (if level = level' \<and> level \<noteq> quality_type.kInvalid then Some x
      else if level' = quality_type.kInvalid \<and> level = quality_type.kASIL_QM then Some x
      else GetMessagePassingServiceInstance level s)"
  by (cases level; cases level') (simp_all add: GetMessagePassingServiceInstance_def put_instance_def)

lemma put_same [simp]: "GetMessagePassingServiceInstance level s = Some x \<Longrightarrow> put_instance level x s = s"
  by (cases level) (auto simp: GetMessagePassingServiceInstance_def put_instance_def)

lemma put_put [simp]: "put_instance level x (put_instance level y s) = put_instance level x s"
  by (simp add: put_instance_def)

lemma instance_valid: "GetMessagePassingServiceInstance level s = Some x \<Longrightarrow> level \<noteq> quality_type.kInvalid"
  by (auto simp: GetMessagePassingServiceInstance_def)

lemma on_events_result:
  assumes "on_events level f s = Some (r, s')"
  obtains x y where "GetMessagePassingServiceInstance level s = Some x" "f (event_part x) = Some (r, y)"
    "s' = put_instance level (x\<lparr>event_part := y\<rparr>) s"
  using assms by (auto simp: on_events_def bind_eq_Some_conv)

lemma on_methods_result:
  assumes "on_methods level f s = Some (r, s')"
  obtains x y where "GetMessagePassingServiceInstance level s = Some x" "f (method_part x) = Some (r, y)"
    "s' = put_instance level (x\<lparr>method_part := y\<rparr>) s"
  using assms by (auto simp: on_methods_def bind_eq_Some_conv)

end
