(* ===== verification/Subscription_State_Machine.thy ===== *)
theory Subscription_State_Machine
  imports Message_Service Rollback_Executor Slot_Collector
begin

text \<open>
  \<^verbatim>\<open>subscription_state_machine.h/.cpp\<close> with its three states
  (\<^verbatim>\<open>subscription_not_subscribed_states.cpp\<close>,
  \<^verbatim>\<open>subscription_subscription_pending_states.cpp\<close>,
  \<^verbatim>\<open>subscription_subscribed_states.cpp\<close>), \<^verbatim>\<open>subscription_helpers.h/.cpp\<close>, and
  \<^verbatim>\<open>proxy_event_common.cpp\<close>, through which a proxy event uses the machine.

  The calls of one machine are serialised by its mutex. A call works on the machine, on the
  messaging service of the process and on the shared memory, whose other users may act at any
  atomic access. Assertions end the process, those of debug builds included.
\<close>

datatype subscription_state = NOT_SUBSCRIBED_STATE | SUBSCRIPTION_PENDING_STATE | SUBSCRIBED_STATE | STATE_COUNT

definition MessageForSubscriptionState :: "subscription_state \<Rightarrow> string" where
  "MessageForSubscriptionState state =
     (case state of
        NOT_SUBSCRIBED_STATE \<Rightarrow> ''Not Subscribed State.''
      | SUBSCRIPTION_PENDING_STATE \<Rightarrow> ''Subscription Pending State.''
      | SUBSCRIBED_STATE \<Rightarrow> ''Subscribed State.''
      | STATE_COUNT \<Rightarrow> ''Invalid state: State Count is not a valid state.'')"

subsection \<open>The manager of the receive handler\<close>

record event_receive_handler_manager =
  manager_asil_level :: quality_type
  manager_element :: element_fq_id
  event_source_pid :: pid_t
  registration_number :: "u32 option"

definition EventReceiveHandlerManager :: "quality_type \<Rightarrow> element_fq_id \<Rightarrow> pid_t \<Rightarrow> event_receive_handler_manager" where
  "EventReceiveHandlerManager level element pid =
     \<lparr>manager_asil_level = level, manager_element = element, event_source_pid = pid, registration_number = None\<rparr>"

definition manager_Unregister ::
  "event_layouts \<Rightarrow> event_receive_handler_manager \<Rightarrow> ('h, 'b, 's, 'c) message_passing_service \<Rightarrow>
   (event_receive_handler_manager \<times> ('h, 'b, 's, 'c) message_passing_service) option" where
  "manager_Unregister abi x s =
     (case registration_number x of
        None \<Rightarrow> Some (x, s)
      | Some no \<Rightarrow> do {
          (_, s) \<leftarrow> service_UnregisterEventNotification abi (manager_asil_level x) (manager_element x) no (event_source_pid x) s;
          Some (x\<lparr>registration_number := None\<rparr>, s)
        })"

definition manager_Register ::
  "event_layouts \<Rightarrow> 'h \<Rightarrow> event_receive_handler_manager \<Rightarrow> ('h, 'b, 's, 'c) message_passing_service \<Rightarrow>
   (event_receive_handler_manager \<times> ('h, 'b, 's, 'c) message_passing_service) option" where
  "manager_Register abi handler x s = do {
     (x, s) \<leftarrow> manager_Unregister abi x s;
     (no, s) \<leftarrow> service_RegisterEventNotification abi (manager_asil_level x) (manager_element x) handler (event_source_pid x) s;
     Some (x\<lparr>registration_number := Some no\<rparr>, s)
   }"

definition manager_Reregister ::
  "event_layouts \<Rightarrow> 'h option \<Rightarrow> event_receive_handler_manager \<Rightarrow> ('h, 'b, 's, 'c) message_passing_service \<Rightarrow>
   (event_receive_handler_manager \<times> ('h, 'b, 's, 'c) message_passing_service) option" where
  "manager_Reregister abi new_event_receiver_handler x s =
     (case new_event_receiver_handler of
        Some handler \<Rightarrow> manager_Register abi handler x s
      | None \<Rightarrow>
          if registration_number x \<noteq> None then do {
            (_, s) \<leftarrow> service_ReregisterEventNotification abi (manager_asil_level x) (manager_element x) (event_source_pid x) s;
            Some (x, s)
          }
          else Some (x, s))"

definition UpdatePid :: "pid_t \<Rightarrow> event_receive_handler_manager \<Rightarrow> event_receive_handler_manager" where
  "UpdatePid new_event_source_pid x = x\<lparr>event_source_pid := new_event_source_pid\<rparr>"

subsection \<open>The machine\<close>

record 'm subscription_data =
  data_max_sample_count :: "u16 option"
  data_slot_collector :: "'m slot_collector option"

definition SubscriptionData_Clear :: "'m subscription_data \<Rightarrow> 'm subscription_data" where
  "SubscriptionData_Clear d = d\<lparr>data_max_sample_count := None, data_slot_collector := None\<rparr>"

record ('m, 'h) subscription_state_machine =
  current_state_idx :: subscription_state
  subscription_data :: "'m subscription_data"
  event_receiver_handler :: "'h option"
  handler_manager :: event_receive_handler_manager
  event_control_local :: "'m consumer_event_control"
  provider_service_instance_is_available :: bool
  machine_transaction_log_id :: u32
  registration_guard_opt :: "transaction_log_registration_guard option"

definition SubscriptionStateMachine ::
  "quality_type \<Rightarrow> element_fq_id \<Rightarrow> pid_t \<Rightarrow> 'm consumer_event_control \<Rightarrow> u32 \<Rightarrow> ('m, 'h) subscription_state_machine" where
  "SubscriptionStateMachine level element pid control log_id =
     \<lparr>current_state_idx = NOT_SUBSCRIBED_STATE,
      subscription_data = \<lparr>data_max_sample_count = None, data_slot_collector = None\<rparr>,
      event_receiver_handler = None, handler_manager = EventReceiveHandlerManager level element pid,
      event_control_local = control, provider_service_instance_is_available = True,
      machine_transaction_log_id = log_id, registration_guard_opt = None\<rparr>"

text \<open>A call returns a result, the machine, the service and the world, or the process has ended.\<close>

type_synonym ('r, 'm, 'h, 'b, 's, 'c) machine_step =
  "('m, 'h) subscription_state_machine \<Rightarrow> ('h, 'b, 's, 'c) message_passing_service \<Rightarrow> 'm world \<Rightarrow>
   ('r \<times> ('m, 'h) subscription_state_machine \<times> ('h, 'b, 's, 'c) message_passing_service \<times> 'm world) option"

text \<open>Resetting the guard of the transaction log destroys it.\<close>

definition reset_guard ::
  "'m environment \<Rightarrow> ('m, 'h) subscription_state_machine \<Rightarrow> 'm world \<Rightarrow> (('m, 'h) subscription_state_machine \<times> 'm world) option" where
  "reset_guard e x w =
     (case registration_guard_opt x of
        None \<Rightarrow> Some (x, w)
      | Some guard \<Rightarrow> do {
          (consumer, w) \<leftarrow> unregister_on_destruction e (ec_transaction_log_set (event_control_local x)) guard
            (ec_data_control (event_control_local x)) w;
          Some (x\<lparr>event_control_local := (event_control_local x)\<lparr>ec_data_control := consumer\<rparr>, registration_guard_opt := None\<rparr>, w)
        })"

definition NotSubscribedState_OnEntry :: "'m environment \<Rightarrow> event_layouts \<Rightarrow> (unit, 'm, 'h, 'b, 's, 'c) machine_step" where
  "NotSubscribedState_OnEntry e abi x s w = do {
     guard \<leftarrow> registration_guard_opt x;
     (log, w) \<leftarrow> GetTransactionLog e (ec_transaction_log_set (event_control_local x)) (transaction_log_index guard) w;
     w \<leftarrow> UnsubscribeTransactionBegin e log w;
     count \<leftarrow> data_max_sample_count (subscription_data x);
     w \<leftarrow> Unsubscribe e (ec_subscription_control (event_control_local x)) count w;
     w \<leftarrow> UnsubscribeTransactionCommit e log w;
     (manager, s) \<leftarrow> manager_Unregister abi (handler_manager x) s;
     let x = x\<lparr>handler_manager := manager, subscription_data := SubscriptionData_Clear (subscription_data x)\<rparr>;
     (x, w) \<leftarrow> reset_guard e x w;
     Some ((), x, s, w)
   }"

text \<open>Leaving a state does nothing, and entering one does only for the state without subscription.\<close>

definition TransitionToState ::
  "'m environment \<Rightarrow> event_layouts \<Rightarrow> subscription_state \<Rightarrow> (unit, 'm, 'h, 'b, 's, 'c) machine_step" where
  "TransitionToState e abi new_state x s w =
     (let x = x\<lparr>current_state_idx := new_state\<rparr> in
      if new_state = NOT_SUBSCRIBED_STATE then NotSubscribedState_OnEntry e abi x s w else Some ((), x, s, w))"

subsection \<open>Not subscribed\<close>

text \<open>Setting up the collector and the handler of a subscription that was granted.\<close>

definition enter_subscription ::
  "'m environment \<Rightarrow> event_layouts \<Rightarrow> u64 \<Rightarrow> (unit, 'm, 'h, 'b, 's, 'c) machine_step" where
  "enter_subscription e abi max_count x s w = do {
     slot_collector \<leftarrow> SlotCollector (ec_data_control (event_control_local x)) (unat max_count);
     (x, s) \<leftarrow> (case event_receiver_handler x of
         Some handler \<Rightarrow>
           if provider_service_instance_is_available x then do {
             (manager, s) \<leftarrow> manager_Register abi handler (handler_manager x) s;
             Some (x\<lparr>handler_manager := manager, event_receiver_handler := None\<rparr>, s)
           }
           else Some (x, s)
       | None \<Rightarrow> Some (x, s));
     let x = x\<lparr>subscription_data := \<lparr>data_max_sample_count = Some (ucast max_count), data_slot_collector = Some slot_collector\<rparr>\<rparr>;
     TransitionToState e abi
       (if provider_service_instance_is_available x then SUBSCRIBED_STATE else SUBSCRIPTION_PENDING_STATE) x s w
   }"

definition NotSubscribedState_SubscribeEvent ::
  "'m environment \<Rightarrow> event_layouts \<Rightarrow> u64 \<Rightarrow> (unit result, 'm, 'h, 'b, 's, 'c) machine_step" where
  "NotSubscribedState_SubscribeEvent e abi max_count x s w = do {
     let control = event_control_local x;
     (registered, w) \<leftarrow> RegisterProxyElement e (ec_transaction_log_set control) (machine_transaction_log_id x) (ec_data_control control) w;
     case registered of
       Inl _ \<Rightarrow> Some (Inl kMaxSubscribersExceeded, x, s, w)
     | Inr (guard, consumer) \<Rightarrow> do {
         let x = x\<lparr>event_control_local := control\<lparr>ec_data_control := consumer\<rparr>, registration_guard_opt := Some guard\<rparr>;
         (log, w) \<leftarrow> GetTransactionLog e (ec_transaction_log_set control) (transaction_log_index guard) w;
         w \<leftarrow> SubscribeTransactionBegin e log max_count w;
         let (subscription_result, w) = Subscribe e (ec_subscription_control control) (ucast max_count) w;
         if subscription_result \<noteq> kSuccess then do {
           assert_prd (subscription_result \<noteq> kMaxSubscribersOverflow);
           w \<leftarrow> SubscribeTransactionAbort e log w;
           (x, w) \<leftarrow> reset_guard e x w;
           Some (Inl kMaxSampleCountNotRealizable, x, s, w)
         }
         else do {
           w \<leftarrow> SubscribeTransactionCommit e log w;
           (_, x, s, w) \<leftarrow> enter_subscription e abi max_count x s w;
           Some (Inr (), x, s, w)
         }
       }
   }"

definition NotSubscribedState_ReOfferEvent :: "pid_t \<Rightarrow> ('m, 'h) subscription_state_machine \<Rightarrow> ('m, 'h) subscription_state_machine" where
  "NotSubscribedState_ReOfferEvent pid x =
     x\<lparr>handler_manager := UpdatePid pid (handler_manager x), provider_service_instance_is_available := True\<rparr>"

definition NotSubscribedState_GetMaxSampleCount :: "('m, 'h) subscription_state_machine \<Rightarrow> u16 option option" where
  "NotSubscribedState_GetMaxSampleCount x = do {
     assert_prd (data_max_sample_count (subscription_data x) = None);
     Some None
   }"

definition NotSubscribedState_GetSlotCollector :: "('m, 'h) subscription_state_machine \<Rightarrow> 'm slot_collector option option" where
  "NotSubscribedState_GetSlotCollector x = do {
     assert_prd (data_slot_collector (subscription_data x) = None);
     Some (data_slot_collector (subscription_data x))
   }"

subsection \<open>Subscription pending\<close>

definition SubscriptionPendingState_SubscribeEvent ::
  "u64 \<Rightarrow> ('m, 'h) subscription_state_machine \<Rightarrow> unit result option" where
  "SubscriptionPendingState_SubscribeEvent max_count x = do {
     let max_sample_count_uint8 = (ucast max_count :: u8);
     count \<leftarrow> data_max_sample_count (subscription_data x);
     Some (if count = ucast max_sample_count_uint8 then Inr () else Inl kMaxSampleCountNotRealizable)
   }"

definition SubscriptionPendingState_ReOfferEvent ::
  "'m environment \<Rightarrow> event_layouts \<Rightarrow> pid_t \<Rightarrow> (unit, 'm, 'h, 'b, 's, 'c) machine_step" where
  "SubscriptionPendingState_ReOfferEvent e abi pid x s w = do {
     let x = x\<lparr>provider_service_instance_is_available := True, handler_manager := UpdatePid pid (handler_manager x)\<rparr>;
     (manager, s) \<leftarrow> manager_Reregister abi (event_receiver_handler x) (handler_manager x) s;
     TransitionToState e abi SUBSCRIBED_STATE (x\<lparr>handler_manager := manager, event_receiver_handler := None\<rparr>) s w
   }"

definition SubscriptionPendingState_GetMaxSampleCount :: "('m, 'h) subscription_state_machine \<Rightarrow> u16 option option" where
  "SubscriptionPendingState_GetMaxSampleCount x = do {
     assert_prd (data_max_sample_count (subscription_data x) \<noteq> None);
     Some (data_max_sample_count (subscription_data x))
   }"

definition SubscriptionPendingState_GetSlotCollector :: "('m, 'h) subscription_state_machine \<Rightarrow> 'm slot_collector option option" where
  "SubscriptionPendingState_GetSlotCollector x = do {
     assert_prd (data_max_sample_count (subscription_data x) \<noteq> None);
     Some (data_slot_collector (subscription_data x))
   }"

subsection \<open>Subscribed\<close>

definition SubscribedState_SubscribeEvent :: "u64 \<Rightarrow> ('m, 'h) subscription_state_machine \<Rightarrow> unit result option" where
  "SubscribedState_SubscribeEvent max_count x = do {
     count \<leftarrow> data_max_sample_count (subscription_data x);
     Some (if count = ucast max_count then Inr () else Inl kMaxSampleCountNotRealizable)
   }"

definition SubscribedState_SetReceiveHandler ::
  "event_layouts \<Rightarrow> 'h \<Rightarrow> (unit, 'm, 'h, 'b, 's, 'c) machine_step" where
  "SubscribedState_SetReceiveHandler abi handler x s w = do {
     (manager, s) \<leftarrow> manager_Register abi handler (handler_manager x) s;
     Some ((), x\<lparr>handler_manager := manager\<rparr>, s, w)
   }"

definition SubscribedState_UnsetReceiveHandler :: "event_layouts \<Rightarrow> (unit, 'm, 'h, 'b, 's, 'c) machine_step" where
  "SubscribedState_UnsetReceiveHandler abi x s w = do {
     (manager, s) \<leftarrow> manager_Unregister abi (handler_manager x) s;
     Some ((), x\<lparr>handler_manager := manager\<rparr>, s, w)
   }"

definition SubscribedState_GetMaxSampleCount :: "('m, 'h) subscription_state_machine \<Rightarrow> u16 option option" where
  "SubscribedState_GetMaxSampleCount x = do {
     count \<leftarrow> data_max_sample_count (subscription_data x);
     assert_prd (count > 0);
     Some (Some count)
   }"

definition SubscribedState_GetSlotCollector :: "('m, 'h) subscription_state_machine \<Rightarrow> 'm slot_collector option option" where
  "SubscribedState_GetSlotCollector x = do {
     assert_prd (data_max_sample_count (subscription_data x) \<noteq> None);
     Some (data_slot_collector (subscription_data x))
   }"

subsection \<open>The calls of the machine\<close>

text \<open>Each is passed on to the current state; there is no object for \<open>STATE_COUNT\<close>.\<close>

definition SubscribeEvent :: "'m environment \<Rightarrow> event_layouts \<Rightarrow> u64 \<Rightarrow> (unit result, 'm, 'h, 'b, 's, 'c) machine_step" where
  "SubscribeEvent e abi max_count x s w =
     (case current_state_idx x of
        NOT_SUBSCRIBED_STATE \<Rightarrow> NotSubscribedState_SubscribeEvent e abi max_count x s w
      | SUBSCRIPTION_PENDING_STATE \<Rightarrow> map_option (\<lambda>r. (r, x, s, w)) (SubscriptionPendingState_SubscribeEvent max_count x)
      | SUBSCRIBED_STATE \<Rightarrow> map_option (\<lambda>r. (r, x, s, w)) (SubscribedState_SubscribeEvent max_count x)
      | STATE_COUNT \<Rightarrow> None)"

definition UnsubscribeEvent :: "'m environment \<Rightarrow> event_layouts \<Rightarrow> (unit, 'm, 'h, 'b, 's, 'c) machine_step" where
  "UnsubscribeEvent e abi x s w =
     (case current_state_idx x of
        NOT_SUBSCRIBED_STATE \<Rightarrow> Some ((), x, s, w)
      | SUBSCRIPTION_PENDING_STATE \<Rightarrow> TransitionToState e abi NOT_SUBSCRIBED_STATE x s w
      | SUBSCRIBED_STATE \<Rightarrow> TransitionToState e abi NOT_SUBSCRIBED_STATE x s w
      | STATE_COUNT \<Rightarrow> None)"

definition StopOfferEvent :: "'m environment \<Rightarrow> event_layouts \<Rightarrow> (unit, 'm, 'h, 'b, 's, 'c) machine_step" where
  "StopOfferEvent e abi x s w =
     (case current_state_idx x of
        NOT_SUBSCRIBED_STATE \<Rightarrow> Some ((), x\<lparr>provider_service_instance_is_available := False\<rparr>, s, w)
      | SUBSCRIPTION_PENDING_STATE \<Rightarrow> None
      | SUBSCRIBED_STATE \<Rightarrow>
          TransitionToState e abi SUBSCRIPTION_PENDING_STATE (x\<lparr>provider_service_instance_is_available := False\<rparr>) s w
      | STATE_COUNT \<Rightarrow> None)"

definition ReOfferEvent :: "'m environment \<Rightarrow> event_layouts \<Rightarrow> pid_t \<Rightarrow> (unit, 'm, 'h, 'b, 's, 'c) machine_step" where
  "ReOfferEvent e abi pid x s w =
     (case current_state_idx x of
        NOT_SUBSCRIBED_STATE \<Rightarrow> Some ((), NotSubscribedState_ReOfferEvent pid x, s, w)
      | SUBSCRIPTION_PENDING_STATE \<Rightarrow> SubscriptionPendingState_ReOfferEvent e abi pid x s w
      | SUBSCRIBED_STATE \<Rightarrow> Some ((), x, s, w)
      | STATE_COUNT \<Rightarrow> None)"

definition SetReceiveHandler :: "event_layouts \<Rightarrow> 'h \<Rightarrow> (unit, 'm, 'h, 'b, 's, 'c) machine_step" where
  "SetReceiveHandler abi handler x s w =
     (case current_state_idx x of
        NOT_SUBSCRIBED_STATE \<Rightarrow> Some ((), x\<lparr>event_receiver_handler := Some handler\<rparr>, s, w)
      | SUBSCRIPTION_PENDING_STATE \<Rightarrow> Some ((), x\<lparr>event_receiver_handler := Some handler\<rparr>, s, w)
      | SUBSCRIBED_STATE \<Rightarrow> SubscribedState_SetReceiveHandler abi handler x s w
      | STATE_COUNT \<Rightarrow> None)"

definition UnsetReceiveHandler :: "event_layouts \<Rightarrow> (unit, 'm, 'h, 'b, 's, 'c) machine_step" where
  "UnsetReceiveHandler abi x s w =
     (case current_state_idx x of
        NOT_SUBSCRIBED_STATE \<Rightarrow> Some ((), x\<lparr>event_receiver_handler := None\<rparr>, s, w)
      | SUBSCRIPTION_PENDING_STATE \<Rightarrow> Some ((), x\<lparr>event_receiver_handler := None\<rparr>, s, w)
      | SUBSCRIBED_STATE \<Rightarrow> SubscribedState_UnsetReceiveHandler abi x s w
      | STATE_COUNT \<Rightarrow> None)"

definition machine_GetMaxSampleCount :: "('m, 'h) subscription_state_machine \<Rightarrow> u16 option option" where
  "machine_GetMaxSampleCount x =
     (case current_state_idx x of
        NOT_SUBSCRIBED_STATE \<Rightarrow> NotSubscribedState_GetMaxSampleCount x
      | SUBSCRIPTION_PENDING_STATE \<Rightarrow> SubscriptionPendingState_GetMaxSampleCount x
      | SUBSCRIBED_STATE \<Rightarrow> SubscribedState_GetMaxSampleCount x
      | STATE_COUNT \<Rightarrow> None)"

definition GetSlotCollectorLockFree :: "('m, 'h) subscription_state_machine \<Rightarrow> 'm slot_collector option option" where
  "GetSlotCollectorLockFree x =
     (case current_state_idx x of
        NOT_SUBSCRIBED_STATE \<Rightarrow> NotSubscribedState_GetSlotCollector x
      | SUBSCRIPTION_PENDING_STATE \<Rightarrow> SubscriptionPendingState_GetSlotCollector x
      | SUBSCRIBED_STATE \<Rightarrow> SubscribedState_GetSlotCollector x
      | STATE_COUNT \<Rightarrow> None)"

subsection \<open>The common part of a proxy event\<close>

text \<open>
  A proxy event owns one machine; what tests put in place of its collector is left out. The
  destructor withdraws the subscription.
\<close>

datatype proxy_subscription_state = kSubscribed | kNotSubscribed | kSubscriptionPending

definition ProxyEventCommon_Subscribe ::
  "'m environment \<Rightarrow> event_layouts \<Rightarrow> u64 \<Rightarrow> (unit result, 'm, 'h, 'b, 's, 'c) machine_step" where
  "ProxyEventCommon_Subscribe e abi max_count x s w = do {
     assert_prd (max_count \<le> 255);
     SubscribeEvent e abi max_count x s w
   }"

definition ProxyEventCommon_Unsubscribe :: "'m environment \<Rightarrow> event_layouts \<Rightarrow> (unit, 'm, 'h, 'b, 's, 'c) machine_step" where
  "ProxyEventCommon_Unsubscribe e abi x s w = UnsubscribeEvent e abi x s w"

definition ProxyEventCommon_destroy :: "'m environment \<Rightarrow> event_layouts \<Rightarrow> (unit, 'm, 'h, 'b, 's, 'c) machine_step" where
  "ProxyEventCommon_destroy e abi x s w = ProxyEventCommon_Unsubscribe e abi x s w"

definition ProxyEventCommon_GetSubscriptionState :: "('m, 'h) subscription_state_machine \<Rightarrow> proxy_subscription_state option" where
  "ProxyEventCommon_GetSubscriptionState x =
     (let current_state = current_state_idx x in
      if current_state = NOT_SUBSCRIBED_STATE then Some kNotSubscribed
      else if current_state = SUBSCRIPTION_PENDING_STATE then Some kSubscriptionPending
      else do {
        assert_prd (current_state = SUBSCRIBED_STATE);
        Some kSubscribed
      })"

definition ProxyEventCommon_GetNumNewSamplesAvailable ::
  "'m environment \<Rightarrow> ('m, 'h) subscription_state_machine \<Rightarrow> 'm world \<Rightarrow> (nat \<times> 'm world) option" where
  "ProxyEventCommon_GetNumNewSamplesAvailable e x w = do {
     slot_collector \<leftarrow> GetSlotCollectorLockFree x;
     slot_collector \<leftarrow> slot_collector;
     Some (GetNumNewSamplesAvailable e slot_collector w)
   }"

definition ProxyEventCommon_GetNewSamplesSlotIndices ::
  "'m environment \<Rightarrow> nat \<Rightarrow> consumer_counters \<Rightarrow> ('m, 'h) subscription_state_machine \<Rightarrow> 'm world \<Rightarrow>
   (nat list \<times> consumer_counters \<times> ('m, 'h) subscription_state_machine \<times> 'm world) option" where
  "ProxyEventCommon_GetNewSamplesSlotIndices e max_count c x w = do {
     slot_collector \<leftarrow> GetSlotCollectorLockFree x;
     slot_collector \<leftarrow> slot_collector;
     (indices, slot_collector, c, w) \<leftarrow> GetNewSamplesSlotIndices e slot_collector max_count c w;
     Some (indices, c, x\<lparr>subscription_data := (subscription_data x)\<lparr>data_slot_collector := Some slot_collector\<rparr>\<rparr>, w)
   }"

definition ProxyEventCommon_SetReceiveHandler ::
  "event_layouts \<Rightarrow> 'h \<Rightarrow> (unit result, 'm, 'h, 'b, 's, 'c) machine_step" where
  "ProxyEventCommon_SetReceiveHandler abi handler x s w = do {
     (_, x, s, w) \<leftarrow> SetReceiveHandler abi handler x s w;
     Some (Inr (), x, s, w)
   }"

definition ProxyEventCommon_UnsetReceiveHandler ::
  "event_layouts \<Rightarrow> (unit result, 'm, 'h, 'b, 's, 'c) machine_step" where
  "ProxyEventCommon_UnsetReceiveHandler abi x s w = do {
     (_, x, s, w) \<leftarrow> UnsetReceiveHandler abi x s w;
     Some (Inr (), x, s, w)
   }"

definition ProxyEventCommon_GetMaxSampleCount :: "('m, 'h) subscription_state_machine \<Rightarrow> u16 option option" where
  "ProxyEventCommon_GetMaxSampleCount x = machine_GetMaxSampleCount x"

definition ProxyEventCommon_NotifyServiceInstanceChangedAvailability ::
  "'m environment \<Rightarrow> event_layouts \<Rightarrow> bool \<Rightarrow> pid_t \<Rightarrow> (unit, 'm, 'h, 'b, 's, 'c) machine_step" where
  "ProxyEventCommon_NotifyServiceInstanceChangedAvailability e abi is_available new_event_source_pid x s w =
     (if is_available then ReOfferEvent e abi new_event_source_pid x s w else StopOfferEvent e abi x s w)"

subsection \<open>What a machine goes through\<close>

datatype 'h event_call =
    Call_Subscribe u64
  | Call_Unsubscribe
  | Call_Available bool pid_t
  | Call_SetReceiveHandler 'h
  | Call_UnsetReceiveHandler
  | Call_GetNewSamples nat consumer_counters

fun perform_event_call :: "'m environment \<Rightarrow> event_layouts \<Rightarrow> 'h event_call \<Rightarrow> (unit result, 'm, 'h, 'b, 's, 'c) machine_step" where
  "perform_event_call e abi (Call_Subscribe n) x s w = ProxyEventCommon_Subscribe e abi n x s w"
| "perform_event_call e abi Call_Unsubscribe x s w =
     map_option (map_prod Inr id) (ProxyEventCommon_Unsubscribe e abi x s w)"
| "perform_event_call e abi (Call_Available available pid) x s w =
     map_option (map_prod Inr id) (ProxyEventCommon_NotifyServiceInstanceChangedAvailability e abi available pid x s w)"
| "perform_event_call e abi (Call_SetReceiveHandler handler) x s w = ProxyEventCommon_SetReceiveHandler abi handler x s w"
| "perform_event_call e abi Call_UnsetReceiveHandler x s w = ProxyEventCommon_UnsetReceiveHandler abi x s w"
| "perform_event_call e abi (Call_GetNewSamples n c) x s w =
     map_option (\<lambda>(_, _, x, w). (Inr (), x, s, w)) (ProxyEventCommon_GetNewSamplesSlotIndices e n c x w)"

text \<open>
  Between two calls of a machine, the service and the shared memory may change in any way, by
  the other users of the service and by other processes.
\<close>

inductive reachable_event ::
  "event_layouts \<Rightarrow> ('m, 'h) subscription_state_machine \<Rightarrow> ('h, 'b, 's, 'c) message_passing_service \<Rightarrow> bool" for abi where
  created: "transaction_log_local_view (ec_data_control control) = None \<Longrightarrow>
    reachable_event abi (SubscriptionStateMachine level element pid control log_id) s"
| service_used: "reachable_event abi x s \<Longrightarrow> reachable_event abi x s'"
| called: "reachable_event abi x s \<Longrightarrow> perform_event_call e abi c x s w = Some (r, x', s', w') \<Longrightarrow> reachable_event abi x' s'"

subsection \<open>The invariant of a machine\<close>

definition subscription_held :: "('m, 'h) subscription_state_machine \<Rightarrow> bool" where
  "subscription_held x \<longleftrightarrow>
     (\<exists>count collector. subscription_data x = \<lparr>data_max_sample_count = Some count, data_slot_collector = Some collector\<rparr> \<and>
        0 < count \<and> count \<le> 255 \<and> length (collected_slots collector) = unat count \<and>
        transaction_log_local_view (event_data_control_local collector) \<noteq> None) \<and>
     registration_guard_opt x \<noteq> None \<and> transaction_log_local_view (ec_data_control (event_control_local x)) \<noteq> None"

definition machine_ok :: "('m, 'h) subscription_state_machine \<Rightarrow> bool" where
  "machine_ok x \<longleftrightarrow>
     (case current_state_idx x of
        NOT_SUBSCRIBED_STATE \<Rightarrow>
          subscription_data x = \<lparr>data_max_sample_count = None, data_slot_collector = None\<rparr> \<and>
          registration_guard_opt x = None \<and> transaction_log_local_view (ec_data_control (event_control_local x)) = None \<and>
          registration_number (handler_manager x) = None
      | SUBSCRIPTION_PENDING_STATE \<Rightarrow> subscription_held x \<and> \<not> provider_service_instance_is_available x
      | SUBSCRIBED_STATE \<Rightarrow>
          subscription_held x \<and> provider_service_instance_is_available x \<and> event_receiver_handler x = None
      | STATE_COUNT \<Rightarrow> False)"

text \<open>The specification: what was subscribed for, if anything, and whether the service is offered.\<close>

definition abs_machine :: "('m, 'h) subscription_state_machine \<Rightarrow> nat option \<times> bool" where
  "abs_machine x = (map_option unat (data_max_sample_count (subscription_data x)), provider_service_instance_is_available x)"

fun state_of :: "nat option \<times> bool \<Rightarrow> subscription_state" where
  "state_of (None, offered) = NOT_SUBSCRIBED_STATE"
| "state_of (Some n, offered) = (if offered then SUBSCRIBED_STATE else SUBSCRIPTION_PENDING_STATE)"

fun event_spec :: "'h event_call \<Rightarrow> nat option \<times> bool \<Rightarrow> unit result \<Rightarrow> nat option \<times> bool \<Rightarrow> bool" where
  "event_spec (Call_Subscribe n) (None, offered) r a \<longleftrightarrow>
     r = Inr () \<and> a = (Some (unat n), offered) \<and> 0 < n \<and> n \<le> 255 \<or>
     r \<in> {Inl kMaxSubscribersExceeded, Inl kMaxSampleCountNotRealizable} \<and> a = (None, offered)"
| "event_spec (Call_Subscribe n) (Some k, offered) r a \<longleftrightarrow>
     r = (if k = unat n then Inr () else Inl kMaxSampleCountNotRealizable) \<and> a = (Some k, offered)"
| "event_spec Call_Unsubscribe (k, offered) r a \<longleftrightarrow> r = Inr () \<and> a = (None, offered)"
| "event_spec (Call_Available available pid) (k, offered) r a \<longleftrightarrow>
     r = Inr () \<and> a = (k, available) \<and> (available \<or> offered \<or> k = None)"
| "event_spec c (k, offered) r a \<longleftrightarrow> r = Inr () \<and> a = (k, offered)"

lemma bind_eq_SomeE:
  assumes "x \<bind> f = Some y"
  obtains z where "x = Some z" "f z = Some y"
  using assms by (cases x) auto

lemma manager_Unregister_result:
  assumes "manager_Unregister abi x s = Some (x', s')"
  shows "x' = x\<lparr>registration_number := None\<rparr>"
  using assms by (auto simp: manager_Unregister_def bind_eq_Some_conv split: option.splits)

lemma manager_Register_result:
  assumes "manager_Register abi handler x s = Some (x', s')"
  shows "\<exists>no. x' = x\<lparr>registration_number := Some no\<rparr>"
  using assms by (auto simp: manager_Register_def bind_eq_Some_conv dest!: manager_Unregister_result)

lemma manager_Reregister_result:
  assumes "manager_Reregister abi handler x s = Some (x', s')"
  shows "\<exists>no. x' = x\<lparr>registration_number := no\<rparr>"
  using assms
  by (auto simp: manager_Reregister_def bind_eq_Some_conv dest!: manager_Register_result split: option.splits if_splits)
    (metis event_receive_handler_manager.surjective event_receive_handler_manager.update_convs(4))+

lemma reset_guard_result:
  assumes "reset_guard e x w = Some (x', w')" "registration_guard_opt x \<noteq> None"
  shows "x' = x\<lparr>event_control_local := (event_control_local x)\<lparr>ec_data_control := ClearTransactionLogLocalView (ec_data_control (event_control_local x))\<rparr>,
    registration_guard_opt := None\<rparr>"
  using assms by (auto simp: reset_guard_def unregister_on_destruction_def bind_eq_Some_conv)

lemma RegisterProxyElement_result:
  assumes "RegisterProxyElement e v log_id consumer w = Some (Inr (guard, consumer'), w')"
  shows "\<exists>log. consumer' = SetTransactionLogLocalView log consumer"
  using assms
  by (auto simp: RegisterProxyElement_def TransactionLogRegistrationGuard_def bind_eq_Some_conv Let_def split_beta
      split: option.splits)

lemma view_log [simp]:
  "transaction_log_local_view (SetTransactionLogLocalView log v) = Some log"
  "transaction_log_local_view (ClearTransactionLogLocalView v) = None"
  by (simp_all add: SetTransactionLogLocalView_def ClearTransactionLogLocalView_def)

lemma OnEntry_result:
  assumes "NotSubscribedState_OnEntry e abi x s w = Some (r, x', s', w')"
  shows "x' = x\<lparr>handler_manager := (handler_manager x)\<lparr>registration_number := None\<rparr>,
      subscription_data := \<lparr>data_max_sample_count = None, data_slot_collector = None\<rparr>,
      event_control_local := (event_control_local x)\<lparr>ec_data_control := ClearTransactionLogLocalView (ec_data_control (event_control_local x))\<rparr>,
      registration_guard_opt := None\<rparr>"
  using assms
  by (auto simp: NotSubscribedState_OnEntry_def bind_eq_Some_conv SubscriptionData_Clear_def
      dest!: manager_Unregister_result reset_guard_result)

lemma enter_subscription_result:
  assumes "enter_subscription e abi n x s w = Some (r, x', s', w')"
  shows "current_state_idx x' = (if provider_service_instance_is_available x then SUBSCRIBED_STATE else SUBSCRIPTION_PENDING_STATE)"
    "subscription_data x' = \<lparr>data_max_sample_count = Some (ucast n),
      data_slot_collector = Some \<lparr>event_data_control_local = ec_data_control (event_control_local x), last_ts = 0,
        collected_slots = replicate (unat n) 0\<rparr>\<rparr>"
    "event_control_local x' = event_control_local x" "registration_guard_opt x' = registration_guard_opt x"
    "provider_service_instance_is_available x' = provider_service_instance_is_available x"
    "machine_transaction_log_id x' = machine_transaction_log_id x"
    "provider_service_instance_is_available x \<Longrightarrow> event_receiver_handler x' = None"
    "0 < n" "w' = w"
  using assms
  by (auto simp: enter_subscription_def bind_eq_Some_conv SlotCollector_def TransitionToState_def Let_def word_gt_0
      split: option.splits if_splits)

lemma small_count:
  assumes "n \<le> (255 :: u64)"
  shows "unat (ucast n :: u16) = unat n" "unat (ucast n :: u8) = unat n"
proof -
  have "unat n < 2 ^ 8" using assms by (simp add: word_le_nat_alt)
  then show "unat (ucast n :: u16) = unat n" "unat (ucast n :: u8) = unat n"
    by (simp_all add: unsigned_ucast_eq unsigned_take_bit_eq take_bit_nat_eq_self)
qed

lemma SubscribeEvent_ok:
  assumes "NotSubscribedState_SubscribeEvent e abi n x s w = Some (r, x', s', w')"
    and "machine_ok x" "current_state_idx x = NOT_SUBSCRIBED_STATE" "n \<le> 255"
  shows "machine_ok x' \<and> event_spec (Call_Subscribe n) (abs_machine x) r (abs_machine x')"
proof -
  have ok: "subscription_data x = \<lparr>data_max_sample_count = None, data_slot_collector = None\<rparr>"
    "registration_guard_opt x = None" "transaction_log_local_view (ec_data_control (event_control_local x)) = None"
    "registration_number (handler_manager x) = None"
    using assms(2,3) by (simp_all add: machine_ok_def)
  obtain registered w1 where reg: "RegisterProxyElement e (ec_transaction_log_set (event_control_local x))
      (machine_transaction_log_id x) (ec_data_control (event_control_local x)) w = Some (registered, w1)"
    using assms(1) by (auto simp: NotSubscribedState_SubscribeEvent_def Let_def elim: bind_eq_SomeE)
  note run = assms(1) [unfolded NotSubscribedState_SubscribeEvent_def Let_def reg, simplified]
  show ?thesis
  proof (cases registered)
    case (Inl err)
    then have "r = Inl kMaxSubscribersExceeded" "x' = x" using run by auto
    with assms(2) show ?thesis by (simp add: abs_machine_def ok)
  next
    case (Inr y)
    obtain guard consumer where y: "y = (guard, consumer)" by (cases y)
    obtain log where consumer: "consumer = SetTransactionLogLocalView log (ec_data_control (event_control_local x))"
      using RegisterProxyElement_result reg Inr y by blast
    let ?x = "x\<lparr>event_control_local := (event_control_local x)\<lparr>ec_data_control := consumer\<rparr>, registration_guard_opt := Some guard\<rparr>"
    consider (failed) w2 w3 where "r = Inl kMaxSampleCountNotRealizable" "reset_guard e ?x w2 = Some (x', w3)"
      | (granted) u w2 where "r = Inr ()" "enter_subscription e abi n ?x s w2 = Some (u, x', s', w')"
      using run unfolding Inr y sum.case prod.case split_beta
      by (elim bind_eq_SomeE) (auto elim!: bind_eq_SomeE simp: split_beta split: if_splits)
    then show ?thesis
    proof cases
      case failed
      then show ?thesis
        using assms(3) ok reset_guard_result [OF failed(2)] by (simp add: machine_ok_def abs_machine_def)
    next
      case granted
      note x' = enter_subscription_result [OF granted(2)]
      have "0 < (ucast n :: u16)" "(ucast n :: u16) \<le> 255" "unat (ucast n :: u16) = unat n"
        using x'(8) small_count(1) [OF assms(4)] assms(4) by (simp_all add: word_less_nat_alt word_le_nat_alt)
      then have held: "subscription_held x'"
        unfolding subscription_held_def x'(2,3,4) by (simp add: consumer)
      have "abs_machine x' = (Some (unat n), provider_service_instance_is_available x)"
        using small_count(1) [OF assms(4)] x'(5) by (simp add: abs_machine_def x'(2))
      moreover have "abs_machine x = (None, provider_service_instance_is_available x)"
        by (simp add: abs_machine_def ok(1))
      moreover have "machine_ok x'"
        using held x'(1,5,7) by (cases "provider_service_instance_is_available x") (simp_all add: machine_ok_def)
      ultimately show ?thesis using granted(1) x'(8) assms(4) by simp
    qed
  qed
qed

lemma collected_length:
  "CollectSlots_loop n e v lo hi k slots c w = Some (k', slots', c', w') \<Longrightarrow> length slots' = length slots"
proof (induction n arbitrary: hi k slots c w)
  case (Suc n)
  from Suc.prems obtain slot c1 w1 where ref: "ReferenceNextEvent e v lo hi c w = Some (slot, c1, w1)"
    by (auto elim: bind_eq_SomeE)
  show ?case
  proof (cases slot)
    case None
    with Suc.prems ref show ?thesis by simp
  next
    case (Some i)
    with Suc.prems ref obtain st w2 where "consumer_slot_status_at e v i w1 = Some (st, w2)"
      by (auto elim: bind_eq_SomeE)
    with Suc.prems ref Some consider (full) "slots' = slots[k := i]"
      | (rest) "CollectSlots_loop n e v lo (GetTimeStamp st) (Suc k) (slots[k := i]) c1 w2 = Some (k', slots', c', w')"
      by (auto simp: Let_def split: if_splits)
    then show ?thesis using Suc.IH by cases fastforce+
  qed
qed simp

lemma GetNewSamples_keeps:
  assumes "GetNewSamplesSlotIndices e col n c w = Some (indices, col', c', w')"
  shows "length (collected_slots col') = length (collected_slots col)"
    "event_data_control_local col' = event_data_control_local col"
  using assms
  by (auto simp: GetNewSamplesSlotIndices_def CollectSlots_def bind_eq_Some_conv Let_def dest: collected_length)

text \<open>Without a subscription nothing but the subscription changes the data of the machine.\<close>

lemma machine_ok_states:
  assumes "machine_ok x"
  obtains (none) "current_state_idx x = NOT_SUBSCRIBED_STATE" "abs_machine x = (None, provider_service_instance_is_available x)"
  | (pending) count where "current_state_idx x = SUBSCRIPTION_PENDING_STATE" "subscription_held x"
      "data_max_sample_count (subscription_data x) = Some count" "0 < count" "count \<le> 255" "abs_machine x = (Some (unat count), False)"
  | (subscribed) count where "current_state_idx x = SUBSCRIBED_STATE" "subscription_held x"
      "data_max_sample_count (subscription_data x) = Some count" "0 < count" "count \<le> 255" "abs_machine x = (Some (unat count), True)"
  using assms
  by (cases "current_state_idx x") (auto simp: machine_ok_def subscription_held_def abs_machine_def)

lemma subscription_held_cong:
  assumes "subscription_data x' = subscription_data x" "registration_guard_opt x' = registration_guard_opt x"
    "event_control_local x' = event_control_local x"
  shows "subscription_held x' = subscription_held x"
  by (simp add: subscription_held_def assms)

lemma Unsubscribe_ok:
  assumes "UnsubscribeEvent e abi x s w = Some (r, x', s', w')" "machine_ok x"
  shows "machine_ok x' \<and> abs_machine x' = (None, provider_service_instance_is_available x)"
  using assms(2)
proof (cases rule: machine_ok_states)
  case none
  with assms show ?thesis by (simp add: UnsubscribeEvent_def)
next
  case (pending count)
  with assms(1) have "NotSubscribedState_OnEntry e abi (x\<lparr>current_state_idx := NOT_SUBSCRIBED_STATE\<rparr>) s w = Some (r, x', s', w')"
    by (simp add: UnsubscribeEvent_def TransitionToState_def)
  from OnEntry_result [OF this] show ?thesis by (simp add: machine_ok_def abs_machine_def)
next
  case (subscribed count)
  with assms(1) have "NotSubscribedState_OnEntry e abi (x\<lparr>current_state_idx := NOT_SUBSCRIBED_STATE\<rparr>) s w = Some (r, x', s', w')"
    by (simp add: UnsubscribeEvent_def TransitionToState_def)
  from OnEntry_result [OF this] show ?thesis by (simp add: machine_ok_def abs_machine_def)
qed

lemma Available_ok:
  assumes "ProxyEventCommon_NotifyServiceInstanceChangedAvailability e abi available pid x s w = Some (r, x', s', w')" "machine_ok x"
  shows "machine_ok x' \<and> event_spec (Call_Available available pid :: 'h event_call) (abs_machine x) (Inr ()) (abs_machine x')"
  using assms(2)
proof (cases rule: machine_ok_states)
  case none
  with assms show ?thesis
    by (auto simp: ProxyEventCommon_NotifyServiceInstanceChangedAvailability_def ReOfferEvent_def StopOfferEvent_def
        NotSubscribedState_ReOfferEvent_def UpdatePid_def machine_ok_def abs_machine_def split: if_splits)
next
  case (pending count)
  with assms(1) obtain manager where available
    "x' = x\<lparr>provider_service_instance_is_available := True, handler_manager := manager,
      event_receiver_handler := None, current_state_idx := SUBSCRIBED_STATE\<rparr>"
    by (auto simp: ProxyEventCommon_NotifyServiceInstanceChangedAvailability_def ReOfferEvent_def StopOfferEvent_def
        SubscriptionPendingState_ReOfferEvent_def TransitionToState_def Let_def elim!: bind_eq_SomeE split: if_splits)
  moreover have "subscription_held x' = subscription_held x" by (rule subscription_held_cong) (simp_all add: calculation)
  ultimately show ?thesis using pending by (simp add: machine_ok_def abs_machine_def)
next
  case (subscribed count)
  with assms(1) have "x' = (if available then x else x\<lparr>provider_service_instance_is_available := False,
      current_state_idx := SUBSCRIPTION_PENDING_STATE\<rparr>)"
    by (auto simp: ProxyEventCommon_NotifyServiceInstanceChangedAvailability_def ReOfferEvent_def StopOfferEvent_def
        TransitionToState_def split: if_splits)
  moreover have "subscription_held x' = subscription_held x" by (rule subscription_held_cong) (simp_all add: calculation)
  ultimately show ?thesis using subscribed assms(2) by (auto simp: machine_ok_def abs_machine_def)
qed

lemma handler_call_ok:
  assumes "SetReceiveHandler abi h x s w = Some (r, x', s', w') \<or> UnsetReceiveHandler abi x s w = Some (r, x', s', w')" "machine_ok x"
  shows "machine_ok x' \<and> abs_machine x' = abs_machine x"
  using assms(2)
proof (cases rule: machine_ok_states)
  case none
  with assms show ?thesis
    by (auto simp: SetReceiveHandler_def UnsetReceiveHandler_def machine_ok_def abs_machine_def)
next
  case (pending count)
  with assms(1) obtain handler where "x' = x\<lparr>event_receiver_handler := handler\<rparr>"
    by (auto simp: SetReceiveHandler_def UnsetReceiveHandler_def)
  moreover have "subscription_held x' = subscription_held x" by (rule subscription_held_cong) (simp_all add: calculation)
  ultimately show ?thesis using pending assms(2) by (simp add: machine_ok_def abs_machine_def)
next
  case (subscribed count)
  with assms(1) obtain manager where "x' = x\<lparr>handler_manager := manager\<rparr>"
    by (auto simp: SetReceiveHandler_def UnsetReceiveHandler_def SubscribedState_SetReceiveHandler_def
        SubscribedState_UnsetReceiveHandler_def elim!: bind_eq_SomeE)
  moreover have "subscription_held x' = subscription_held x" by (rule subscription_held_cong) (simp_all add: calculation)
  ultimately show ?thesis using subscribed assms(2) by (simp add: machine_ok_def abs_machine_def)
qed

lemma Subscribe_call_ok:
  assumes "ProxyEventCommon_Subscribe e abi n x s w = Some (r, x', s', w')" "machine_ok x"
  shows "machine_ok x' \<and> event_spec (Call_Subscribe n) (abs_machine x) r (abs_machine x')"
proof -
  have n: "n \<le> 255" and run: "SubscribeEvent e abi n x s w = Some (r, x', s', w')"
    using assms(1) by (auto simp: ProxyEventCommon_Subscribe_def elim: bind_eq_SomeE)
  have wide: "count = ucast (ucast n :: u8) \<longleftrightarrow> unat count = unat n" "count = ucast n \<longleftrightarrow> unat count = unat n" for count :: u16
    using small_count [OF n] by (simp_all add: word_unat_eq_iff unsigned_ucast_eq unsigned_take_bit_eq)
  show ?thesis
    using assms(2)
  proof (cases rule: machine_ok_states)
    case none
    with SubscribeEvent_ok [OF _ assms(2) _ n] run show ?thesis by (simp add: SubscribeEvent_def)
  next
    case (pending count)
    with run assms(2) show ?thesis
      by (auto simp: SubscribeEvent_def SubscriptionPendingState_SubscribeEvent_def wide)
  next
    case (subscribed count)
    with run assms(2) show ?thesis
      by (auto simp: SubscribeEvent_def SubscribedState_SubscribeEvent_def wide)
  qed
qed

lemma GetNewSamples_call_ok:
  assumes "ProxyEventCommon_GetNewSamplesSlotIndices e n c x w = Some (indices, c', x', w')" "machine_ok x"
  shows "machine_ok x' \<and> abs_machine x' = abs_machine x"
proof -
  obtain col col' where col: "GetSlotCollectorLockFree x = Some (Some col)"
    and new: "GetNewSamplesSlotIndices e col n c w = Some (indices, col', c', w')"
    and x': "x' = x\<lparr>subscription_data := (subscription_data x)\<lparr>data_slot_collector := Some col'\<rparr>\<rparr>"
    using assms(1) by (auto simp: ProxyEventCommon_GetNewSamplesSlotIndices_def elim!: bind_eq_SomeE)
  have "current_state_idx x \<noteq> NOT_SUBSCRIBED_STATE \<and> data_slot_collector (subscription_data x) = Some col"
    using col assms(2)
    by (cases "current_state_idx x")
      (auto simp: GetSlotCollectorLockFree_def machine_ok_def NotSubscribedState_GetSlotCollector_def
        SubscriptionPendingState_GetSlotCollector_def SubscribedState_GetSlotCollector_def elim!: bind_eq_SomeE)
  moreover from this have "subscription_held x \<Longrightarrow> subscription_held x'"
    using GetNewSamples_keeps [OF new] by (auto simp: subscription_held_def x')
  ultimately show ?thesis
    using assms(2) by (cases "current_state_idx x") (simp_all add: machine_ok_def abs_machine_def x')
qed

lemma perform_event_call_ok:
  assumes "perform_event_call e abi c x s w = Some (r, x', s', w')" "machine_ok x"
  shows "machine_ok x' \<and> event_spec c (abs_machine x) r (abs_machine x')"
proof (cases c)
  case (Call_Subscribe n)
  with Subscribe_call_ok assms show ?thesis by (metis perform_event_call.simps(1))
next
  case Call_Unsubscribe
  with assms(1) have "UnsubscribeEvent e abi x s w = Some ((), x', s', w')" "r = Inr ()"
    by (auto simp: ProxyEventCommon_Unsubscribe_def)
  from this(1) have "machine_ok x' \<and> abs_machine x' = (None, provider_service_instance_is_available x)"
    by (rule Unsubscribe_ok) (rule assms(2))
  with Call_Unsubscribe \<open>r = Inr ()\<close> show ?thesis by (simp add: abs_machine_def)
next
  case (Call_Available available pid)
  with assms(1) have "ProxyEventCommon_NotifyServiceInstanceChangedAvailability e abi available pid x s w = Some ((), x', s', w')" "r = Inr ()"
    by auto
  with Available_ok [OF this(1) assms(2)] Call_Available show ?thesis by (simp add: abs_machine_def)
next
  case (Call_SetReceiveHandler h)
  with assms(1) have "SetReceiveHandler abi h x s w = Some ((), x', s', w')" "r = Inr ()"
    by (auto simp: ProxyEventCommon_SetReceiveHandler_def elim!: bind_eq_SomeE)
  with handler_call_ok [of abi h x s w "()" x' s' w'] assms(2) Call_SetReceiveHandler show ?thesis by (simp add: abs_machine_def)
next
  case Call_UnsetReceiveHandler
  with assms(1) have "UnsetReceiveHandler abi x s w = Some ((), x', s', w')" "r = Inr ()"
    by (auto simp: ProxyEventCommon_UnsetReceiveHandler_def elim!: bind_eq_SomeE)
  with handler_call_ok [of abi _ x s w "()" x' s' w'] assms(2) Call_UnsetReceiveHandler show ?thesis by (simp add: abs_machine_def)
next
  case (Call_GetNewSamples n counters)
  with assms(1) obtain indices counters' where
    "ProxyEventCommon_GetNewSamplesSlotIndices e n counters x w = Some (indices, counters', x', w')" "r = Inr ()"
    by auto
  with GetNewSamples_call_ok assms(2) Call_GetNewSamples show ?thesis by (fastforce simp: abs_machine_def)
qed

lemma reachable_event_ok: "reachable_event abi x s \<Longrightarrow> machine_ok x"
proof (induction rule: reachable_event.induct)
  case (created control level element pid log_id s)
  then show ?case by (simp add: machine_ok_def SubscriptionStateMachine_def EventReceiveHandlerManager_def)
next
  case (called x s e c w r x' s' w')
  with perform_event_call_ok show ?case by blast
qed

lemma machine_ok_state: "machine_ok x \<Longrightarrow> current_state_idx x = state_of (abs_machine x)"
  by (cases "current_state_idx x") (auto simp: machine_ok_def subscription_held_def abs_machine_def)

end
