(* ===== verification/Subscription_Lifecycle.thy ===== *)
theory Subscription_Lifecycle
  imports Subscription_State_Machine
begin

text \<open>
  What a proxy event does to the shared control of its event when nobody interferes: the memory
  after subscribing and after withdrawing the subscription, and the properties of the
  subscription state machine, alone and together with the control, the transaction logs and the
  messaging service.
\<close>

subsection \<open>Subscribing when nobody interferes\<close>

lemma subscribe_transaction_quiet:
  fixes v :: "'m transaction_log_view"
  shows
    "rd (subscribe_transactions v) (mem w) = bits False False \<Longrightarrow> \<exists>w'. SubscribeTransactionBegin quiet v n w = Some w' \<and>
      mem w' = wr (subscription_max_sample_count v) (Some (ucast n)) (wr (subscribe_transactions v) (bits True False) (mem w))"
    "rd (subscribe_transactions v) (mem w) = bits True False \<Longrightarrow> \<exists>w'. SubscribeTransactionCommit quiet v w = Some w' \<and>
      mem w' = wr (subscribe_transactions v) (bits True True) (mem w)"
    "rd (subscribe_transactions v) (mem w) = bits True False \<Longrightarrow> \<exists>w'. SubscribeTransactionAbort quiet v w = Some w' \<and>
      mem w' = wr (subscribe_transactions v) (bits False False) (mem w)"
    "rd (subscribe_transactions v) (mem w) = bits True True \<Longrightarrow> \<exists>w'. UnsubscribeTransactionBegin quiet v w = Some w' \<and>
      mem w' = wr (subscribe_transactions v) (bits False True) (mem w)"
    "rd (subscribe_transactions v) (mem w) = bits False True \<Longrightarrow>
     rd (subscribe_transactions v) (wr (subscription_max_sample_count v) None (mem w)) = bits False True \<Longrightarrow>
      \<exists>w'. UnsubscribeTransactionCommit quiet v w = Some w' \<and>
      mem w' = wr (subscribe_transactions v) (bits False False) (wr (subscription_max_sample_count v) None (mem w))"
  by (simp_all add: SubscribeTransactionBegin_def SubscribeTransactionCommit_def SubscribeTransactionAbort_def
      UnsubscribeTransactionBegin_def UnsubscribeTransactionCommit_def require_bits_def GetTransactionBegin_def
      GetTransactionEnd_def SetTransactionBegin_def SetTransactionEnd_def fetch_modify_def store_def load_quiet Let_def)

abbreviation set_of :: "quality_type \<Rightarrow> event_control \<Rightarrow> event_memory log_set_view" where
  "set_of q c \<equiv> ec_transaction_log_set (ConsumerEventControlLocalView q c)"

abbreviation log_of :: "quality_type \<Rightarrow> event_control \<Rightarrow> nat \<Rightarrow> event_memory transaction_log_view" where
  "log_of q c i \<equiv> TransactionLogLocalView q (Proxy_Log i) (unat (control_slots_size (data_control c)))"

text \<open>
  The control of an event with the subscriptions \<open>M\<close>: its word counts them, free logs are
  empty, and a subscriber without a log would still be admitted.
\<close>

definition event_consistent :: "quality_type \<Rightarrow> event_control \<Rightarrow> nat multiset \<Rightarrow> event_memory \<Rightarrow> bool" where
  "event_consistent q c M m \<longleftrightarrow>
     represents (rd (subscription_cell q) m) M \<and> 0 < max_subscribers (subscription_control c) \<and>
     (first_free (set_of q c) m \<noteq> None \<longrightarrow> size M < unat (max_subscribers (subscription_control c))) \<and>
     (\<forall>i. rd (id_cell q (Proxy_Log i)) m = kInvalidTransactionLogId \<longrightarrow> log_empty (log_of q c i) m)"

lemma set_of_simps [simp]:
  "proxy_nodes (set_of q c) i = node_view_at q (Proxy_Log i) (unat (control_slots_size (data_control c)))"
  "proxy_nodes_size (set_of q c) = number_of_logs (event_transaction_log_set c)"
  "ec_data_control (ConsumerEventControlLocalView q c) = ConsumerEventDataControlLocalView q (control_slots_size (data_control c))"
  "ec_subscription_control (ConsumerEventControlLocalView q c) = subscription_view_of q (subscription_control c)"
  by (simp_all add: ConsumerEventControlLocalView_def log_set_of_def)

lemma node_view_at_simps [simp]:
  "node_id (node_view_at q p n) = id_cell q p" "node_needs_rollback (node_view_at q p n) = needs_rollback_cell q p"
  "node_log (node_view_at q p n) = TransactionLogLocalView q p n"
  by (simp_all add: node_view_at_def)

lemma subscription_view_simps [simp]:
  "subscription_state (subscription_view_of q sc) = subscription_cell q" "slots_limit (subscription_view_of q sc) = max_subscribable_slots sc"
  "subscribers_limit (subscription_view_of q sc) = max_subscribers sc" "samples_enforced (subscription_view_of q sc) = enforce_max_samples sc"
  by (simp_all add: subscription_view_of_def)

lemma cells_of_logs_apart [simp]:
  "rd (subscribe_transactions_cell q p') (wr (subscribe_transactions_cell q p) y m) =
     (if p' = p then y else rd (subscribe_transactions_cell q p') m)"
  "rd (subscribe_transactions_cell q p') (wr (sample_count_cell q p) z m) = rd (subscribe_transactions_cell q p') m"
  "rd (subscribe_transactions_cell q p') (wr (subscription_cell q) u m) = rd (subscribe_transactions_cell q p') m"
  "rd (entry_cell q p' j) (wr (subscribe_transactions_cell q p) y m) = rd (entry_cell q p' j) m"
  "rd (entry_cell q p' j) (wr (sample_count_cell q p) z m) = rd (entry_cell q p' j) m"
  "rd (entry_cell q p' j) (wr (subscription_cell q) u m) = rd (entry_cell q p' j) m"
  "rd (id_cell q p') (wr (id_cell q p) x m) = (if p' = p then x else rd (id_cell q p') m)"
  "rd (subscription_cell q) (wr (subscription_cell q) u m) = u"
  by (auto simp: memory_cells comp_def simp del: node_at.simps node_update.simps)

definition machine_registered :: "quality_type \<Rightarrow> event_control \<Rightarrow> nat \<Rightarrow> (event_memory, 'h) subscription_state_machine \<Rightarrow>
  (event_memory, 'h) subscription_state_machine" where
  "machine_registered q c i x = x\<lparr>event_control_local := (event_control_local x)\<lparr>ec_data_control :=
       registered_view q (Proxy_Log i) (control_slots_size (data_control c))\<rparr>,
     registration_guard_opt := Some \<lparr>transaction_log_index = of_nat i\<rparr>\<rparr>"

text \<open>Up to the attempt to subscribe: the first free log is taken and the attempt is logged.\<close>

lemma subscribe_start:
  assumes "event_consistent q c M (mem w)" "log_id \<noteq> kInvalidTransactionLogId" "first_free (set_of q c) (mem w) = Some i"
  obtains w1 w2 w3 where
    "RegisterProxyElement quiet (set_of q c) log_id (ec_data_control (ConsumerEventControlLocalView q c)) w =
      Some (Inr (\<lparr>transaction_log_index = of_nat i\<rparr>, registered_view q (Proxy_Log i) (control_slots_size (data_control c))), w1)"
    "GetTransactionLog quiet (set_of q c) (of_nat i) w1 = Some (log_of q c i, w2)"
    "SubscribeTransactionBegin quiet (log_of q c i) n w2 = Some w3"
    "mem w3 = wr (sample_count_cell q (Proxy_Log i)) (Some (ucast n)) (wr (subscribe_transactions_cell q (Proxy_Log i)) (bits True False)
      (wr (needs_rollback_cell q (Proxy_Log i)) False (wr (id_cell q (Proxy_Log i)) log_id (mem w))))"
    "i < unat (number_of_logs (event_transaction_log_set c))" "rd (id_cell q (Proxy_Log i)) (mem w) = kInvalidTransactionLogId"
    "log_empty (log_of q c i) (mem w)"
proof -
  have i: "i < unat (number_of_logs (event_transaction_log_set c))" "rd (id_cell q (Proxy_Log i)) (mem w) = kInvalidTransactionLogId"
    using assms(3) by (auto simp: first_free_def find_Some_iff)
  have empty: "rd (id_cell q (Proxy_Log k)) (mem w) = kInvalidTransactionLogId \<Longrightarrow> log_empty (log_of q c k) (mem w)" for k
    using assms(1) by (simp add: event_consistent_def)
  have set_of: "set_of q c = log_set_of q (number_of_logs (event_transaction_log_set c)) (unat (control_slots_size (data_control c)))"
    by (simp add: ConsumerEventControlLocalView_def)
  obtain w1 where w1: "RegisterProxyElement quiet (set_of q c) log_id (ec_data_control (ConsumerEventControlLocalView q c)) w =
      Some (Inr (\<lparr>transaction_log_index = of_nat i\<rparr>, registered_view q (Proxy_Log i) (control_slots_size (data_control c))), w1)"
    "mem w1 = wr (needs_rollback_cell q (Proxy_Log i)) False (wr (id_cell q (Proxy_Log i)) log_id (mem w))"
    using RegisterProxyElement_takes_first_free [OF assms(2), of q w "unat (control_slots_size (data_control c))"
        "number_of_logs (event_transaction_log_set c)" "ConsumerEventDataControlLocalView q (control_slots_size (data_control c))"]
      empty assms(3) unfolding set_of by (auto simp: registered_view_def)
  define w2 where "w2 = w1\<lparr>tick := Suc (tick w1)\<rparr>"
  have "GetTransactionLog quiet (set_of q c) (of_nat i) w1 = Some (log_of q c i, w2)"
    using i small_index [OF i(1)] assms(2)
    by (simp add: GetTransactionLog_def IsSkeletonElementTransactionLogIndex_def IsActive_def load_quiet w1(2) w2_def)
  moreover have "rd (subscribe_transactions_cell q (Proxy_Log i)) (mem w2) = bits False False"
    using empty [OF i(2)] by (simp add: log_empty_def w2_def w1(2))
  then obtain w3 where "SubscribeTransactionBegin quiet (log_of q c i) n w2 = Some w3"
    "mem w3 = wr (sample_count_cell q (Proxy_Log i)) (Some (ucast n))
      (wr (subscribe_transactions_cell q (Proxy_Log i)) (bits True False) (mem w2))"
    using subscribe_transaction_quiet(1) [of "log_of q c i" w2 n] by auto
  ultimately show thesis using w1 i empty [OF i(2)] by (intro that [of w1 w2 w3]) (simp_all add: w2_def)
qed

text \<open>What subscribing for \<open>n\<close> samples with the log \<open>i\<close> makes of the memory and of the machine.\<close>

definition memory_subscribed :: "quality_type \<Rightarrow> nat \<Rightarrow> u32 \<Rightarrow> u16 \<Rightarrow> event_memory \<Rightarrow> event_memory" where
  "memory_subscribed q i log_id n m =
     wr (subscribe_transactions_cell q (Proxy_Log i)) (bits True True)
       (wr (subscription_cell q) (CreateState (GetSubscribersFromState (rd (subscription_cell q) m) + 1)
          (GetSubscribedSamplesFromState (rd (subscription_cell q) m) + n))
       (wr (sample_count_cell q (Proxy_Log i)) (Some n) (wr (subscribe_transactions_cell q (Proxy_Log i)) (bits True False)
       (wr (needs_rollback_cell q (Proxy_Log i)) False (wr (id_cell q (Proxy_Log i)) log_id m)))))"

definition machine_subscribed :: "quality_type \<Rightarrow> event_control \<Rightarrow> nat \<Rightarrow> u64 \<Rightarrow> (event_memory, 'h) subscription_state_machine \<Rightarrow>
  (event_memory, 'h) subscription_state_machine" where
  "machine_subscribed q c i n x = (machine_registered q c i x)\<lparr>
     subscription_data := \<lparr>data_max_sample_count = Some (ucast n),
       data_slot_collector = Some \<lparr>event_data_control_local = registered_view q (Proxy_Log i) (control_slots_size (data_control c)),
         last_ts = 0, collected_slots = replicate (unat n) 0\<rparr>\<rparr>,
     current_state_idx := if provider_service_instance_is_available x then SUBSCRIBED_STATE else SUBSCRIPTION_PENDING_STATE\<rparr>"

lemma SubscribeEvent_granted:
  assumes "event_consistent q c M (mem w)" "machine_transaction_log_id x \<noteq> kInvalidTransactionLogId"
    and "first_free (set_of q c) (mem w) = Some i" "event_control_local x = ConsumerEventControlLocalView q c"
    and "current_state_idx x = NOT_SUBSCRIBED_STATE" "event_receiver_handler x = None" "0 < n" "n \<le> 255"
    and "enforce_max_samples (subscription_control c) \<longrightarrow>
      sum_mset M + unat n \<le> unat (max_subscribable_slots (subscription_control c))"
  shows "\<exists>w'. SubscribeEvent quiet abi n x s w = Some (Inr (), machine_subscribed q c i n x, s, w') \<and>
    mem w' = memory_subscribed q i (machine_transaction_log_id x) (ucast n) (mem w)"
proof -
  obtain w1 w2 w3 where start: "RegisterProxyElement quiet (set_of q c) (machine_transaction_log_id x)
        (ec_data_control (ConsumerEventControlLocalView q c)) w =
      Some (Inr (\<lparr>transaction_log_index = of_nat i\<rparr>, registered_view q (Proxy_Log i) (control_slots_size (data_control c))), w1)"
    "GetTransactionLog quiet (set_of q c) (of_nat i) w1 = Some (log_of q c i, w2)"
    "SubscribeTransactionBegin quiet (log_of q c i) n w2 = Some w3"
    and m3: "mem w3 = wr (sample_count_cell q (Proxy_Log i)) (Some (ucast n)) (wr (subscribe_transactions_cell q (Proxy_Log i)) (bits True False)
      (wr (needs_rollback_cell q (Proxy_Log i)) False (wr (id_cell q (Proxy_Log i)) (machine_transaction_log_id x) (mem w))))"
    by (rule subscribe_start [OF assms(1-3), of n]) blast
  have rep: "represents (rd (subscription_cell q) (mem w3)) M" and size: "size M < unat (max_subscribers (subscription_control c))"
    using assms(1,3) by (simp_all add: event_consistent_def m3)
  obtain w4 where w4: "Subscribe quiet (subscription_view_of q (subscription_control c)) (ucast n) w3 = (kSuccess, w4)"
    "mem w4 = wr (subscription_cell q) (CreateState (GetSubscribersFromState (rd (subscription_cell q) (mem w)) + 1)
       (GetSubscribedSamplesFromState (rd (subscription_cell q) (mem w)) + ucast n)) (mem w3)"
    by (rule Subscribe_quiet [of "subscription_view_of q (subscription_control c)" w3 M "ucast n"], simp add: rep,
        use assms(1) in \<open>simp add: event_consistent_def\<close>, rule that,
        use size assms(9) small_count(1) [OF assms(8)] in \<open>auto simp: m3\<close>)
  obtain w5 where w5: "SubscribeTransactionCommit quiet (log_of q c i) w4 = Some w5"
    "mem w5 = wr (subscribe_transactions_cell q (Proxy_Log i)) (bits True True) (mem w4)"
    using subscribe_transaction_quiet(2) [of "log_of q c i" w4] by (auto simp: w4(2) m3)
  have "0 < unat n" using assms(7) by (simp add: word_less_nat_alt)
  then have "SubscribeEvent quiet abi n x s w = Some (Inr (), machine_subscribed q c i n x, s, w5)"
    using start w4(1) w5(1) assms(4,5,6)
    by (simp add: SubscribeEvent_def NotSubscribedState_SubscribeEvent_def Let_def enter_subscription_def SlotCollector_def
        TransitionToState_def machine_subscribed_def machine_registered_def)
  then show ?thesis by (simp add: w5(2) w4(2) m3 memory_subscribed_def)
qed

lemma SubscribeEvent_refused:
  assumes "event_consistent q c M (mem w)" "machine_transaction_log_id x \<noteq> kInvalidTransactionLogId"
    and "first_free (set_of q c) (mem w) = Some i" "event_control_local x = ConsumerEventControlLocalView q c"
    and "current_state_idx x = NOT_SUBSCRIBED_STATE" "registration_guard_opt x = None" "n \<le> 255"
    and "enforce_max_samples (subscription_control c)"
      "unat (max_subscribable_slots (subscription_control c)) < sum_mset M + unat n"
  shows "\<exists>w'. SubscribeEvent quiet abi n x s w = Some (Inl kMaxSampleCountNotRealizable, x, s, w') \<and>
    mem w' = wr (id_cell q (Proxy_Log i)) kInvalidTransactionLogId (wr (needs_rollback_cell q (Proxy_Log i)) False
      (wr (subscribe_transactions_cell q (Proxy_Log i)) (bits False False)
      (wr (sample_count_cell q (Proxy_Log i)) (Some (ucast n)) (wr (subscribe_transactions_cell q (Proxy_Log i)) (bits True False)
      (wr (needs_rollback_cell q (Proxy_Log i)) False (wr (id_cell q (Proxy_Log i)) (machine_transaction_log_id x) (mem w)))))))"
proof -
  obtain w1 w2 w3 where start: "RegisterProxyElement quiet (set_of q c) (machine_transaction_log_id x)
        (ec_data_control (ConsumerEventControlLocalView q c)) w =
      Some (Inr (\<lparr>transaction_log_index = of_nat i\<rparr>, registered_view q (Proxy_Log i) (control_slots_size (data_control c))), w1)"
    "GetTransactionLog quiet (set_of q c) (of_nat i) w1 = Some (log_of q c i, w2)"
    "SubscribeTransactionBegin quiet (log_of q c i) n w2 = Some w3"
    and m3: "mem w3 = wr (sample_count_cell q (Proxy_Log i)) (Some (ucast n)) (wr (subscribe_transactions_cell q (Proxy_Log i)) (bits True False)
      (wr (needs_rollback_cell q (Proxy_Log i)) False (wr (id_cell q (Proxy_Log i)) (machine_transaction_log_id x) (mem w))))"
    and i: "i < unat (number_of_logs (event_transaction_log_set c))" and empty: "log_empty (log_of q c i) (mem w)"
    by (rule subscribe_start [OF assms(1-3), of n]) blast
  have rep: "represents (rd (subscription_cell q) (mem w3)) M" and size: "size M < unat (max_subscribers (subscription_control c))"
    using assms(1,3) by (simp_all add: event_consistent_def m3)
  obtain w4 where w4: "Subscribe quiet (subscription_view_of q (subscription_control c)) (ucast n) w3 = (kSlotOverflow, w4)" "mem w4 = mem w3"
    by (rule Subscribe_quiet [of "subscription_view_of q (subscription_control c)" w3 M "ucast n"], simp add: rep,
        use assms(1) in \<open>simp add: event_consistent_def\<close>, rule that,
        use size assms(8,9) small_count(1) [OF assms(7)] in simp,
        use size assms(8,9) small_count(1) [OF assms(7)] in simp)
  obtain w5 where w5: "SubscribeTransactionAbort quiet (log_of q c i) w4 = Some w5"
    "mem w5 = wr (subscribe_transactions_cell q (Proxy_Log i)) (bits False False) (mem w3)"
    using subscribe_transaction_quiet(3) [of "log_of q c i" w4] by (auto simp: w4(2) m3)
  have "log_empty (log_of q c i) (mem w5)" using empty by (simp add: log_empty_def w5(2) m3)
  moreover have "set_of q c = log_set_of q (number_of_logs (event_transaction_log_set c)) (unat (control_slots_size (data_control c)))"
    by (simp add: ConsumerEventControlLocalView_def)
  ultimately obtain w6 where w6: "Unregister quiet (set_of q c) (of_nat i) w5 = Some w6"
    "mem w6 = wr (id_cell q (Proxy_Log i)) kInvalidTransactionLogId (wr (needs_rollback_cell q (Proxy_Log i)) False (mem w5))"
    using log_set.Unregister_quiet [where i = i and logs = "number_of_logs (event_transaction_log_set c)" and q = q
        and n = "unat (control_slots_size (data_control c))" and w = w5] i assms(2) by (auto simp: log_set_of_def w5(2) m3)
  have "SubscribeEvent quiet abi n x s w = Some (Inl kMaxSampleCountNotRealizable, x, s, w6)"
    using start w4(1) w5(1) w6(1) assms(4,5,6)
    by (simp add: SubscribeEvent_def NotSubscribedState_SubscribeEvent_def Let_def reset_guard_def unregister_on_destruction_def
        registered_view_def ClearTransactionLogLocalView_def SetTransactionLogLocalView_def ConsumerEventControlLocalView_def
        ConsumerEventDataControlLocalView_def)
  then show ?thesis by (simp add: w6(2) w5(2) m3)
qed

text \<open>What a refused attempt leaves behind in the free log \<open>i\<close>: the sample count that was asked for and a cleared mark.\<close>

definition memory_refused :: "quality_type \<Rightarrow> nat \<Rightarrow> u16 \<Rightarrow> event_memory \<Rightarrow> event_memory" where
  "memory_refused q i n m = wr (sample_count_cell q (Proxy_Log i)) (Some n) (wr (needs_rollback_cell q (Proxy_Log i)) False m)"

lemma refused_memory:
  assumes "rd (id_cell q (Proxy_Log i)) m = kInvalidTransactionLogId" "rd (subscribe_transactions_cell q (Proxy_Log i)) m = bits False False"
  shows "wr (id_cell q (Proxy_Log i)) kInvalidTransactionLogId (wr (needs_rollback_cell q (Proxy_Log i)) False
      (wr (subscribe_transactions_cell q (Proxy_Log i)) (bits False False)
      (wr (sample_count_cell q (Proxy_Log i)) (Some n) (wr (subscribe_transactions_cell q (Proxy_Log i)) (bits True False)
      (wr (needs_rollback_cell q (Proxy_Log i)) False (wr (id_cell q (Proxy_Log i)) log_id m)))))) = memory_refused q i n m"
  using assms by (simp add: memory_refused_def memory_cells comp_def fun_eq_iff)

text \<open>Without a receive handler, withdrawing a subscription undoes it.\<close>

lemma memory_subscribed_reads [simp]:
  "rd (subscription_cell q) (memory_subscribed q i log_id n m) =
     CreateState (GetSubscribersFromState (rd (subscription_cell q) m) + 1) (GetSubscribedSamplesFromState (rd (subscription_cell q) m) + n)"
  "rd (subscribe_transactions_cell q p) (memory_subscribed q i log_id n m) =
     (if p = Proxy_Log i then bits True True else rd (subscribe_transactions_cell q p) m)"
  "rd (entry_cell q p j) (memory_subscribed q i log_id n m) = rd (entry_cell q p j) m"
  "rd (slot_cell q j) (memory_subscribed q i log_id n m) = rd (slot_cell q j) m"
  "rd (id_cell q p) (memory_subscribed q i log_id n m) = (if p = Proxy_Log i then log_id else rd (id_cell q p) m)"
  by (simp_all add: memory_subscribed_def)

definition memory_unsubscribed :: "quality_type \<Rightarrow> nat \<Rightarrow> u32 \<Rightarrow> event_memory \<Rightarrow> event_memory" where
  "memory_unsubscribed q i word m =
     wr (id_cell q (Proxy_Log i)) kInvalidTransactionLogId (wr (needs_rollback_cell q (Proxy_Log i)) False
       (wr (subscribe_transactions_cell q (Proxy_Log i)) (bits False False) (wr (sample_count_cell q (Proxy_Log i)) None
       (wr (subscription_cell q) word (wr (subscribe_transactions_cell q (Proxy_Log i)) (bits False True) m)))))"

lemma memory_unsubscribed_reads [simp]:
  "rd (subscription_cell q) (memory_unsubscribed q i word m) = word"
  "rd (subscribe_transactions_cell q p) (memory_unsubscribed q i word m) =
     (if p = Proxy_Log i then bits False False else rd (subscribe_transactions_cell q p) m)"
  "rd (entry_cell q p j) (memory_unsubscribed q i word m) = rd (entry_cell q p j) m"
  "rd (slot_cell q j) (memory_unsubscribed q i word m) = rd (slot_cell q j) m"
  "rd (id_cell q p) (memory_unsubscribed q i word m) = (if p = Proxy_Log i then kInvalidTransactionLogId else rd (id_cell q p) m)"
  by (simp_all add: memory_unsubscribed_def)

lemma OnEntry_quiet:
  assumes "i < unat (number_of_logs (event_transaction_log_set c))" "rd (id_cell q (Proxy_Log i)) (mem w) \<noteq> kInvalidTransactionLogId"
    and "rd (subscribe_transactions_cell q (Proxy_Log i)) (mem w) = bits True True"
    and "\<And>j. j < unat (control_slots_size (data_control c)) \<Longrightarrow> rd (entry_cell q (Proxy_Log i) j) (mem w) = bits False False"
    and "represents (rd (subscription_cell q) (mem w)) M" "unat n \<in># M" "0 < max_subscribers (subscription_control c)"
    and "registration_number (handler_manager x) = None" "registration_guard_opt x = Some \<lparr>transaction_log_index = of_nat i\<rparr>"
    and "ec_transaction_log_set (event_control_local x) = set_of q c" "data_max_sample_count (subscription_data x) = Some n"
    and "ec_subscription_control (event_control_local x) = subscription_view_of q (subscription_control c)"
  shows "\<exists>x' w'. NotSubscribedState_OnEntry quiet abi x s w = Some ((), x', s, w') \<and>
    mem w' = memory_unsubscribed q i (CreateState (GetSubscribersFromState (rd (subscription_cell q) (mem w)) - 1)
       (GetSubscribedSamplesFromState (rd (subscription_cell q) (mem w)) - n)) (mem w)"
proof -
  let ?p = "Proxy_Log i" and ?word = "CreateState (GetSubscribersFromState (rd (subscription_cell q) (mem w)) - 1)
       (GetSubscribedSamplesFromState (rd (subscription_cell q) (mem w)) - n)"
  define w1 where "w1 = w\<lparr>tick := Suc (tick w)\<rparr>"
  have log: "GetTransactionLog quiet (set_of q c) (of_nat i) w = Some (log_of q c i, w1)"
    using small_index [OF assms(1)] assms(1,2)
    by (simp add: GetTransactionLog_def IsSkeletonElementTransactionLogIndex_def IsActive_def load_quiet w1_def)
  obtain w2 where w2: "UnsubscribeTransactionBegin quiet (log_of q c i) w1 = Some w2"
    "mem w2 = wr (subscribe_transactions_cell q ?p) (bits False True) (mem w)"
    using subscribe_transaction_quiet(4) [of "log_of q c i" w1] by (auto simp: w1_def assms(3))
  obtain w3 where w3: "Unsubscribe quiet (subscription_view_of q (subscription_control c)) n w2 = Some w3"
    "mem w3 = wr (subscription_cell q) ?word (mem w2)"
    by (rule Unsubscribe_quiet [of "subscription_view_of q (subscription_control c)" w2 M n],
        simp add: w2(2) assms(5), rule assms(6), simp add: assms(7), rule that, simp, simp add: w2(2))
  obtain w4 where w4: "UnsubscribeTransactionCommit quiet (log_of q c i) w3 = Some w4"
    "mem w4 = wr (subscribe_transactions_cell q ?p) (bits False False) (wr (sample_count_cell q ?p) None (mem w3))"
    using subscribe_transaction_quiet(5) [of "log_of q c i" w3] by (auto simp: w3(2) w2(2))
  have "log_empty (log_of q c i) (mem w4)" using assms(4) by (simp add: log_empty_def w4(2) w3(2) w2(2))
  moreover have "set_of q c = log_set_of q (number_of_logs (event_transaction_log_set c)) (unat (control_slots_size (data_control c)))"
    by (simp add: ConsumerEventControlLocalView_def)
  ultimately obtain w5 where "Unregister quiet (set_of q c) (of_nat i) w4 = Some w5"
    "mem w5 = wr (id_cell q ?p) kInvalidTransactionLogId (wr (needs_rollback_cell q ?p) False (mem w4))"
    using log_set.Unregister_quiet [where i = i and logs = "number_of_logs (event_transaction_log_set c)" and q = q
        and n = "unat (control_slots_size (data_control c))" and w = w4] assms(1,2)
    by (auto simp: log_set_of_def w4(2) w3(2) w2(2))
  then show ?thesis
    using log w2(1) w3(1) w4(1) assms(8-12)
    by (simp add: NotSubscribedState_OnEntry_def manager_Unregister_def reset_guard_def unregister_on_destruction_def Let_def
        memory_unsubscribed_def w4(2) w3(2) w2(2))
qed

lemma first_free_cong:
  "(\<And>k. rd (id_cell q (Proxy_Log k)) m' = rd (id_cell q (Proxy_Log k)) m) \<Longrightarrow> first_free (set_of q c) m' = first_free (set_of q c) m"
  by (simp add: first_free_def)

text \<open>An unregistered machine is back to what it was when it leaves a subscription without handler.\<close>

lemma OnEntry_machine:
  assumes "NotSubscribedState_OnEntry e abi ((machine_subscribed q c i n x)\<lparr>current_state_idx := NOT_SUBSCRIBED_STATE\<rparr>) s w =
      Some (r, x', s', w')"
    and "machine_ok x" "current_state_idx x = NOT_SUBSCRIBED_STATE" "event_control_local x = ConsumerEventControlLocalView q c"
  shows "x' = x"
  using OnEntry_result [OF assms(1)] assms(2-4)
  by (cases x)
    (simp add: machine_ok_def machine_subscribed_def machine_registered_def ConsumerEventControlLocalView_def registered_view_def
      ClearTransactionLogLocalView_def SetTransactionLogLocalView_def ConsumerEventDataControlLocalView_def)

lemma subscribe_answers:
  assumes "machine_ok x" "current_state_idx x = NOT_SUBSCRIBED_STATE"
    and "event_control_local x = ConsumerEventControlLocalView q c" "event_receiver_handler x = None"
    and "machine_transaction_log_id x \<noteq> kInvalidTransactionLogId" "event_consistent q c M (mem w)"
    and "enforce_max_samples (subscription_control c)" "0 < n" "n \<le> 255"
  obtains (no_log) w' where "first_free (set_of q c) (mem w) = None"
      "SubscribeEvent quiet abi n x s w = Some (Inl kMaxSubscribersExceeded, x, s, w')" "mem w' = mem w"
  | (no_room) i w' where "first_free (set_of q c) (mem w) = Some i"
      "unat (max_subscribable_slots (subscription_control c)) < sum_mset M + unat n"
      "SubscribeEvent quiet abi n x s w = Some (Inl kMaxSampleCountNotRealizable, x, s, w')"
      "\<And>k. rd (id_cell q (Proxy_Log k)) (mem w') = rd (id_cell q (Proxy_Log k)) (mem w)" "event_consistent q c M (mem w')"
      "mem w' = memory_refused q i (ucast n) (mem w)"
  | (granted) i w' where "first_free (set_of q c) (mem w) = Some i"
      "sum_mset M + unat n \<le> unat (max_subscribable_slots (subscription_control c))"
      "SubscribeEvent quiet abi n x s w = Some (Inr (), machine_subscribed q c i n x, s, w')"
      "mem w' = memory_subscribed q i (machine_transaction_log_id x) (ucast n) (mem w)"
proof (cases "first_free (set_of q c) (mem w)")
  case None
  have "set_of q c = log_set_of q (number_of_logs (event_transaction_log_set c)) (unat (control_slots_size (data_control c)))"
    by (simp add: ConsumerEventControlLocalView_def)
  then obtain w' where "RegisterProxyElement quiet (set_of q c) (machine_transaction_log_id x) (ec_data_control (event_control_local x)) w =
      Some (Inl kMaxSubscribersExceeded, w')" "mem w' = mem w"
    using RegisterProxyElement_takes_first_free [OF assms(5), of q w "unat (control_slots_size (data_control c))"
        "number_of_logs (event_transaction_log_set c)" "ec_data_control (event_control_local x)"] None assms(6)
    by (auto simp: event_consistent_def)
  with None assms(2,3) show ?thesis
    by (intro no_log [of w']) (simp_all add: SubscribeEvent_def NotSubscribedState_SubscribeEvent_def Let_def)
next
  case (Some i)
  have i: "rd (id_cell q (Proxy_Log i)) (mem w) = kInvalidTransactionLogId"
    using Some by (auto simp: first_free_def find_Some_iff)
  show ?thesis
  proof (cases "unat (max_subscribable_slots (subscription_control c)) < sum_mset M + unat n")
    case True
    have "registration_guard_opt x = None" using assms(1,2) by (simp add: machine_ok_def)
    from SubscribeEvent_refused [OF assms(6,5) Some assms(3,2) this assms(9,7) True, of abi s] obtain w' where
      w': "SubscribeEvent quiet abi n x s w = Some (Inl kMaxSampleCountNotRealizable, x, s, w')"
      and m: "mem w' = wr (id_cell q (Proxy_Log i)) kInvalidTransactionLogId (wr (needs_rollback_cell q (Proxy_Log i)) False
        (wr (subscribe_transactions_cell q (Proxy_Log i)) (bits False False)
        (wr (sample_count_cell q (Proxy_Log i)) (Some (ucast n)) (wr (subscribe_transactions_cell q (Proxy_Log i)) (bits True False)
        (wr (needs_rollback_cell q (Proxy_Log i)) False (wr (id_cell q (Proxy_Log i)) (machine_transaction_log_id x) (mem w)))))))"
      by blast
    have ids: "rd (id_cell q (Proxy_Log k)) (mem w') = rd (id_cell q (Proxy_Log k)) (mem w)" for k using i by (simp add: m)
    then have "event_consistent q c M (mem w')"
      using assms(6) first_free_cong [OF ids, of c] i by (auto simp: event_consistent_def log_empty_def m)
    moreover have "rd (subscribe_transactions_cell q (Proxy_Log i)) (mem w) = bits False False"
      using assms(6) i by (simp add: event_consistent_def log_empty_def)
    with m refused_memory [OF i] have "mem w' = memory_refused q i (ucast n) (mem w)" by simp
    ultimately show ?thesis using w' ids Some True by (intro no_room) auto
  next
    case False
    with SubscribeEvent_granted [OF assms(6,5) Some assms(3,2,4,8,9), of abi s] Some show ?thesis
      by (auto intro: granted)
  qed
qed

subsection \<open>Properties\<close>

text \<open>An event with two logs and three slots, a proxy event of it and a process without ASIL-B, for the witnesses.\<close>

definition example_control :: event_control where
  "example_control = new_memory quality_type.kASIL_QM"

definition example_machine :: "(event_memory, string) subscription_state_machine" where
  "example_machine = SubscriptionStateMachine quality_type.kASIL_QM example_event 7
     (ConsumerEventControlLocalView quality_type.kASIL_QM example_control) 1000"

definition example_service :: "(string, string, string, string) message_passing_service" where
  "example_service = MessagePassingService False 5 0"

lemma example_control_simps [simp]:
  "control_slots_size (data_control example_control) = 3" "number_of_logs (event_transaction_log_set example_control) = 2"
  "max_subscribers (subscription_control example_control) = 2" "max_subscribable_slots (subscription_control example_control) = 3"
  "enforce_max_samples (subscription_control example_control)"
  by (simp_all add: example_control_def new_memory_def EventControl_def TransactionLogSet_def kSkeletonIndexSentinel_def
      EventDataControl_def EventSubscriptionControl_def)

lemma example_machine_simps [simp]:
  "current_state_idx example_machine = NOT_SUBSCRIBED_STATE" "event_receiver_handler example_machine = None"
  "event_control_local example_machine = ConsumerEventControlLocalView quality_type.kASIL_QM example_control"
  "machine_transaction_log_id example_machine = 1000" "provider_service_instance_is_available example_machine"
  by (simp_all add: example_machine_def SubscriptionStateMachine_def)

lemma example_machine_reachable: "reachable_event little_endian example_machine s"
  unfolding example_machine_def
  by (rule reachable_event.created) (simp add: ConsumerEventDataControlLocalView_def)

lemma example_consistent: "event_consistent quality_type.kASIL_QM example_control {#} new_memory"
proof -
  have "rd (subscription_cell quality_type.kASIL_QM) new_memory = 0"
    by (simp add: memory_cells new_memory_def EventControl_def TransactionLogSet_def kSkeletonIndexSentinel_def
        EventSubscriptionControl_def)
  moreover have "log_empty (log_of quality_type.kASIL_QM example_control i) new_memory" for i
    using new_memory_simps(2) [of quality_type.kASIL_QM 2 3 i] by (simp add: log_set_of_def)
  ultimately show ?thesis by (simp add: event_consistent_def)
qed

lemma example_first_free: "first_free (set_of quality_type.kASIL_QM example_control) new_memory = Some 0"
  using new_memory_first_free [of quality_type.kASIL_QM 3] by (simp add: ConsumerEventControlLocalView_def)

lemma example_subscribes:
  obtains w where "perform_event_call quiet little_endian (Call_Subscribe 2) example_machine example_service (start new_memory) =
      Some (Inr (), machine_subscribed quality_type.kASIL_QM example_control 0 2 example_machine, example_service, w)"
    "mem w = memory_subscribed quality_type.kASIL_QM 0 1000 2 new_memory"
proof -
  obtain w where "SubscribeEvent quiet little_endian 2 example_machine example_service (start new_memory) =
      Some (Inr (), machine_subscribed quality_type.kASIL_QM example_control 0 2 example_machine, example_service, w)"
    "mem w = memory_subscribed quality_type.kASIL_QM 0 1000 2 new_memory"
    using SubscribeEvent_granted [where q = quality_type.kASIL_QM and c = example_control and M = "{#}" and n = 2
        and w = "start new_memory" and x = example_machine and i = 0 and abi = little_endian and s = example_service]
      example_consistent example_first_free
    by (auto simp: kInvalidTransactionLogId_def)
  then show thesis by (intro that [of w]) (simp_all add: ProxyEventCommon_Subscribe_def)
qed

text \<open>
  C18. Whatever other processes and the other users of the messaging service do, and whatever
  the results of its calls were, a proxy event is always in one of its three states. Without a
  subscription it holds neither a sample count nor a collector, a transaction log or a
  registered handler; with one it holds a log, its sample count is between 1 and 255 and its
  collector has room for exactly that many samples, and it is pending exactly while the service
  is not offered. None of the assertions in its getters can fail.
\<close>

theorem event_machine_invariant:
  assumes "reachable_event abi x s"
  shows "case ProxyEventCommon_GetSubscriptionState x of
      None \<Rightarrow> False
    | Some kNotSubscribed \<Rightarrow>
        ProxyEventCommon_GetMaxSampleCount x = Some None \<and> GetSlotCollectorLockFree x = Some None \<and>
        registration_guard_opt x = None \<and> transaction_log_local_view (ec_data_control (event_control_local x)) = None \<and>
        registration_number (handler_manager x) = None
    | Some state \<Rightarrow>
        provider_service_instance_is_available x = (state = kSubscribed) \<and>
        registration_guard_opt x \<noteq> None \<and> transaction_log_local_view (ec_data_control (event_control_local x)) \<noteq> None \<and>
        (\<exists>n collector. ProxyEventCommon_GetMaxSampleCount x = Some (Some n) \<and> 0 < n \<and> n \<le> 255 \<and>
           GetSlotCollectorLockFree x = Some (Some collector) \<and> length (collected_slots collector) = unat n)"
  using reachable_event_ok [OF assms]
  by (cases "current_state_idx x")
    (auto simp: machine_ok_def subscription_held_def ProxyEventCommon_GetSubscriptionState_def Let_def
      ProxyEventCommon_GetMaxSampleCount_def machine_GetMaxSampleCount_def GetSlotCollectorLockFree_def
      NotSubscribedState_GetMaxSampleCount_def NotSubscribedState_GetSlotCollector_def
      SubscriptionPendingState_GetMaxSampleCount_def SubscriptionPendingState_GetSlotCollector_def
      SubscribedState_GetMaxSampleCount_def SubscribedState_GetSlotCollector_def)

theorem event_machine_invariant_witness:
  "\<exists>w. perform_event_call quiet little_endian (Call_Subscribe 2) example_machine example_service (start new_memory) =
      Some (Inr (), machine_subscribed quality_type.kASIL_QM example_control 0 2 example_machine, example_service, w) \<and>
    registration_guard_opt (machine_subscribed quality_type.kASIL_QM example_control 0 2 example_machine) \<noteq> None \<and>
    (\<exists>n. ProxyEventCommon_GetMaxSampleCount (machine_subscribed quality_type.kASIL_QM example_control 0 2 example_machine) = Some (Some n) \<and>
       0 < n \<and> n \<le> 255)"
proof -
  let ?x = "machine_subscribed quality_type.kASIL_QM example_control 0 2 example_machine"
  obtain w where w: "perform_event_call quiet little_endian (Call_Subscribe 2) example_machine example_service (start new_memory) =
      Some (Inr (), ?x, example_service, w)" by (rule example_subscribes)
  have "reachable_event little_endian ?x example_service"
    by (rule reachable_event.called [OF example_machine_reachable w])
  moreover have "ProxyEventCommon_GetSubscriptionState ?x = Some kSubscribed"
    by (simp add: ProxyEventCommon_GetSubscriptionState_def machine_subscribed_def)
  ultimately show ?thesis using event_machine_invariant [of little_endian ?x example_service] w by auto
qed

text \<open>
  C15. A proxy event implements a simple contract over two pieces of data, the sample count
  subscribed for and whether the service is offered: its state is a function of the two, and
  every call that returns answers and changes them as the contract says. In particular
  subscribing again succeeds exactly if the count is the same one, although the code compares
  only the low 8 or 16 bits.
\<close>

theorem event_machine_refines_contract:
  assumes "reachable_event abi x s" "perform_event_call e abi c x s w = Some (r, x', s', w')"
  shows "event_spec c (abs_machine x) r (abs_machine x') \<and>
    current_state_idx x = state_of (abs_machine x) \<and> current_state_idx x' = state_of (abs_machine x')"
  using perform_event_call_ok [OF assms(2) reachable_event_ok [OF assms(1)]] reachable_event_ok [OF assms(1)]
  by (simp add: machine_ok_state)

theorem event_machine_refines_contract_witness:
  "\<exists>w. perform_event_call quiet little_endian (Call_Subscribe 2) example_machine example_service (start new_memory) =
      Some (Inr (), machine_subscribed quality_type.kASIL_QM example_control 0 2 example_machine, example_service, w) \<and>
    event_spec (Call_Subscribe 2 :: string event_call) (abs_machine example_machine) (Inr ())
      (abs_machine (machine_subscribed quality_type.kASIL_QM example_control 0 2 example_machine))"
proof -
  obtain w where w: "perform_event_call quiet little_endian (Call_Subscribe 2) example_machine example_service (start new_memory) =
      Some (Inr (), machine_subscribed quality_type.kASIL_QM example_control 0 2 example_machine, example_service, w)"
    by (rule example_subscribes)
  with event_machine_refines_contract [OF example_machine_reachable w] show ?thesis by blast
qed

text \<open>
  C17. When nobody interferes, sample limits are enforced, an event counts its subscribers correctly and no
  receive handler waits, subscribing within the 8-bit limit always returns. It fails with
  \<open>kMaxSubscribersExceeded\<close> exactly if there is no free transaction log, and otherwise with
  \<open>kMaxSampleCountNotRealizable\<close> exactly if the samples exceed what is left; the assertion
  about the number of subscribers never fails. The first failure changes nothing in the memory. The second
  one leaves exactly two fields of the first free log changed, the sample count, which stays the refused
  one, and the rollback mark, which is cleared; the proxy event, the subscriptions and the owners of all
  logs are as they were and free logs are empty. A success adds the subscription and makes the caller the
  owner of the first free log.
\<close>

theorem subscribe_answers_exactly:
  assumes "reachable_event abi x s" "ProxyEventCommon_GetSubscriptionState x = Some kNotSubscribed"
    and "event_control_local x = ConsumerEventControlLocalView q c" "event_receiver_handler x = None"
    and "machine_transaction_log_id x \<noteq> kInvalidTransactionLogId" "event_consistent q c M (mem w)"
    and "enforce_max_samples (subscription_control c)" "0 < n" "n \<le> 255"
  shows "\<exists>r x' w'. ProxyEventCommon_Subscribe quiet abi n x s w = Some (r, x', s, w') \<and>
    r = (if first_free (set_of q c) (mem w) = None then Inl kMaxSubscribersExceeded
         else if unat (max_subscribable_slots (subscription_control c)) < sum_mset M + unat n
         then Inl kMaxSampleCountNotRealizable else Inr ()) \<and>
    (case r of
       Inl _ \<Rightarrow> x' = x \<and> event_consistent q c M (mem w') \<and>
         mem w' = (case first_free (set_of q c) (mem w) of
             None \<Rightarrow> mem w
           | Some i \<Rightarrow> wr (sample_count_cell q (Proxy_Log i)) (Some (ucast n)) (wr (needs_rollback_cell q (Proxy_Log i)) False (mem w))) \<and>
         (\<forall>k. rd (id_cell q (Proxy_Log k)) (mem w') = rd (id_cell q (Proxy_Log k)) (mem w))
     | Inr _ \<Rightarrow> represents (rd (subscription_cell q) (mem w')) (add_mset (unat n) M) \<and>
         (\<forall>k. rd (id_cell q (Proxy_Log k)) (mem w') =
            (if first_free (set_of q c) (mem w) = Some k then machine_transaction_log_id x
             else rd (id_cell q (Proxy_Log k)) (mem w))))"
proof -
  have ok: "machine_ok x" by (rule reachable_event_ok) (rule assms(1))
  have state: "current_state_idx x = NOT_SUBSCRIBED_STATE"
    using assms(2) by (auto simp: ProxyEventCommon_GetSubscriptionState_def Let_def split: if_splits elim: bind_eq_SomeE)
  show ?thesis
  proof (rule subscribe_answers [OF ok state assms(3-9), of abi s])
    fix i w'
    assume granted: "first_free (set_of q c) (mem w) = Some i"
      "sum_mset M + unat n \<le> unat (max_subscribable_slots (subscription_control c))"
      "SubscribeEvent quiet abi n x s w = Some (Inr (), machine_subscribed q c i n x, s, w')"
      "mem w' = memory_subscribed q i (machine_transaction_log_id x) (ucast n) (mem w)"
    have "represents (rd (subscription_cell q) (mem w')) (add_mset (unat n) M)"
      using represents_subscribe(1) [of "rd (subscription_cell q) (mem w)" M "subscription_view_of q (subscription_control c)" "ucast n"]
        assms(6) granted small_count(1) [OF assms(9)] by (auto simp: event_consistent_def)
    with granted assms(9) show ?thesis by (auto simp: ProxyEventCommon_Subscribe_def)
  qed (use assms(6,9) in \<open>auto simp: ProxyEventCommon_Subscribe_def memory_refused_def\<close>)
qed

theorem subscribe_answers_exactly_witness:
  "\<exists>x' w'. ProxyEventCommon_Subscribe quiet little_endian 4 example_machine example_service (start new_memory) =
      Some (Inl kMaxSampleCountNotRealizable, x', example_service, w') \<and> x' = example_machine \<and>
    event_consistent quality_type.kASIL_QM example_control {#} (mem w') \<and>
    mem w' = wr (sample_count_cell quality_type.kASIL_QM (Proxy_Log 0)) (Some 4)
      (wr (needs_rollback_cell quality_type.kASIL_QM (Proxy_Log 0)) False new_memory)"
  using subscribe_answers_exactly [OF example_machine_reachable [of example_service], where q = quality_type.kASIL_QM
      and c = example_control and M = "{#}" and w = "start new_memory" and n = 4] example_consistent example_first_free
  by (auto simp: ProxyEventCommon_GetSubscriptionState_def kInvalidTransactionLogId_def)

text \<open>
  C16. Under the same conditions (nobody interferes, sample limits are enforced, the event counts its
  subscribers correctly and no receive handler waits), withdrawing a subscription that was granted undoes
  it: the proxy event is exactly as before, the event counts the same subscriptions, every log has the owner
  it had, the log of the subscription is empty again, and no slot has changed.
\<close>

theorem subscription_round_trip:
  assumes "reachable_event abi x s" "ProxyEventCommon_GetSubscriptionState x = Some kNotSubscribed"
    and "event_control_local x = ConsumerEventControlLocalView q c" "event_receiver_handler x = None"
    and "machine_transaction_log_id x \<noteq> kInvalidTransactionLogId" "event_consistent q c M (mem w)"
    and "enforce_max_samples (subscription_control c)" "0 < n" "n \<le> 255"
    and "ProxyEventCommon_Subscribe quiet abi n x s w = Some (Inr (), x', s', w')"
  shows "\<exists>w''. ProxyEventCommon_Unsubscribe quiet abi x' s' w' = Some ((), x, s, w'') \<and> event_consistent q c M (mem w'') \<and>
    (\<forall>k. rd (id_cell q (Proxy_Log k)) (mem w'') = rd (id_cell q (Proxy_Log k)) (mem w)) \<and>
    (\<forall>j. rd (slot_cell q j) (mem w'') = rd (slot_cell q j) (mem w))"
proof -
  have ok: "machine_ok x" by (rule reachable_event_ok) (rule assms(1))
  have state: "current_state_idx x = NOT_SUBSCRIBED_STATE"
    using assms(2) by (auto simp: ProxyEventCommon_GetSubscriptionState_def Let_def split: if_splits elim: bind_eq_SomeE)
  obtain i where i: "first_free (set_of q c) (mem w) = Some i"
      "sum_mset M + unat n \<le> unat (max_subscribable_slots (subscription_control c))"
    and x': "x' = machine_subscribed q c i n x" "s' = s"
      "mem w' = memory_subscribed q i (machine_transaction_log_id x) (ucast n) (mem w)"
    using assms(10) by (auto simp: ProxyEventCommon_Subscribe_def intro: subscribe_answers [OF ok state assms(3-9), of abi s])
  have free: "i < unat (number_of_logs (event_transaction_log_set c))" "rd (id_cell q (Proxy_Log i)) (mem w) = kInvalidTransactionLogId"
    using i(1) by (auto simp: first_free_def find_Some_iff)
  have log: "log_empty (log_of q c i) (mem w)" and rep: "represents (rd (subscription_cell q) (mem w)) M"
    and size: "size M < unat (max_subscribers (subscription_control c))"
    using assms(6) free(2) i(1) by (auto simp: event_consistent_def)
  have n: "unat (ucast n :: u16) = unat n" by (rule small_count(1)) (rule assms(9))
  have rep': "represents (rd (subscription_cell q) (mem w')) (add_mset (unat n) M)"
    using represents_subscribe(1) [of "rd (subscription_cell q) (mem w)" M "subscription_view_of q (subscription_control c)" "ucast n"]
      rep size i(2) n by (simp add: x')
  let ?y = "x'\<lparr>current_state_idx := NOT_SUBSCRIBED_STATE\<rparr>"
  obtain y w'' where y: "NotSubscribedState_OnEntry quiet abi ?y s w' = Some ((), y, s, w'')"
    and m: "mem w'' = memory_unsubscribed q i (CreateState (GetSubscribersFromState (rd (subscription_cell q) (mem w)))
       (GetSubscribedSamplesFromState (rd (subscription_cell q) (mem w)))) (mem w')"
    using OnEntry_quiet [OF free(1), of q w' "add_mset (unat n) M" "ucast n" ?y abi s] assms(3,5,6) log rep' n ok state
    by (auto simp: x' log_empty_def event_consistent_def machine_subscribed_def machine_registered_def machine_ok_def)
  have "y = x" using OnEntry_machine [OF y [unfolded x'(1)] ok state assms(3)] .
  moreover have "UnsubscribeEvent quiet abi x' s w' = NotSubscribedState_OnEntry quiet abi ?y s w'"
    by (simp add: UnsubscribeEvent_def TransitionToState_def x'(1) machine_subscribed_def)
  moreover have ids: "rd (id_cell q (Proxy_Log k)) (mem w'') = rd (id_cell q (Proxy_Log k)) (mem w)" for k
    using free(2) by (simp add: m x')
  moreover have "event_consistent q c M (mem w'')"
    using assms(6) log rep first_free_cong [OF ids, of c] free(2)
    by (auto simp: event_consistent_def log_empty_def m x' represents_def)
  ultimately show ?thesis using y by (auto simp: ProxyEventCommon_Unsubscribe_def x' m)
qed

theorem subscription_round_trip_witness:
  "\<exists>w' w''. ProxyEventCommon_Subscribe quiet little_endian 2 example_machine example_service (start new_memory) =
      Some (Inr (), machine_subscribed quality_type.kASIL_QM example_control 0 2 example_machine, example_service, w') \<and>
    ProxyEventCommon_Unsubscribe quiet little_endian (machine_subscribed quality_type.kASIL_QM example_control 0 2 example_machine)
      example_service w' = Some ((), example_machine, example_service, w'')"
proof -
  obtain w' where w': "ProxyEventCommon_Subscribe quiet little_endian 2 example_machine example_service (start new_memory) =
      Some (Inr (), machine_subscribed quality_type.kASIL_QM example_control 0 2 example_machine, example_service, w')"
    using example_subscribes by auto
  show ?thesis
    using subscription_round_trip [OF example_machine_reachable [of example_service], where q = quality_type.kASIL_QM
        and c = example_control and M = "{#}" and w = "start new_memory" and n = 2, OF _ _ _ _ _ _ _ _ w']
      w' example_consistent
    by (auto simp: ProxyEventCommon_GetSubscriptionState_def kInvalidTransactionLogId_def)
qed

text \<open>
  C37. Removing the receive handler while the service is not offered has no effect on a handler
  that was registered before: when the service is offered again by another process, the
  registration of the removed handler is renewed there. The number of the registration and the
  list of handlers are unchanged, and the new process is sent a request to notify this one.
\<close>

theorem unset_while_pending_is_lost:
  assumes "reachable_event abi x s" "ProxyEventCommon_GetSubscriptionState x = Some kSubscribed"
    and "registration_number (handler_manager x) = Some no"
    and "GetMessagePassingServiceInstance (manager_asil_level (handler_manager x)) s = Some y"
    and "event_update_handlers (event_part y) (element_key (manager_element (handler_manager x))) = Some handlers"
    and "event_update_remote_registrations (event_part y) (element_key (manager_element (handler_manager x))) = Some counter"
    and "counter_node_id counter \<noteq> pid" "pid \<noteq> self_pid (event_part y)"
  shows "\<exists>x' s' y'. do {
      (_, x, s, w) \<leftarrow> perform_event_call e abi (Call_Available False old_pid) x s w;
      (_, x, s, w) \<leftarrow> perform_event_call e abi Call_UnsetReceiveHandler x s w;
      perform_event_call e abi (Call_Available True pid) x s w
    } = Some (Inr (), x', s', w) \<and>
    ProxyEventCommon_GetSubscriptionState x' = Some kSubscribed \<and> registration_number (handler_manager x') = Some no \<and>
    GetMessagePassingServiceInstance (manager_asil_level (handler_manager x)) s' = Some y' \<and>
    event_update_handlers (event_part y') = event_update_handlers (event_part y) \<and>
    effects (event_part y') = effects (event_part y) @
      [Sent pid (SerializeToMessage (element_layout abi) (message_type_number kRegisterEventNotifier) (manager_element (handler_manager x)))]"
proof -
  have state: "current_state_idx x = SUBSCRIBED_STATE"
    using assms(2) by (auto simp: ProxyEventCommon_GetSubscriptionState_def Let_def split: if_splits elim: bind_eq_SomeE)
  then have "event_receiver_handler x = None" using reachable_event_ok [OF assms(1)] by (simp add: machine_ok_def)
  with state show ?thesis
    using assms(3-8) instance_valid [OF assms(4)]
    by (simp add: ProxyEventCommon_NotifyServiceInstanceChangedAvailability_def StopOfferEvent_def TransitionToState_def
        ProxyEventCommon_UnsetReceiveHandler_def UnsetReceiveHandler_def ReOfferEvent_def SubscriptionPendingState_ReOfferEvent_def
        manager_Reregister_def UpdatePid_def service_ReregisterEventNotification_def on_events_def
        ReregisterEventNotification_def SendRegisterEventNotificationMessage_def ProxyEventCommon_GetSubscriptionState_def)
qed

theorem unset_while_pending_is_lost_witness:
  "\<exists>(x :: (event_memory, string) subscription_state_machine) (s :: (string, string, string, string) message_passing_service) no x' s'.
    reachable_event little_endian x s \<and> registration_number (handler_manager x) = Some no \<and> do {
      (_, x, s, w) \<leftarrow> perform_event_call quiet little_endian (Call_Available False 7) x s (start new_memory);
      (_, x, s, w) \<leftarrow> perform_event_call quiet little_endian Call_UnsetReceiveHandler x s w;
      perform_event_call quiet little_endian (Call_Available True 9) x s w
    } = Some (Inr (), x', s', start new_memory) \<and> registration_number (handler_manager x') = Some no"
proof -
  let ?x = "machine_subscribed quality_type.kASIL_QM example_control 0 2 example_machine"
  obtain w where w: "perform_event_call quiet little_endian (Call_Subscribe 2) example_machine example_service (start new_memory) =
      Some (Inr (), ?x, example_service, w)" by (rule example_subscribes)
  define x where "x = ?x\<lparr>handler_manager := (handler_manager ?x)\<lparr>registration_number := Some 0\<rparr>\<rparr>"
  define event where "event = snd (RegisterEventNotification little_endian example_event ''handler'' 7
      (event_part (qm_instance example_service)))"
  define s where "s = put_instance quality_type.kASIL_QM ((qm_instance example_service)\<lparr>event_part := event\<rparr>) example_service"
  have manager: "handler_manager ?x = EventReceiveHandlerManager quality_type.kASIL_QM example_event 7"
    by (simp add: machine_subscribed_def machine_registered_def example_machine_def SubscriptionStateMachine_def)
  have no: "fst (RegisterEventNotification little_endian example_event ''handler'' 7 (event_part (qm_instance example_service))) = 0"
    by (simp add: RegisterEventNotification_def Let_def example_service_def MessagePassingService_def
        MessagePassingServiceInstanceFactory_Create_def MessagePassingServiceInstance_def)
  have "perform_event_call quiet little_endian (Call_SetReceiveHandler ''handler'') ?x example_service w = Some (Inr (), x, s, w)"
    using no manager
    by (simp add: ProxyEventCommon_SetReceiveHandler_def SetReceiveHandler_def SubscribedState_SetReceiveHandler_def machine_subscribed_def
        manager_Register_def manager_Unregister_def EventReceiveHandlerManager_def service_RegisterEventNotification_def on_events_def
        GetMessagePassingServiceInstance_def x_def s_def event_def split_beta machine_registered_def)
  then have reach: "reachable_event little_endian x s"
    by (rule reachable_event.called [OF reachable_event.called [OF example_machine_reachable w]])
  have "registration_number (handler_manager x) = Some 0" "manager_asil_level (handler_manager x) = quality_type.kASIL_QM"
    "manager_element (handler_manager x) = example_event" "ProxyEventCommon_GetSubscriptionState x = Some kSubscribed"
    using manager by (simp_all add: x_def EventReceiveHandlerManager_def ProxyEventCommon_GetSubscriptionState_def
        machine_subscribed_def machine_registered_def)
  moreover have "GetMessagePassingServiceInstance quality_type.kASIL_QM s = Some ((qm_instance example_service)\<lparr>event_part := event\<rparr>)"
    by (simp add: s_def)
  moreover have "event_update_handlers event (element_key example_event) = Some [\<lparr>notification_handler = ''handler'', register_no = 0\<rparr>]"
    "event_update_remote_registrations event (element_key example_event) = Some \<lparr>counter_node_id = 7, node_counter = 1\<rparr>" "self_pid event = 5"
    by (simp_all add: event_def RegisterEventNotification_def Let_def example_service_def MessagePassingService_def
        MessagePassingServiceInstanceFactory_Create_def MessagePassingServiceInstance_def RegisterEventNotificationRemote_def
        SendRegisterEventNotificationMessage_def call_status_change_def)
  ultimately show ?thesis
    using unset_while_pending_is_lost [OF reach, where e = quiet and old_pid = 7 and w = "start new_memory" and pid = 9]
      reach by fastforce
qed

end
