(* ===== verification/Timed_Command_Queue.thy ===== *)
theory Timed_Command_Queue
  imports Lola_Prelude
begin

text \<open>
  \<^verbatim>\<open>message_passing/timed_command_queue.h/.cpp\<close>: the commands that the thread of a message
  passing engine executes, in the order of their times. An entry of the intrusive list is the
  time until which it waits, its owner (\<open>None\<close> is the null pointer) and its callback. Times
  count from the epoch of the steady clock, which is the time of an immediate entry.

  Callbacks run without the lock: a callback may change the queue and the state \<open>'s\<close> of whoever
  owns it. How it does is a parameter.
\<close>

type_synonym time_point = int

record 'c queue_entry =
  entry_until :: time_point
  entry_owner :: "nat option"
  entry_callback :: 'c

type_synonym ('c, 's) run_callback = "'c \<Rightarrow> time_point \<Rightarrow> 'c queue_entry list \<times> 's \<Rightarrow> 'c queue_entry list \<times> 's"

definition RegisterTimedEntry ::
  "time_point \<Rightarrow> 'c \<Rightarrow> nat option \<Rightarrow> 'c queue_entry list \<Rightarrow> 'c queue_entry list" where
  "RegisterTimedEntry until callback owner queue =
     takeWhile (\<lambda>x. \<not> until < entry_until x) queue @
     \<lparr>entry_until = until, entry_owner = owner, entry_callback = callback\<rparr> #
     dropWhile (\<lambda>x. \<not> until < entry_until x) queue"

definition RegisterImmediateEntry :: "'c \<Rightarrow> nat option \<Rightarrow> 'c queue_entry list \<Rightarrow> 'c queue_entry list" where
  "RegisterImmediateEntry callback owner queue = RegisterTimedEntry 0 callback owner queue"

text \<open>Callbacks that register due entries for ever keep the loop running: then it has no result.\<close>

partial_function (option) ProcessQueue ::
  "('c, 's) run_callback \<Rightarrow> time_point \<Rightarrow> 'c queue_entry list \<Rightarrow> 's \<Rightarrow> (time_point \<times> 'c queue_entry list \<times> 's) option" where
  "ProcessQueue run now queue s =
     (case queue of
        [] \<Rightarrow> Some (0, [], s)
      | x # rest \<Rightarrow>
          if entry_until x > now then Some (entry_until x, x # rest, s)
          else case run (entry_callback x) now (rest, s) of (queue, s) \<Rightarrow> ProcessQueue run now queue s)"

definition CleanUpOwner :: "nat option \<Rightarrow> 'c queue_entry list \<Rightarrow> 'c queue_entry list" where
  "CleanUpOwner owner queue = filter (\<lambda>x. entry_owner x \<noteq> owner) queue"

subsection \<open>The order of the queue\<close>

definition in_order :: "'c queue_entry list \<Rightarrow> bool" where
  "in_order queue \<longleftrightarrow> sorted (map entry_until queue)"

lemma takeWhile_in_order:
  "in_order queue \<Longrightarrow> takeWhile (\<lambda>x. \<not> t < entry_until x) queue = filter (\<lambda>x. entry_until x \<le> t) queue"
  by (induction queue) (auto simp: in_order_def not_less intro!: filter_False [symmetric])

lemma dropWhile_in_order:
  "in_order queue \<Longrightarrow> dropWhile (\<lambda>x. \<not> t < entry_until x) queue = filter (\<lambda>x. t < entry_until x) queue"
  by (induction queue) (auto simp: in_order_def not_less intro!: filter_True [symmetric])

lemma RegisterTimedEntry_filter:
  assumes "in_order queue"
  shows "RegisterTimedEntry t c owner queue =
    filter (\<lambda>x. entry_until x \<le> t) queue @ \<lparr>entry_until = t, entry_owner = owner, entry_callback = c\<rparr> #
    filter (\<lambda>x. t < entry_until x) queue"
  by (simp add: RegisterTimedEntry_def takeWhile_in_order [OF assms] dropWhile_in_order [OF assms])

lemma in_order_filter: "in_order queue \<Longrightarrow> in_order (filter P queue)"
  by (auto simp: in_order_def intro: sorted_filter)

lemma in_order_Register: "in_order queue \<Longrightarrow> in_order (RegisterTimedEntry t c owner queue)"
  using in_order_filter [of queue] by (auto simp: RegisterTimedEntry_filter in_order_def sorted_append)

lemma in_order_CleanUp: "in_order queue \<Longrightarrow> in_order (CleanUpOwner owner queue)"
  by (simp add: CleanUpOwner_def in_order_filter)

subsection \<open>Processing\<close>

text \<open>
  Callbacks that leave the due entries alone: they may register entries for later and remove
  entries that are not due, and change the state in a way that does not depend on the queue.
\<close>

definition well_behaved :: "('c, 's) run_callback \<Rightarrow> ('c \<Rightarrow> 's \<Rightarrow> 's) \<Rightarrow> time_point \<Rightarrow> bool" where
  "well_behaved run step now \<longleftrightarrow>
     (\<forall>c queue s. in_order queue \<longrightarrow>
        (\<exists>queue'. run c now (queue, s) = (queue', step c s) \<and> in_order queue' \<and>
           filter (\<lambda>x. entry_until x \<le> now) queue' = filter (\<lambda>x. entry_until x \<le> now) queue))"

lemma in_order_due:
  assumes "in_order (x # queue)" "now < entry_until x"
  shows "filter (\<lambda>y. entry_until y \<le> now) (x # queue) = []"
  using assms by (auto simp: in_order_def filter_empty_conv)

lemma ProcessQueue_runs_due:
  assumes "well_behaved run step now" "in_order queue"
  shows "\<exists>next rest. ProcessQueue run now queue s =
      Some (next, rest, fold step (map entry_callback (filter (\<lambda>x. entry_until x \<le> now) queue)) s) \<and>
    in_order rest \<and> (\<forall>x \<in> set rest. now < entry_until x) \<and> next = (case rest of [] \<Rightarrow> 0 | x # _ \<Rightarrow> entry_until x)"
  using assms(2)
proof (induction "length (filter (\<lambda>x. entry_until x \<le> now) queue)" arbitrary: queue s)
  case 0
  then have late: "\<forall>x \<in> set queue. now < entry_until x" by (auto simp: filter_empty_conv not_le)
  then show ?case
  proof (cases queue)
    case Nil
    then show ?thesis by (simp add: ProcessQueue.simps [of run now "[]"] in_order_def)
  next
    case (Cons x rest)
    then show ?thesis
      using 0 late by (intro exI [of _ "entry_until x"] exI [of _ "x # rest"]) (simp add: ProcessQueue.simps [of run now "x # rest"])
  qed
next
  case (Suc n)
  from Suc.hyps(2) obtain x rest where queue: "queue = x # rest" by (cases queue) auto
  have x: "entry_until x \<le> now"
  proof (rule ccontr)
    assume "\<not> entry_until x \<le> now"
    then show False using Suc.hyps(2) in_order_due [of x rest now] Suc.prems unfolding queue by simp
  qed
  have rest: "in_order rest" using Suc.prems queue by (simp add: in_order_def)
  with assms(1) obtain queue' where run: "run (entry_callback x) now (rest, s) = (queue', step (entry_callback x) s)"
    and queue': "in_order queue'" "filter (\<lambda>x. entry_until x \<le> now) queue' = filter (\<lambda>x. entry_until x \<le> now) rest"
    unfolding well_behaved_def by blast
  have n: "n = length (filter (\<lambda>x. entry_until x \<le> now) queue')" using Suc.hyps(2) queue x queue'(2) by simp
  have loop: "ProcessQueue run now queue s = ProcessQueue run now queue' (step (entry_callback x) s)"
    using x by (simp add: queue ProcessQueue.simps [of run now "x # rest"] run)
  have due: "fold step (map entry_callback (filter (\<lambda>x. entry_until x \<le> now) queue)) s =
      fold step (map entry_callback (filter (\<lambda>x. entry_until x \<le> now) queue')) (step (entry_callback x) s)"
    unfolding queue queue'(2) using x by simp
  show ?case unfolding loop due by (rule Suc.hyps(1) [OF n queue'(1)])
qed

subsection \<open>Properties\<close>

inductive queue_reachable :: "'c queue_entry list \<Rightarrow> bool" where
  empty: "queue_reachable []"
| timed: "queue_reachable queue \<Longrightarrow> queue_reachable (RegisterTimedEntry until c owner queue)"
| immediate: "queue_reachable queue \<Longrightarrow> queue_reachable (RegisterImmediateEntry c owner queue)"
| cleaned: "queue_reachable queue \<Longrightarrow> queue_reachable (CleanUpOwner owner queue)"

lemma queue_reachable_in_order: "queue_reachable queue \<Longrightarrow> in_order queue"
  by (induction rule: queue_reachable.induct)
    (simp_all add: in_order_Register in_order_CleanUp RegisterImmediateEntry_def, simp add: in_order_def)

text \<open>The entry that is registered comes after all entries of its time and before all later ones.\<close>

lemma RegisterTimedEntry_position:
  assumes "queue_reachable queue"
  shows "\<exists>before after. queue = before @ after \<and>
    RegisterTimedEntry t c owner queue = before @ \<lparr>entry_until = t, entry_owner = owner, entry_callback = c\<rparr> # after \<and>
    (\<forall>x \<in> set before. entry_until x \<le> t) \<and> (\<forall>x \<in> set after. t < entry_until x)"
proof -
  note ordered = queue_reachable_in_order [OF assms]
  show ?thesis
  proof (intro exI conjI)
    show "queue = filter (\<lambda>x. entry_until x \<le> t) queue @ filter (\<lambda>x. t < entry_until x) queue"
      using takeWhile_in_order [OF ordered, of t] dropWhile_in_order [OF ordered, of t] by (metis takeWhile_dropWhile_id)
  qed (simp_all add: RegisterTimedEntry_filter [OF ordered])
qed

text \<open>
  C32. Whatever entries were registered and whichever owners were cleaned up, an entry is registered after
  all entries of its time and before all later ones. Processing the queue up to a time returns if no
  callback registers an entry that is already due or removes one that is, and what callbacks do does not
  depend on the queue: it runs the callbacks of exactly the entries that are due, each once and in the order
  of the queue, leaves only later entries, and returns the time of the first of them.
\<close>

theorem due_commands_run_in_order:
  assumes "queue_reachable queue" "well_behaved run step now"
  shows "(\<exists>before after. queue = before @ after \<and>
      RegisterTimedEntry t c owner queue = before @ \<lparr>entry_until = t, entry_owner = owner, entry_callback = c\<rparr> # after \<and>
      (\<forall>x \<in> set before. entry_until x \<le> t) \<and> (\<forall>x \<in> set after. t < entry_until x)) \<and>
    (\<exists>rest. ProcessQueue run now queue s =
      Some (case rest of [] \<Rightarrow> 0 | x # _ \<Rightarrow> entry_until x, rest,
        fold step (map entry_callback (filter (\<lambda>x. entry_until x \<le> now) queue)) s) \<and>
      (\<forall>x \<in> set rest. now < entry_until x))"
  using RegisterTimedEntry_position [OF assms(1), of t c owner]
    ProcessQueue_runs_due [OF assms(2) queue_reachable_in_order [OF assms(1)], of s] by blast

text \<open>A callback that notes that it ran and is registered again for one unit later.\<close>

definition periodic :: "(string, string list) run_callback" where
  "periodic c now = (\<lambda>(queue, s). (RegisterTimedEntry (now + 1) c None queue, s @ [c]))"

lemma Register_later_due:
  assumes "in_order queue" "now < t"
  shows "filter (\<lambda>x. entry_until x \<le> now) (RegisterTimedEntry t c owner queue) = filter (\<lambda>x. entry_until x \<le> now) queue"
proof -
  have "filter (\<lambda>x. entry_until x \<le> now) (filter (\<lambda>x. t < entry_until x) queue) = []"
    using assms(2) by (simp add: filter_empty_conv)
  moreover have "filter (\<lambda>x. entry_until x \<le> now) (filter (\<lambda>x. entry_until x \<le> t) queue) = filter (\<lambda>x. entry_until x \<le> now) queue"
    unfolding filter_filter using assms(2) by (intro filter_cong) auto
  ultimately show ?thesis using assms(2) by (simp only: RegisterTimedEntry_filter [OF assms(1)] filter_append filter.simps) simp
qed

lemma well_behaved_periodic: "well_behaved periodic (\<lambda>c s. s @ [c]) now"
  unfolding well_behaved_def periodic_def prod.case
  by (intro allI impI exI conjI, rule refl) (simp_all add: in_order_Register Register_later_due)

theorem due_commands_run_in_order_witness:
  "\<exists>rest. ProcessQueue periodic 5 (RegisterTimedEntry 7 ''late'' None (RegisterTimedEntry 3 ''timed'' None
      (RegisterImmediateEntry ''now'' None []))) [] =
    Some (case rest of [] \<Rightarrow> 0 | x # _ \<Rightarrow> entry_until x, rest, [''now'', ''timed'']) \<and> list_all (\<lambda>x. 5 < entry_until x) rest"
proof -
  let ?queue = "RegisterTimedEntry 7 ''late'' None (RegisterTimedEntry 3 ''timed'' None (RegisterImmediateEntry ''now'' None []))"
  have "queue_reachable ?queue" by (intro queue_reachable.intros)
  from due_commands_run_in_order [OF this well_behaved_periodic, of 0 "''now''" None 5 "[]"] obtain rest where
    rest: "ProcessQueue periodic 5 ?queue [] = Some (case rest of [] \<Rightarrow> 0 | x # _ \<Rightarrow> entry_until x, rest,
      fold (\<lambda>c s. s @ [c]) (map entry_callback (filter (\<lambda>x. entry_until x \<le> 5) ?queue)) [])"
    "\<forall>x \<in> set rest. 5 < entry_until x" by blast
  have "fold (\<lambda>c s. s @ [c]) (map entry_callback (filter (\<lambda>x. entry_until x \<le> 5) ?queue)) [] = [''now'', ''timed'']"
    by (simp add: RegisterTimedEntry_def RegisterImmediateEntry_def)
  with rest show ?thesis by (intro exI [of _ rest]) (simp only: list_all_iff)
qed

end
