(* ===== verification/Client_Connection.thy ===== *)
theory Client_Connection
  imports Timed_Command_Queue "HOL-Library.Multiset"
begin

text \<open>
  \<^verbatim>\<open>message_passing/client_connection.h/.cpp\<close> with the enumerations and the configuration of
  \<^verbatim>\<open>i_client_connection.h\<close>, \<^verbatim>\<open>i_client_factory.h\<close> and
  \<^verbatim>\<open>client_server_communication.h\<close>: one connection of a client to a server.

  The platform is a parameter: what opening a connection and sending a message report, what
  time it is, and what callbacks and other threads do to the connection while a callback runs,
  while a connection is being opened, and while a call has released the lock of the send queue.
  Each answer may depend on how much happened to the connection before, which the events record.
  Calls of callbacks are events as well. The commands that the connection gives to the thread of
  the engine are entries of its queue. Assertions end the process, those of debug builds
  included, and so does calling an empty callback.
\<close>

datatype connection_state = kStarting | kReady | kStopping | kStopped

datatype stop_reason = kNone | kInit | kUserRequested | kPermission | kClosedByPeer | kIoError | kShutdown

datatype os_error = EAGAIN | ECONNREFUSED | ENOENT | EACCES | EPIPE | EMSGSIZE | EINVAL | ENOBUFS | Other_Errno int

datatype client_to_server = SEND | REQUEST

datatype server_to_client = REPLY | NOTIFY

definition client_to_server_code :: "client_to_server \<Rightarrow> u8" where
  "client_to_server_code c = (case c of SEND \<Rightarrow> 0 | REQUEST \<Rightarrow> 1)"

definition server_to_client_code :: "server_to_client \<Rightarrow> u8" where
  "server_to_client_code c = (case c of REPLY \<Rightarrow> 0 | NOTIFY \<Rightarrow> 1)"

record client_config =
  max_async_replies :: u32
  max_queued_sends :: u32
  fully_ordered :: bool
  truly_async :: bool
  sync_first_connect :: bool

text \<open>The lambdas that are enqueued at the engine.\<close>

datatype engine_command = Connect_Command | Register_Endpoint_Command | Stop_Command | Send_Queue_Command

datatype 'c connection_event =
    Open_Attempted
  | Protocol_Sent client_to_server "u8 list"
  | Reply_Called 'c "os_error + u8 list"
  | Notify_Called "u8 list"
  | State_Called connection_state
  | Endpoint_Registered
  | Endpoint_Unregistered
  | Connection_Closed int

text \<open>
  An empty callback is \<open>None\<close>. The storage holds the commands; the pool and the queue are
  intrusive lists of them, here of their positions.
\<close>

record 'c send_command =
  command_message :: "u8 list"
  command_callback :: "'c option"

record 'c client_connection =
  max_send_size :: u32
  connection_config :: client_config
  client_fd :: int
  connection_state :: connection_state
  connection_stop_reason :: stop_reason
  has_state_callback :: bool
  has_notify_callback :: bool
  connect_retry_ms :: int
  send_storage :: "'c send_command list"
  send_pool :: "nat list"
  send_queue :: "nat list"
  waiting_for_reply :: "'c option option"
  endpoint_registered :: bool
  endpoint_disconnect :: bool
  engine_queue :: "engine_command queue_entry list"
  connection_events :: "'c connection_event list"

record 'c platform =
  open_result :: "nat \<Rightarrow> os_error + int"
  send_result :: "nat \<Rightarrow> os_error option"
  current_time :: "nat \<Rightarrow> time_point"
  other_threads :: "nat \<Rightarrow> 'c client_connection \<Rightarrow> 'c client_connection"

abbreviation moment :: "'c client_connection \<Rightarrow> nat" where
  "moment x \<equiv> length (connection_events x)"

definition happens :: "'c connection_event \<Rightarrow> 'c client_connection \<Rightarrow> 'c client_connection" where
  "happens event x = x\<lparr>connection_events := connection_events x @ [event]\<rparr>"

definition unlocked :: "'c platform \<Rightarrow> 'c client_connection \<Rightarrow> 'c client_connection" where
  "unlocked p x = other_threads p (moment x) x"

definition calls :: "'c platform \<Rightarrow> 'c connection_event \<Rightarrow> 'c client_connection \<Rightarrow> 'c client_connection" where
  "calls p event x = unlocked p (happens event x)"

definition SendProtocolMessage ::
  "'c platform \<Rightarrow> client_to_server \<Rightarrow> u8 list \<Rightarrow> 'c client_connection \<Rightarrow> os_error option \<times> 'c client_connection" where
  "SendProtocolMessage p code message x = (send_result p (moment x), happens (Protocol_Sent code message) x)"

text \<open>The owner of the commands of this connection, the address of the object.\<close>

definition this_owner :: "nat option" where
  "this_owner = Some 1"

definition EnqueueCommand :: "time_point \<Rightarrow> engine_command \<Rightarrow> 'c client_connection \<Rightarrow> 'c client_connection" where
  "EnqueueCommand until command x = x\<lparr>engine_queue := RegisterTimedEntry until command this_owner (engine_queue x)\<rparr>"

definition kConnectRetryMsStart :: int where
  "kConnectRetryMsStart = 50"

definition kConnectRetryT :: int where
  "kConnectRetryT = 3"

definition kConnectRetryMsMax :: int where
  "kConnectRetryMsMax = 5000"

definition ClientConnection :: "u32 \<Rightarrow> client_config \<Rightarrow> 'c client_connection" where
  "ClientConnection max_size config =
     (let n = unat (max_queued_sends config) + unat (max_async_replies config)
      in \<lparr>max_send_size = max_size, connection_config = config, client_fd = - 1, connection_state = kStopped,
          connection_stop_reason = kInit, has_state_callback = False, has_notify_callback = False,
          connect_retry_ms = kConnectRetryMsStart,
          send_storage = replicate n \<lparr>command_message = [], command_callback = None\<rparr>, send_pool = [0..<n], send_queue = [],
          waiting_for_reply = None, endpoint_registered = False, endpoint_disconnect = False,
          engine_queue = [], connection_events = []\<rparr>)"

subsection \<open>States\<close>

definition TrySetStopReason :: "stop_reason \<Rightarrow> 'c client_connection \<Rightarrow> bool \<times> 'c client_connection" where
  "TrySetStopReason reason x =
     (if connection_stop_reason x \<noteq> kNone then (False, x) else (True, x\<lparr>connection_stop_reason := reason\<rparr>))"

definition ProcessStateChangeToStopped :: "'c platform \<Rightarrow> 'c client_connection \<Rightarrow> 'c client_connection" where
  "ProcessStateChangeToStopped p x =
     (if \<not> has_state_callback x then x\<lparr>connection_state := kStopped\<rparr>
      else calls p (State_Called kStopped) (x\<lparr>connection_state := kStopped\<rparr>))"

definition ProcessStateChange :: "'c platform \<Rightarrow> connection_state \<Rightarrow> 'c client_connection \<Rightarrow> 'c client_connection" where
  "ProcessStateChange p state x =
     (if state \<noteq> kStopped then
        if has_state_callback x then calls p (State_Called state) (x\<lparr>connection_state := state\<rparr>)
        else x\<lparr>connection_state := state\<rparr>
      else ProcessStateChangeToStopped p x)"

definition GetState :: "'c client_connection \<Rightarrow> connection_state" where
  "GetState x = connection_state x"

definition GetStopReason :: "'c client_connection \<Rightarrow> stop_reason" where
  "GetStopReason x = connection_stop_reason x"

text \<open>A callback that is not empty learns that the connection is broken.\<close>

definition call_broken :: "'c platform \<Rightarrow> 'c option \<Rightarrow> 'c client_connection \<Rightarrow> 'c client_connection" where
  "call_broken p callback x = (case callback of None \<Rightarrow> x | Some c \<Rightarrow> calls p (Reply_Called c (Inl EPIPE)) x)"

text \<open>The loop over the queued commands at the end of a connection.\<close>

partial_function (option) drop_queue :: "'c platform \<Rightarrow> 'c client_connection \<Rightarrow> 'c client_connection option" where
  "drop_queue p x =
     (case send_queue x of
        [] \<Rightarrow> Some x
      | i # queue \<Rightarrow>
          drop_queue p (call_broken p (command_callback (send_storage x ! i))
            (x\<lparr>send_storage := (send_storage x)[i := (send_storage x ! i)\<lparr>command_callback := None\<rparr>],
               send_queue := queue\<rparr>)))"

text \<open>
  The engine's clean-up on its own thread, for this owner: its endpoint goes first (with the
  disconnect callback reset, nothing is called), then its commands.
\<close>

definition ProcessCleanup :: "'c client_connection \<Rightarrow> 'c client_connection" where
  "ProcessCleanup x =
     (let x = (if endpoint_registered x then happens Endpoint_Unregistered (x\<lparr>endpoint_registered := False\<rparr>) else x)
      in x\<lparr>engine_queue := CleanUpOwner this_owner (engine_queue x)\<rparr>)"

text \<open>The steps of \<^verbatim>\<open>SwitchToStopState\<close> up to the loop.\<close>

definition release_connection :: "'c platform \<Rightarrow> 'c client_connection \<Rightarrow> 'c client_connection" where
  "release_connection p x =
     (let x = ProcessCleanup (x\<lparr>endpoint_disconnect := False\<rparr>);
          x = (if client_fd x \<noteq> - 1 then (happens (Connection_Closed (client_fd x)) x)\<lparr>client_fd := - 1\<rparr> else x)
      in case waiting_for_reply x of
           None \<Rightarrow> x
         | Some callback \<Rightarrow> call_broken p callback (x\<lparr>waiting_for_reply := None\<rparr>))"

definition SwitchToStopState :: "'c platform \<Rightarrow> bool \<Rightarrow> 'c client_connection \<Rightarrow> 'c client_connection option" where
  "SwitchToStopState p in_callback x = do {
     assert_prd (connection_state x = kStopping);
     assert_prd (connection_stop_reason x \<noteq> kNone);
     assert_prd in_callback;
     x \<leftarrow> drop_queue p (release_connection p x);
     Some (ProcessStateChange p kStopped x)
   }"

definition Stop :: "'c platform \<Rightarrow> bool \<Rightarrow> 'c client_connection \<Rightarrow> 'c client_connection option" where
  "Stop p in_callback x =
     (case TrySetStopReason kUserRequested x of
        (False, x) \<Rightarrow> Some x
      | (True, x) \<Rightarrow>
          let x = ProcessStateChange p kStopping x
          in if in_callback then SwitchToStopState p in_callback x else Some (EnqueueCommand 0 Stop_Command x))"

subsection \<open>Connecting\<close>

text \<open>The sum stays in the range of 32 bits by the guard, the increase is computed in 64 bits.\<close>

definition next_retry :: "int \<Rightarrow> int" where
  "next_retry ms =
     (let increase = (ms + kConnectRetryT - 1) div kConnectRetryT
      in if increase \<le> kConnectRetryMsMax \<and> ms \<le> kConnectRetryMsMax - increase then ms + increase else ms)"

text \<open>The clock counts nanoseconds, delays are in milliseconds.\<close>

definition FromNow :: "'c platform \<Rightarrow> int \<Rightarrow> 'c client_connection \<Rightarrow> time_point" where
  "FromNow p ms x = current_time p (moment x) + ms * 1000000"

definition TryConnect :: "'c platform \<Rightarrow> bool \<Rightarrow> 'c client_connection \<Rightarrow> 'c client_connection option" where
  "TryConnect p in_callback x = do {
     assert_prd (connection_stop_reason x = kNone \<and> connection_state x = kStarting \<or>
                 connection_state x = kStopping \<and> connection_stop_reason x = kUserRequested);
     let fd_expected = open_result p (moment x);
     let x = calls p Open_Attempted x;
     case fd_expected of
       Inl os_code \<Rightarrow>
         if os_code \<noteq> EAGAIN \<and> os_code \<noteq> ECONNREFUSED \<and> os_code \<noteq> ENOENT then
           case TrySetStopReason (if os_code = EACCES then kPermission else kIoError) x of
             (False, x) \<Rightarrow> Some x
           | (True, x) \<Rightarrow> SwitchToStopState p in_callback (ProcessStateChange p kStopping x)
         else
           let retry_delay = connect_retry_ms x;
               x = x\<lparr>connect_retry_ms := next_retry retry_delay\<rparr>
           in Some (EnqueueCommand (FromNow p retry_delay x) Connect_Command x)
     | Inr fd \<Rightarrow>
         let x = x\<lparr>client_fd := fd, endpoint_disconnect := True\<rparr>;
             x = (if in_callback then happens Endpoint_Registered (x\<lparr>endpoint_registered := True\<rparr>)
                  else EnqueueCommand 0 Register_Endpoint_Command x)
         in Some (ProcessStateChange p kReady x)
   }"

definition DoRestart :: "'c platform \<Rightarrow> bool \<Rightarrow> 'c client_connection \<Rightarrow> 'c client_connection option" where
  "DoRestart p in_callback x =
     (let x = ProcessStateChange p kStarting (x\<lparr>connection_stop_reason := kNone\<rparr>);
          x = x\<lparr>connect_retry_ms := kConnectRetryMsStart\<rparr>
      in if sync_first_connect (connection_config x) then TryConnect p in_callback x
         else Some (EnqueueCommand 0 Connect_Command x))"

definition Start :: "'c platform \<Rightarrow> bool \<Rightarrow> bool \<Rightarrow> bool \<Rightarrow> 'c client_connection \<Rightarrow> 'c client_connection option" where
  "Start p in_callback state_callback notify_callback x =
     DoRestart p in_callback (x\<lparr>has_state_callback := state_callback, has_notify_callback := notify_callback\<rparr>)"

definition Restart :: "'c platform \<Rightarrow> bool \<Rightarrow> 'c client_connection \<Rightarrow> 'c client_connection option" where
  "Restart p in_callback x = (if connection_state x \<noteq> kStopped then Some x else DoRestart p in_callback x)"

subsection \<open>Sending\<close>

definition TryQueueMessage :: "u8 list \<Rightarrow> 'c option \<Rightarrow> 'c client_connection \<Rightarrow> bool \<times> 'c client_connection" where
  "TryQueueMessage message callback x =
     (case send_pool x of
        [] \<Rightarrow> (False, x)
      | i # pool \<Rightarrow>
          (True, x\<lparr>send_pool := pool,
                   send_storage := (send_storage x)[i := \<lparr>command_message = message, command_callback = callback\<rparr>],
                   send_queue := send_queue x @ [i]\<rparr>))"

definition ArmSendQueueUnderLock :: "'c client_connection \<Rightarrow> 'c client_connection option" where
  "ArmSendQueueUnderLock x = do {
     assert_prd (waiting_for_reply x = None);
     Some (EnqueueCommand 0 Send_Queue_Command (x\<lparr>waiting_for_reply := Some None\<rparr>))
   }"

type_synonym 'c sent = "((os_error + unit) \<times> 'c client_connection) option"

definition reported :: "os_error option \<times> 'c client_connection \<Rightarrow> 'c sent" where
  "reported r = (case r of (None, x) \<Rightarrow> Some (Inr (), x) | (Some e, x) \<Rightarrow> Some (Inl e, x))"

definition Send :: "'c platform \<Rightarrow> u8 list \<Rightarrow> 'c client_connection \<Rightarrow> 'c sent" where
  "Send p message x =
     (if length message > unat (max_send_size x) then Some (Inl EMSGSIZE, x)
      else if connection_state x \<noteq> kReady then Some (Inl EINVAL, x)
      else if \<not> fully_ordered (connection_config x) \<and> \<not> truly_async (connection_config x) then
        reported (SendProtocolMessage p SEND message x)
      else if waiting_for_reply x = None then
        if truly_async (connection_config x) then
          case TryQueueMessage message None x of
            (False, x) \<Rightarrow> Some (Inl ENOBUFS, x)
          | (True, x) \<Rightarrow> do { x \<leftarrow> ArmSendQueueUnderLock x; Some (Inr (), x) }
        else reported (SendProtocolMessage p SEND message x)
      else
        case TryQueueMessage message None x of
          (False, x) \<Rightarrow> Some (Inl ENOBUFS, x)
        | (True, x) \<Rightarrow> Some (Inr (), x))"

definition SendWithCallback :: "'c platform \<Rightarrow> u8 list \<Rightarrow> 'c option \<Rightarrow> 'c client_connection \<Rightarrow> 'c sent" where
  "SendWithCallback p message callback x =
     (if length message > unat (max_send_size x) then Some (Inl EMSGSIZE, x)
      else if connection_state x \<noteq> kReady then Some (Inl EINVAL, x)
      else if waiting_for_reply x \<noteq> None then
        case TryQueueMessage message callback x of
          (False, x) \<Rightarrow> Some (Inl ENOBUFS, x)
        | (True, x) \<Rightarrow> Some (Inr (), x)
      else if truly_async (connection_config x) then
        case TryQueueMessage message callback x of
          (False, x) \<Rightarrow> Some (Inl ENOBUFS, x)
        | (True, x) \<Rightarrow> do { x \<leftarrow> ArmSendQueueUnderLock x; Some (Inr (), x) }
      else
        case SendProtocolMessage p REQUEST message x of
          (Some e, x) \<Rightarrow> Some (Inl e, x)
        | (None, x) \<Rightarrow> Some (Inr (), x\<lparr>waiting_for_reply := Some callback\<rparr>))"

text \<open>
  A blocking call has two halves. The first one ends with the caller waiting (\<open>Inr ()\<close>) or with
  an error; the second is what the callback makes of the reply for a buffer of the given size.
\<close>

definition SendWaitReply :: "'c platform \<Rightarrow> bool \<Rightarrow> u8 list \<Rightarrow> 'c \<Rightarrow> 'c client_connection \<Rightarrow> 'c sent" where
  "SendWaitReply p in_callback message callback x =
     (if in_callback then Some (Inl EAGAIN, x)
      else if length message > unat (max_send_size x) then Some (Inl EMSGSIZE, x)
      else if connection_state x \<noteq> kReady then Some (Inl EINVAL, x)
      else if waiting_for_reply x \<noteq> None then
        case TryQueueMessage message (Some callback) x of
          (False, x) \<Rightarrow> Some (Inl ENOBUFS, x)
        | (True, x) \<Rightarrow> Some (Inr (), x)
      else
        case SendProtocolMessage p REQUEST message (unlocked p (x\<lparr>waiting_for_reply := Some (Some callback)\<rparr>)) of
          (expected, x) \<Rightarrow>
            let x = unlocked p x
            in case expected of
                 None \<Rightarrow> Some (Inr (), x)
               | Some e \<Rightarrow>
                   if send_queue x = [] then Some (Inl e, x\<lparr>waiting_for_reply := None\<rparr>)
                   else do { x \<leftarrow> ArmSendQueueUnderLock x; Some (Inl e, x) })"

definition reply_to_waiter :: "nat \<Rightarrow> os_error + u8 list \<Rightarrow> os_error + u8 list" where
  "reply_to_waiter reply_size message_expected =
     (case message_expected of
        Inl e \<Rightarrow> Inl e
      | Inr reply_message \<Rightarrow> if length reply_message > reply_size then Inl EMSGSIZE else Inr reply_message)"

definition call_reply :: "'c platform \<Rightarrow> 'c option \<Rightarrow> os_error + u8 list \<Rightarrow> 'c client_connection \<Rightarrow> 'c client_connection option" where
  "call_reply p callback r x = (case callback of None \<Rightarrow> None | Some c \<Rightarrow> Some (calls p (Reply_Called c r) x))"

text \<open>
  The message is read from the command when it is sent, after the command went back to the pool
  and the lock was released. A value that was moved from is an empty callback.
\<close>

partial_function (option) ProcessSendQueueUnderLock :: "'c platform \<Rightarrow> 'c client_connection \<Rightarrow> 'c client_connection option" where
  "ProcessSendQueueUnderLock p x =
     (case send_queue x of
        [] \<Rightarrow> Some x
      | i # queue \<Rightarrow>
          let x = x\<lparr>send_queue := queue, send_pool := i # send_pool x\<rparr>
          in case command_callback (send_storage x ! i) of
               Some c \<Rightarrow>
                 let x = unlocked p (x\<lparr>waiting_for_reply := Some (Some c),
                           send_storage := (send_storage x)[i := (send_storage x ! i)\<lparr>command_callback := None\<rparr>]\<rparr>)
                 in (case SendProtocolMessage p REQUEST (command_message (send_storage x ! i)) x of
                      (expected, x) \<Rightarrow>
                        let x = unlocked p x
                        in case expected of
                             None \<Rightarrow> Some x
                           | Some e \<Rightarrow> do {
                               callback \<leftarrow> waiting_for_reply x;
                               x \<leftarrow> call_reply p callback (Inl e) (x\<lparr>waiting_for_reply := Some None\<rparr>);
                               ProcessSendQueueUnderLock p (x\<lparr>waiting_for_reply := None\<rparr>)
                             })
             | None \<Rightarrow>
                 let x = unlocked p (x\<lparr>waiting_for_reply := Some None\<rparr>)
                 in (case SendProtocolMessage p SEND (command_message (send_storage x ! i)) x of
                      (_, x) \<Rightarrow> ProcessSendQueueUnderLock p ((unlocked p x)\<lparr>waiting_for_reply := None\<rparr>)))"

subsection \<open>Input\<close>

definition ProcessInputEvent ::
  "'c platform \<Rightarrow> os_error + u8 \<times> u8 list \<Rightarrow> 'c client_connection \<Rightarrow> (stop_reason \<times> 'c client_connection) option" where
  "ProcessInputEvent p received x =
     (case received of
        Inl os_code \<Rightarrow>
          if os_code = EAGAIN then Some (kNone, x)
          else Some (if os_code = EPIPE then kClosedByPeer else kIoError, x)
      | Inr (code, message) \<Rightarrow>
          if code = server_to_client_code REPLY then
            case waiting_for_reply x of
              None \<Rightarrow> Some (kIoError, x)
            | Some callback \<Rightarrow> do {
                x \<leftarrow> ProcessSendQueueUnderLock p (x\<lparr>waiting_for_reply := None\<rparr>);
                x \<leftarrow> call_reply p callback (Inr message) x;
                Some (kNone, x)
              }
          else if code = server_to_client_code NOTIFY then
            Some (kNone, if has_notify_callback x then calls p (Notify_Called message) x else x)
          else Some (kIoError, x))"

text \<open>The callbacks of the endpoint. Unregistering calls \<open>disconnect\<close>, on the thread of the engine.\<close>

definition UnregisterPosixEndpoint :: "'c platform \<Rightarrow> 'c client_connection \<Rightarrow> 'c client_connection option" where
  "UnregisterPosixEndpoint p x =
     (if endpoint_registered x then
        let x = happens Endpoint_Unregistered (x\<lparr>endpoint_registered := False\<rparr>)
        in if endpoint_disconnect x then SwitchToStopState p True x else Some x
      else Some x)"

definition endpoint_input :: "'c platform \<Rightarrow> os_error + u8 \<times> u8 list \<Rightarrow> 'c client_connection \<Rightarrow> 'c client_connection option" where
  "endpoint_input p received x = do {
     (stop_reason, x) \<leftarrow> ProcessInputEvent p received x;
     if stop_reason = kNone then Some x
     else case TrySetStopReason stop_reason x of
            (False, x) \<Rightarrow> Some x
          | (True, x) \<Rightarrow> UnregisterPosixEndpoint p (ProcessStateChange p kStopping x)
   }"

definition endpoint_ping :: "'c platform \<Rightarrow> 'c client_connection \<Rightarrow> 'c client_connection" where
  "endpoint_ping p x = (if has_notify_callback x then calls p (Notify_Called []) x else x)"

text \<open>The lambdas that the connection has enqueued, run by the thread of the engine.\<close>

definition run_command :: "'c platform \<Rightarrow> engine_command \<Rightarrow> 'c client_connection \<Rightarrow> 'c client_connection option" where
  "run_command p command x =
     (case command of
        Connect_Command \<Rightarrow> TryConnect p True x
      | Register_Endpoint_Command \<Rightarrow> Some (happens Endpoint_Registered (x\<lparr>endpoint_registered := True\<rparr>))
      | Stop_Command \<Rightarrow> SwitchToStopState p True x
      | Send_Queue_Command \<Rightarrow> ProcessSendQueueUnderLock p x)"

declare drop_queue.simps [code] and ProcessSendQueueUnderLock.simps [code]

end
