(* ===== verification/Client_Protocol.thy ===== *)
theory Client_Protocol
  imports Client_Connection
begin

text \<open>
  What a client connection guarantees: its commands never get lost between the pool and the
  queue while it runs, messages leave in the order in which they were accepted, and every accepted
  request is answered exactly once. The last part shows where other threads or a stop break
  these guarantees.
\<close>

subsection \<open>Operations\<close>

text \<open>
  The calls of a user and the events of the engine. The engine's queue holds the entries of
  this connection. Each operation reports the callbacks it has accepted.
\<close>

datatype 'c operation =
    Start_Op bool bool bool
  | Restart_Op bool
  | Stop_Op bool
  | Send_Op "u8 list"
  | SendWithCallback_Op "u8 list" "'c option"
  | SendWaitReply_Op bool "u8 list" 'c
  | Input_Op "os_error + u8 \<times> u8 list"
  | Ping_Op
  | Command_Op

definition accepting :: "'c option \<Rightarrow> 'c sent \<Rightarrow> ('c multiset \<times> 'c client_connection) option" where
  "accepting callback r =
     (case r of
        None \<Rightarrow> None
      | Some (Inl _, x) \<Rightarrow> Some ({#}, x)
      | Some (Inr _, x) \<Rightarrow> Some (case callback of None \<Rightarrow> {#} | Some c \<Rightarrow> {#c#}, x))"

definition perform :: "'c platform \<Rightarrow> 'c operation \<Rightarrow> 'c client_connection \<Rightarrow> ('c multiset \<times> 'c client_connection) option" where
  "perform p op x =
     (case op of
        Start_Op in_callback state notify \<Rightarrow> map_option (Pair {#}) (Start p in_callback state notify x)
      | Restart_Op in_callback \<Rightarrow> map_option (Pair {#}) (Restart p in_callback x)
      | Stop_Op in_callback \<Rightarrow> map_option (Pair {#}) (Stop p in_callback x)
      | Send_Op message \<Rightarrow> accepting None (Send p message x)
      | SendWithCallback_Op message callback \<Rightarrow> accepting callback (SendWithCallback p message callback x)
      | SendWaitReply_Op in_callback message c \<Rightarrow> accepting (Some c) (SendWaitReply p in_callback message c x)
      | Input_Op received \<Rightarrow> map_option (Pair {#}) (endpoint_input p received x)
      | Ping_Op \<Rightarrow> Some ({#}, endpoint_ping p x)
      | Command_Op \<Rightarrow>
          (case engine_queue x of
             [] \<Rightarrow> Some ({#}, x)
           | e # rest \<Rightarrow> map_option (Pair {#}) (run_command p (entry_callback e) (x\<lparr>engine_queue := rest\<rparr>))))"

subsection \<open>Commands between the pool and the queue\<close>

definition commands_ok :: "'c client_connection \<Rightarrow> bool" where
  "commands_ok x \<longleftrightarrow>
     distinct (send_pool x @ send_queue x) \<and> (\<forall>i \<in> set (send_pool x @ send_queue x). i < length (send_storage x))"

text \<open>Callbacks and other threads keep the property: they use the connection's own operations.\<close>

definition careful :: "'c platform \<Rightarrow> bool" where
  "careful p \<longleftrightarrow> (\<forall>n x. commands_ok x \<longrightarrow> commands_ok (other_threads p n x))"

lemma commands_ok_unlocked: "careful p \<Longrightarrow> commands_ok x \<Longrightarrow> commands_ok (unlocked p x)"
  by (simp add: careful_def unlocked_def)

lemma commands_ok_happens [simp]: "commands_ok (happens e x) = commands_ok x"
  by (simp add: commands_ok_def happens_def)

lemma commands_ok_updates [simp]:
  "commands_ok (x\<lparr>connection_state := v1\<rparr>) = commands_ok x"
  "commands_ok (x\<lparr>connection_stop_reason := v2\<rparr>) = commands_ok x"
  "commands_ok (x\<lparr>client_fd := v3\<rparr>) = commands_ok x"
  "commands_ok (x\<lparr>waiting_for_reply := v4\<rparr>) = commands_ok x"
  "commands_ok (x\<lparr>endpoint_registered := v5\<rparr>) = commands_ok x"
  "commands_ok (x\<lparr>endpoint_disconnect := v6\<rparr>) = commands_ok x"
  "commands_ok (x\<lparr>engine_queue := v7\<rparr>) = commands_ok x"
  "commands_ok (x\<lparr>connect_retry_ms := v8\<rparr>) = commands_ok x"
  "commands_ok (x\<lparr>has_state_callback := v9\<rparr>) = commands_ok x"
  "commands_ok (x\<lparr>has_notify_callback := v10\<rparr>) = commands_ok x"
  "commands_ok (x\<lparr>connection_events := v11\<rparr>) = commands_ok x"
  by (simp_all add: commands_ok_def)

lemma commands_ok_calls: "careful p \<Longrightarrow> commands_ok x \<Longrightarrow> commands_ok (calls p e x)"
  by (simp add: calls_def commands_ok_unlocked)

lemma commands_ok_state: "careful p \<Longrightarrow> commands_ok x \<Longrightarrow> commands_ok (ProcessStateChange p s x)"
  by (simp add: ProcessStateChange_def ProcessStateChangeToStopped_def commands_ok_calls)

lemma commands_ok_broken: "careful p \<Longrightarrow> commands_ok x \<Longrightarrow> commands_ok (call_broken p c x)"
  by (simp add: call_broken_def commands_ok_calls split: option.split)

lemma commands_ok_Enqueue [simp]: "commands_ok (EnqueueCommand t c x) = commands_ok x"
  by (simp add: EnqueueCommand_def)

lemma commands_ok_reply: "careful p \<Longrightarrow> commands_ok x \<Longrightarrow> call_reply p c r x = Some y \<Longrightarrow> commands_ok y"
  by (auto simp: call_reply_def commands_ok_calls split: option.splits)

lemmas drop_queue_induct = drop_queue.raw_induct [where xa = "(p, x)" for p x, unfolded prod.case, rotated, consumes 1, case_names step]

lemmas ProcessSendQueue_induct = ProcessSendQueueUnderLock.raw_induct [where xa = "(p, x)" for p x, unfolded prod.case, rotated, consumes 1, case_names step]

lemma commands_ok_take:
  "commands_ok x \<Longrightarrow> send_queue x = i # queue \<Longrightarrow> commands_ok (x\<lparr>send_storage := (send_storage x)[i := v], send_queue := queue\<rparr>)"
  by (auto simp: commands_ok_def)

lemma commands_ok_recycle:
  "commands_ok x \<Longrightarrow> send_queue x = i # queue \<Longrightarrow> commands_ok (x\<lparr>send_queue := queue, send_pool := i # send_pool x\<rparr>)"
  by (auto simp: commands_ok_def)

lemma commands_ok_storage [simp]:
  "length storage = length (send_storage x) \<Longrightarrow> commands_ok (x\<lparr>send_storage := storage\<rparr>) = commands_ok x"
  by (simp add: commands_ok_def)

lemma commands_ok_drop:
  "drop_queue p x = Some y \<Longrightarrow> careful p \<and> commands_ok x \<longrightarrow> commands_ok y"
proof (induction rule: drop_queue_induct)
  case (step f p x y)
  show ?case
  proof (cases "send_queue x")
    case Nil
    then show ?thesis using step(2) by simp
  next
    case (Cons i queue)
    show ?thesis
      using step(1) [of p] step(2) Cons by (simp add: commands_ok_broken commands_ok_take)
  qed
qed

lemma commands_ok_process:
  "ProcessSendQueueUnderLock p x = Some y \<Longrightarrow> careful p \<and> commands_ok x \<longrightarrow> commands_ok y"
proof (induction rule: ProcessSendQueue_induct)
  case (step f p x y)
  show ?case
  proof (cases "send_queue x")
    case Nil
    then show ?thesis using step(2) by simp
  next
    case (Cons i queue)
    show ?thesis
      using step(2) Cons
      by (auto simp: Let_def SendProtocolMessage_def commands_ok_unlocked commands_ok_recycle
          call_reply_def commands_ok_calls split: option.splits bind_splits dest!: step(1))
  qed
qed

lemma commands_ok_queued: "commands_ok x \<Longrightarrow> TryQueueMessage m c x = (b, y) \<Longrightarrow> commands_ok y"
  by (auto simp: TryQueueMessage_def commands_ok_def split: list.splits)

lemma commands_ok_reason: "commands_ok x \<Longrightarrow> TrySetStopReason r x = (b, y) \<Longrightarrow> commands_ok y"
  by (auto simp: TrySetStopReason_def split: if_splits)

lemma commands_ok_armed: "commands_ok x \<Longrightarrow> ArmSendQueueUnderLock x = Some y \<Longrightarrow> commands_ok y"
  by (auto simp: ArmSendQueueUnderLock_def assert_prd_def split: if_splits)

lemma commands_ok_release: "careful p \<Longrightarrow> commands_ok x \<Longrightarrow> commands_ok (release_connection p x)"
  by (simp add: release_connection_def Let_def ProcessCleanup_def commands_ok_broken split: option.split)

lemma commands_ok_stop: "SwitchToStopState p b x = Some y \<Longrightarrow> careful p \<Longrightarrow> commands_ok x \<Longrightarrow> commands_ok y"
  by (auto simp: SwitchToStopState_def commands_ok_release commands_ok_state split: bind_splits dest!: commands_ok_drop)

lemma commands_ok_connect: "TryConnect p b x = Some y \<Longrightarrow> careful p \<Longrightarrow> commands_ok x \<Longrightarrow> commands_ok y"
  by (auto simp: TryConnect_def Let_def commands_ok_calls commands_ok_state
      split: sum.splits if_splits prod.splits bool.splits
      dest!: commands_ok_stop dest: commands_ok_reason [rotated])

lemma commands_ok_restart: "DoRestart p b x = Some y \<Longrightarrow> careful p \<Longrightarrow> commands_ok x \<Longrightarrow> commands_ok y"
  by (auto simp: DoRestart_def Let_def commands_ok_state split: if_splits dest!: commands_ok_connect)

lemma commands_ok_Stop: "Stop p b x = Some y \<Longrightarrow> careful p \<Longrightarrow> commands_ok x \<Longrightarrow> commands_ok y"
  by (auto simp: Stop_def Let_def commands_ok_state split: prod.splits bool.splits if_splits
      dest!: commands_ok_stop dest: commands_ok_reason [rotated])

lemma commands_ok_reported: "reported (SendProtocolMessage p k m x) = Some (r, y) \<Longrightarrow> commands_ok x \<Longrightarrow> commands_ok y"
  by (auto simp: reported_def SendProtocolMessage_def split: option.splits)

lemma commands_ok_Send: "Send p m x = Some (r, y) \<Longrightarrow> commands_ok x \<Longrightarrow> commands_ok y"
  by (auto simp: Send_def split: if_splits prod.splits bool.splits bind_splits
      dest: commands_ok_reported commands_ok_queued [rotated] commands_ok_armed [rotated])

lemma commands_ok_SendWithCallback: "SendWithCallback p m c x = Some (r, y) \<Longrightarrow> commands_ok x \<Longrightarrow> commands_ok y"
  by (auto simp: SendWithCallback_def SendProtocolMessage_def split: if_splits prod.splits bool.splits bind_splits option.splits
      dest: commands_ok_queued [rotated] commands_ok_armed [rotated])

lemma commands_ok_SendWaitReply:
  "SendWaitReply p b m c x = Some (r, y) \<Longrightarrow> careful p \<Longrightarrow> commands_ok x \<Longrightarrow> commands_ok y"
  by (auto simp: SendWaitReply_def SendProtocolMessage_def Let_def commands_ok_unlocked
      split: if_splits prod.splits bool.splits bind_splits option.splits
      dest: commands_ok_queued [rotated] dest!: commands_ok_armed [rotated])

lemma commands_ok_received:
  assumes "ProcessInputEvent p received x = Some (r, y)" and "careful p" and "commands_ok x"
  shows "commands_ok y"
proof (cases received)
  case (Inl e)
  then show ?thesis using assms by (auto simp: ProcessInputEvent_def split: if_splits)
next
  case (Inr cm)
  then show ?thesis
    using assms commands_ok_process [of p "x\<lparr>waiting_for_reply := None\<rparr>"]
    by (cases cm) (auto simp: ProcessInputEvent_def commands_ok_calls split: if_splits option.splits bind_splits
        intro: commands_ok_reply)
qed

lemma commands_ok_unregister:
  "UnregisterPosixEndpoint p x = Some y \<Longrightarrow> careful p \<Longrightarrow> commands_ok x \<Longrightarrow> commands_ok y"
  by (auto simp: UnregisterPosixEndpoint_def Let_def split: if_splits dest!: commands_ok_stop)

lemma commands_ok_input:
  assumes "endpoint_input p received x = Some y" and "careful p" and "commands_ok x"
  shows "commands_ok y"
proof -
  obtain r z where z: "ProcessInputEvent p received x = Some (r, z)"
    using assms(1) by (auto simp: endpoint_input_def split: bind_splits)
  have "commands_ok z"
    by (rule commands_ok_received [OF z assms(2,3)])
  then show ?thesis
    using assms(1,2) z
    by (auto simp: endpoint_input_def TrySetStopReason_def commands_ok_state split: if_splits
        dest!: commands_ok_unregister)
qed

lemma commands_ok_command:
  "run_command p command x = Some y \<Longrightarrow> careful p \<Longrightarrow> commands_ok x \<Longrightarrow> commands_ok y"
  by (auto simp: run_command_def split: engine_command.splits
      dest: commands_ok_connect commands_ok_stop commands_ok_process)

subsection \<open>Order of sending\<close>

text \<open>Operations that run without interference.\<close>

definition undisturbed :: "'c platform \<Rightarrow> bool" where
  "undisturbed p \<longleftrightarrow> (\<forall>n x. other_threads p n x = x)"

lemma undisturbed_simps [simp]:
  "undisturbed p \<Longrightarrow> unlocked p x = x"
  "undisturbed p \<Longrightarrow> calls p e x = happens e x"
  by (simp_all add: undisturbed_def unlocked_def calls_def)

lemma happens_simps [simp]:
  "send_queue (happens e x) = send_queue x"
  "send_pool (happens e x) = send_pool x"
  "send_storage (happens e x) = send_storage x"
  "waiting_for_reply (happens e x) = waiting_for_reply x"
  "engine_queue (happens e x) = engine_queue x"
  "connection_state (happens e x) = connection_state x"
  "connection_stop_reason (happens e x) = connection_stop_reason x"
  "has_state_callback (happens e x) = has_state_callback x"
  "endpoint_registered (happens e x) = endpoint_registered x"
  "connection_events (happens e x) = connection_events x @ [e]"
  by (simp_all add: happens_def)

definition sent_messages :: "'c client_connection \<Rightarrow> u8 list list" where
  "sent_messages x = List.map_filter (\<lambda>e. case e of Protocol_Sent _ m \<Rightarrow> Some m | _ \<Rightarrow> None) (connection_events x)"

lemma sent_messages_happens [simp]:
  "sent_messages (happens e x) = sent_messages x @ (case e of Protocol_Sent _ m \<Rightarrow> [m] | _ \<Rightarrow> [])"
  by (simp add: sent_messages_def List.map_filter_def split: connection_event.split)

lemma sent_messages_cong: "connection_events x = connection_events y \<Longrightarrow> sent_messages x = sent_messages y"
  by (simp add: sent_messages_def)

text \<open>One round of the loop, with its three outcomes.\<close>

definition taken :: "nat \<Rightarrow> nat list \<Rightarrow> 'c client_connection \<Rightarrow> 'c client_connection" where
  "taken i queue x = x\<lparr>send_queue := queue, send_pool := i # send_pool x,
     send_storage := (send_storage x)[i := (send_storage x ! i)\<lparr>command_callback := None\<rparr>]\<rparr>"

lemma process_Nil: "send_queue x = [] \<Longrightarrow> ProcessSendQueueUnderLock p x = Some x"
  by (simp add: ProcessSendQueueUnderLock.simps)

lemma cleared_message [simp]:
  "command_message (storage[i := (storage ! i)\<lparr>command_callback := None\<rparr>] ! j) = command_message (storage ! j)"
  by (cases "i < length storage"; cases "i = j") (simp_all add: list_update_beyond)

definition sent_request :: "nat \<Rightarrow> nat list \<Rightarrow> 'c client_connection \<Rightarrow> 'c client_connection" where
  "sent_request i queue x = happens (Protocol_Sent REQUEST (command_message (send_storage x ! i))) (taken i queue x)"

definition sent_plain :: "nat \<Rightarrow> nat list \<Rightarrow> 'c client_connection \<Rightarrow> 'c client_connection" where
  "sent_plain i queue x =
     (happens (Protocol_Sent SEND (command_message (send_storage x ! i)))
        (x\<lparr>send_queue := queue, send_pool := i # send_pool x\<rparr>))\<lparr>waiting_for_reply := None\<rparr>"

lemma process_delivered:
  assumes "undisturbed p" and "send_queue x = i # queue" and "command_callback (send_storage x ! i) = Some c"
    and "send_result p (moment x) = None"
  shows "ProcessSendQueueUnderLock p x = Some ((sent_request i queue x)\<lparr>waiting_for_reply := Some (Some c)\<rparr>)"
  using assms
  by (simp add: ProcessSendQueueUnderLock.simps [of p x] SendProtocolMessage_def sent_request_def taken_def happens_def Let_def)

lemma process_failed:
  assumes "undisturbed p" and "send_queue x = i # queue" and "command_callback (send_storage x ! i) = Some c"
    and "send_result p (moment x) = Some e"
  shows "ProcessSendQueueUnderLock p x =
    ProcessSendQueueUnderLock p ((happens (Reply_Called c (Inl e)) (sent_request i queue x))\<lparr>waiting_for_reply := None\<rparr>)"
  using assms
  by (simp add: ProcessSendQueueUnderLock.simps [of p x] SendProtocolMessage_def sent_request_def taken_def happens_def
      call_reply_def Let_def)

lemma process_plain:
  assumes "undisturbed p" and "send_queue x = i # queue" and "command_callback (send_storage x ! i) = None"
  shows "ProcessSendQueueUnderLock p x = ProcessSendQueueUnderLock p (sent_plain i queue x)"
  using assms
  by (simp add: ProcessSendQueueUnderLock.simps [of p x] SendProtocolMessage_def sent_plain_def happens_def Let_def)

lemma process_undisturbed:
  assumes p: "undisturbed p"
    and Nil: "\<And>x. send_queue x = [] \<Longrightarrow> P x x"
    and delivered: "\<And>x i queue c. send_queue x = i # queue \<Longrightarrow> command_callback (send_storage x ! i) = Some c \<Longrightarrow>
      P x ((sent_request i queue x)\<lparr>waiting_for_reply := Some (Some c)\<rparr>)"
    and failed: "\<And>x y i queue c e. send_queue x = i # queue \<Longrightarrow> command_callback (send_storage x ! i) = Some c \<Longrightarrow>
      P ((happens (Reply_Called c (Inl e)) (sent_request i queue x))\<lparr>waiting_for_reply := None\<rparr>) y \<Longrightarrow> P x y"
    and plain: "\<And>x y i queue. send_queue x = i # queue \<Longrightarrow> command_callback (send_storage x ! i) = None \<Longrightarrow>
      P (sent_plain i queue x) y \<Longrightarrow> P x y"
  shows "\<exists>y. ProcessSendQueueUnderLock p x = Some y \<and> P x y"
proof (induction "send_queue x" arbitrary: x)
  case Nil
  then show ?case using assms(2) [of x] process_Nil [of x p] by simp
next
  case (Cons i queue)
  have queue: "send_queue x = i # queue" using Cons.hyps(2) by simp
  show ?case
  proof (cases "command_callback (send_storage x ! i)")
    case None
    have "\<exists>y. ProcessSendQueueUnderLock p (sent_plain i queue x) = Some y \<and> P (sent_plain i queue x) y"
      by (rule Cons.hyps(1)) (simp add: sent_plain_def)
    then show ?thesis using plain [OF queue None] process_plain [OF p queue None] by auto
  next
    case (Some c)
    show ?thesis
    proof (cases "send_result p (moment x)")
      case None
      then show ?thesis using process_delivered [OF p queue Some None] delivered [OF queue Some] by simp
    next
      case e: (Some e)
      let ?x = "(happens (Reply_Called c (Inl e)) (sent_request i queue x))\<lparr>waiting_for_reply := None\<rparr>"
      have "\<exists>y. ProcessSendQueueUnderLock p ?x = Some y \<and> P ?x y"
        by (rule Cons.hyps(1)) (simp add: sent_request_def taken_def)
      then show ?thesis using failed [OF queue Some] process_failed [OF p queue Some e] by auto
    qed
  qed
qed

definition sent_in_order :: "'c client_connection \<Rightarrow> 'c client_connection \<Rightarrow> nat \<Rightarrow> bool" where
  "sent_in_order x y k \<longleftrightarrow>
     k \<le> length (send_queue x) \<and>
     sent_messages y = sent_messages x @ map (\<lambda>i. command_message (send_storage x ! i)) (take k (send_queue x)) \<and>
     send_queue y = drop k (send_queue x) \<and>
     send_pool y = rev (take k (send_queue x)) @ send_pool x \<and>
     (k < length (send_queue x) \<longrightarrow> (\<exists>c. waiting_for_reply y = Some (Some c)))"

lemma sent_messages_waiting [simp]: "sent_messages (x\<lparr>waiting_for_reply := w\<rparr>) = sent_messages x"
  by (simp add: sent_messages_def)

lemma sent_messages_taken [simp]: "sent_messages (taken i queue x) = sent_messages x"
  by (simp add: sent_messages_def taken_def)

lemma sent_messages_recycle [simp]:
  "sent_messages (x\<lparr>send_queue := queue, send_pool := pool\<rparr>) = sent_messages x"
  by (simp add: sent_messages_def)

lemma process_in_order:
  assumes "undisturbed p"
  shows "\<exists>y. ProcessSendQueueUnderLock p x = Some y \<and> (\<exists>k. sent_in_order x y k)"
proof (rule process_undisturbed [OF assms])
  fix x :: "'a client_connection"
  assume "send_queue x = []"
  then show "\<exists>k. sent_in_order x x k"
    by (simp add: sent_in_order_def)
next
  fix x :: "'a client_connection" and i queue c
  assume "send_queue x = i # queue"
  then have "sent_in_order x ((sent_request i queue x)\<lparr>waiting_for_reply := Some (Some c)\<rparr>) 1"
    by (simp add: sent_in_order_def sent_request_def) (simp add: taken_def)
  then show "\<exists>k. sent_in_order x ((sent_request i queue x)\<lparr>waiting_for_reply := Some (Some c)\<rparr>) k"
    by blast
next
  fix x y :: "'a client_connection" and i queue c e
  assume queue: "send_queue x = i # queue"
    and "\<exists>k. sent_in_order ((happens (Reply_Called c (Inl e)) (sent_request i queue x))\<lparr>waiting_for_reply := None\<rparr>) y k"
  then obtain k where
    "sent_in_order ((happens (Reply_Called c (Inl e)) (sent_request i queue x))\<lparr>waiting_for_reply := None\<rparr>) y k"
    by blast
  then have "sent_in_order x y (Suc k)"
    using queue by (simp add: sent_in_order_def sent_request_def) (simp add: taken_def)
  then show "\<exists>k. sent_in_order x y k"
    by blast
next
  fix x y :: "'a client_connection" and i queue
  assume queue: "send_queue x = i # queue" and "\<exists>k. sent_in_order (sent_plain i queue x) y k"
  then obtain k where "sent_in_order (sent_plain i queue x) y k"
    by blast
  then have "sent_in_order x y (Suc k)"
    using queue by (simp add: sent_in_order_def sent_plain_def)
  then show "\<exists>k. sent_in_order x y k"
    by blast
qed

subsection \<open>Accepted requests\<close>

text \<open>The callbacks that the connection still owes an answer, and those that have got one.\<close>

definition awaited :: "'c option option \<Rightarrow> 'c multiset" where
  "awaited w = (case w of Some (Some c) \<Rightarrow> {#c#} | _ \<Rightarrow> {#})"

lemma awaited_simps [simp]:
  "awaited None = {#}"
  "awaited (Some None) = {#}"
  "awaited (Some (Some c)) = {#c#}"
  by (simp_all add: awaited_def)

definition queued :: "'c send_command list \<Rightarrow> nat list \<Rightarrow> 'c multiset" where
  "queued storage queue = mset (List.map_filter (\<lambda>i. command_callback (storage ! i)) queue)"

lemma queued_simps [simp]:
  "queued storage [] = {#}"
  "queued storage (i # queue) = awaited (Some (command_callback (storage ! i))) + queued storage queue"
  "queued storage (queue @ queue') = queued storage queue + queued storage queue'"
  by (simp_all add: queued_def List.map_filter_def awaited_def split: option.split)

lemma queued_update [simp]: "i \<notin> set queue \<Longrightarrow> queued (storage[i := v]) queue = queued storage queue"
  by (induction queue) simp_all

definition owed :: "'c client_connection \<Rightarrow> 'c multiset" where
  "owed x = awaited (waiting_for_reply x) + queued (send_storage x) (send_queue x)"

definition answered :: "'c client_connection \<Rightarrow> 'c multiset" where
  "answered x = mset (List.map_filter (\<lambda>e. case e of Reply_Called c _ \<Rightarrow> Some c | _ \<Rightarrow> None) (connection_events x))"

lemma answered_happens [simp]:
  "answered (happens e x) = answered x + (case e of Reply_Called c _ \<Rightarrow> {#c#} | _ \<Rightarrow> {#})"
  by (simp add: answered_def List.map_filter_def split: connection_event.split)

lemma answered_cong: "connection_events x = connection_events y \<Longrightarrow> answered x = answered y"
  by (simp add: answered_def)

lemma owed_happens [simp]: "owed (happens e x) = owed x"
  by (simp add: owed_def)

text \<open>What the loop over the queue leaves alone.\<close>

definition same_control :: "'c client_connection \<Rightarrow> 'c client_connection \<Rightarrow> bool" where
  "same_control x y \<longleftrightarrow>
     engine_queue y = engine_queue x \<and> connection_state y = connection_state x \<and>
     connection_stop_reason y = connection_stop_reason x \<and> has_state_callback y = has_state_callback x \<and>
     endpoint_registered y = endpoint_registered x"

definition settles :: "'c client_connection \<Rightarrow> 'c client_connection \<Rightarrow> bool" where
  "settles x y \<longleftrightarrow>
     (commands_ok x \<and> awaited (waiting_for_reply x) = {#} \<longrightarrow>
        commands_ok y \<and> owed y + answered y = owed x + answered x \<and> same_control x y)"

lemma commands_ok_taken: "commands_ok x \<Longrightarrow> send_queue x = i # queue \<Longrightarrow> commands_ok (taken i queue x)"
  by (simp add: taken_def commands_ok_recycle)

lemma answered_updates [simp]:
  "answered (x\<lparr>waiting_for_reply := w\<rparr>) = answered x"
  "answered (taken i queue x) = answered x"
  "answered (x\<lparr>send_queue := queue, send_pool := pool\<rparr>) = answered x"
  by (simp_all add: answered_def taken_def)

lemma owed_request:
  assumes "commands_ok x" and "send_queue x = i # queue"
  shows "owed ((sent_request i queue x)\<lparr>waiting_for_reply := w\<rparr>) = awaited w + queued (send_storage x) queue"
  using assms by (simp add: owed_def sent_request_def taken_def commands_ok_def)

lemma same_control_steps [simp]:
  "same_control (x\<lparr>waiting_for_reply := w\<rparr>) y = same_control x y"
  "same_control x (y\<lparr>waiting_for_reply := w\<rparr>) = same_control x y"
  "same_control (happens e x) y = same_control x y"
  "same_control x (happens e y) = same_control x y"
  "same_control (taken i queue x) y = same_control x y"
  "same_control x (taken i queue y) = same_control x y"
  "same_control (x\<lparr>send_queue := queue, send_pool := pool\<rparr>) y = same_control x y"
  "same_control x x"
  by (simp_all add: same_control_def taken_def)

lemma owed_plain:
  "send_queue x = i # queue \<Longrightarrow> owed (sent_plain i queue x) = queued (send_storage x) queue"
  by (simp add: owed_def sent_plain_def)

lemma process_settles:
  assumes "undisturbed p"
  shows "\<exists>y. ProcessSendQueueUnderLock p x = Some y \<and> settles x y"
proof (rule process_undisturbed [OF assms])
  fix x :: "'a client_connection"
  show "settles x x"
    by (simp add: settles_def)
next
  fix x :: "'a client_connection" and i queue c
  assume "send_queue x = i # queue" and "command_callback (send_storage x ! i) = Some c"
  then show "settles x ((sent_request i queue x)\<lparr>waiting_for_reply := Some (Some c)\<rparr>)"
    by (auto simp: settles_def owed_request) (simp_all add: owed_def sent_request_def commands_ok_taken)
next
  fix x y :: "'a client_connection" and i queue c e
  let ?x = "(happens (Reply_Called c (Inl e)) (sent_request i queue x))\<lparr>waiting_for_reply := None\<rparr>"
  assume x: "send_queue x = i # queue" "command_callback (send_storage x ! i) = Some c" and "settles ?x y"
  moreover have "commands_ok x \<Longrightarrow> owed ?x = queued (send_storage x) queue"
    using x by (simp add: owed_def sent_request_def taken_def commands_ok_def)
  ultimately show "settles x y"
    by (auto simp: settles_def sent_request_def commands_ok_taken) (simp add: owed_def)
next
  fix x y :: "'a client_connection" and i queue
  assume "send_queue x = i # queue" and "command_callback (send_storage x ! i) = None"
    and "settles (sent_plain i queue x) y"
  then show "settles x y"
    by (auto simp: settles_def owed_plain) (simp_all add: owed_def sent_plain_def commands_ok_recycle)
qed

lemma drop_queue_answers:
  assumes "undisturbed p" and "commands_ok x"
  shows "\<exists>y. drop_queue p x = Some y \<and> commands_ok y \<and> send_queue y = [] \<and>
    send_pool y = send_pool x \<and>
    waiting_for_reply y = waiting_for_reply x \<and> same_control x y \<and>
    answered y = answered x + queued (send_storage x) (send_queue x)"
  using assms(2)
proof (induction "send_queue x" arbitrary: x)
  case Nil
  then show ?case by (simp add: drop_queue.simps [of p x])
next
  case (Cons i queue)
  have queue: "send_queue x = i # queue" using Cons.hyps(2) by simp
  let ?x = "x\<lparr>send_storage := (send_storage x)[i := (send_storage x ! i)\<lparr>command_callback := None\<rparr>], send_queue := queue\<rparr>"
  let ?z = "call_broken p (command_callback (send_storage x ! i)) ?x"
  have z: "send_queue ?z = queue" "send_pool ?z = send_pool x" "commands_ok ?z" "waiting_for_reply ?z = waiting_for_reply x"
    "send_storage ?z = send_storage ?x" "same_control ?z = same_control x"
    "answered ?z = answered x + awaited (Some (command_callback (send_storage x ! i)))"
    using assms(1) commands_ok_take [OF Cons.prems queue]
    by (auto simp: call_broken_def fun_eq_iff same_control_def answered_def happens_def List.map_filter_def split: option.split)
  have "i \<notin> set queue" using Cons.prems queue by (simp add: commands_ok_def)
  then show ?case
    using Cons.hyps(1) [of ?z] z queue by (auto simp: drop_queue.simps [of p x])
qed

text \<open>
  The invariant: the accepted callbacks are those that are owed and those that were answered, an
  armed queue waits with an empty callback, and a stopped connection owes nothing.
\<close>

definition armed :: "'c client_connection \<Rightarrow> nat" where
  "armed x = length (filter (\<lambda>e. entry_callback e = Send_Queue_Command) (engine_queue x))"

definition connection_inv :: "'c multiset \<Rightarrow> 'c client_connection \<Rightarrow> bool" where
  "connection_inv a x \<longleftrightarrow>
     commands_ok x \<and> a = owed x + answered x \<and> list_all (\<lambda>e. entry_owner e = this_owner) (engine_queue x) \<and>
     armed x \<le> 1 \<and> (armed x = 1 \<longrightarrow> waiting_for_reply x = Some None) \<and>
     (connection_state x = kStopped \<longrightarrow> waiting_for_reply x = None \<and> send_queue x = [])"

lemma inv_happens [simp]:
  "connection_inv a (happens e x) \<longleftrightarrow>
     connection_inv a x" if "\<And>c r. e \<noteq> Reply_Called c r"
  using that by (cases e) (auto simp: connection_inv_def armed_def)

lemma owed_updates [simp]:
  "owed (x\<lparr>connection_state := v1\<rparr>) = owed x"
  "owed (x\<lparr>connection_stop_reason := v2\<rparr>) = owed x"
  "owed (x\<lparr>client_fd := v3\<rparr>) = owed x"
  "owed (x\<lparr>endpoint_registered := v5\<rparr>) = owed x"
  "owed (x\<lparr>endpoint_disconnect := v6\<rparr>) = owed x"
  "owed (x\<lparr>engine_queue := v7\<rparr>) = owed x"
  "owed (x\<lparr>connect_retry_ms := v8\<rparr>) = owed x"
  "owed (x\<lparr>has_state_callback := v9\<rparr>) = owed x"
  "owed (x\<lparr>has_notify_callback := v10\<rparr>) = owed x"
  by (simp_all add: owed_def)

lemma answered_control [simp]:
  "answered (x\<lparr>connection_state := v1\<rparr>) = answered x"
  "answered (x\<lparr>connection_stop_reason := v2\<rparr>) = answered x"
  "answered (x\<lparr>client_fd := v3\<rparr>) = answered x"
  "answered (x\<lparr>endpoint_registered := v5\<rparr>) = answered x"
  "answered (x\<lparr>endpoint_disconnect := v6\<rparr>) = answered x"
  "answered (x\<lparr>engine_queue := v7\<rparr>) = answered x"
  "answered (x\<lparr>connect_retry_ms := v8\<rparr>) = answered x"
  "answered (x\<lparr>has_state_callback := v9\<rparr>) = answered x"
  "answered (x\<lparr>has_notify_callback := v10\<rparr>) = answered x"
  by (simp_all add: answered_def)

lemma inv_updates [simp]:
  "connection_inv a (x\<lparr>connection_stop_reason := v2\<rparr>) = connection_inv a x"
  "connection_inv a (x\<lparr>client_fd := v3\<rparr>) = connection_inv a x"
  "connection_inv a (x\<lparr>endpoint_registered := v5\<rparr>) = connection_inv a x"
  "connection_inv a (x\<lparr>endpoint_disconnect := v6\<rparr>) = connection_inv a x"
  "connection_inv a (x\<lparr>connect_retry_ms := v8\<rparr>) = connection_inv a x"
  "connection_inv a (x\<lparr>has_state_callback := v9\<rparr>) = connection_inv a x"
  "connection_inv a (x\<lparr>has_notify_callback := v10\<rparr>) = connection_inv a x"
  by (simp_all add: connection_inv_def armed_def)

lemma inv_state:
  "undisturbed p \<Longrightarrow> connection_inv a x \<Longrightarrow> s \<noteq> kStopped \<Longrightarrow> connection_inv a (ProcessStateChange p s x)"
  by (simp add: ProcessStateChange_def) (auto simp: connection_inv_def armed_def)

lemma armed_waiting [simp]: "armed (x\<lparr>waiting_for_reply := w\<rparr>) = armed x"
  by (simp add: armed_def)

lemma Register_filter_length:
  "length (filter P (RegisterTimedEntry t c owner queue)) =
     length (filter P queue) + (if P \<lparr>entry_until = t, entry_owner = owner, entry_callback = c\<rparr> then 1 else 0)"
  by (induction queue) (auto simp: RegisterTimedEntry_def split: if_split_asm)

lemma Register_set:
  "set (RegisterTimedEntry t c owner queue) =
     insert \<lparr>entry_until = t, entry_owner = owner, entry_callback = c\<rparr> (set queue)"
  by (induction queue) (auto simp: RegisterTimedEntry_def)

lemma armed_Enqueue [simp]:
  "armed (EnqueueCommand t c x) = armed x + (if c = Send_Queue_Command then 1 else 0)"
  by (simp add: armed_def EnqueueCommand_def Register_filter_length)

lemma owners_Enqueue [simp]:
  "list_all (\<lambda>e. entry_owner e = this_owner) (engine_queue (EnqueueCommand t c x)) \<longleftrightarrow>
     list_all (\<lambda>e. entry_owner e = this_owner) (engine_queue x)"
  by (simp add: EnqueueCommand_def Register_set list_all_iff)

lemma Enqueue_simps [simp]:
  "owed (EnqueueCommand t c x) = owed x"
  "answered (EnqueueCommand t c x) = answered x"
  "waiting_for_reply (EnqueueCommand t c x) = waiting_for_reply x"
  "send_queue (EnqueueCommand t c x) = send_queue x"
  "connection_state (EnqueueCommand t c x) = connection_state x"
  by (simp_all add: EnqueueCommand_def)

lemma inv_Enqueue: "connection_inv a x \<Longrightarrow> c \<noteq> Send_Queue_Command \<Longrightarrow> connection_inv a (EnqueueCommand t c x)"
  by (simp add: connection_inv_def)

lemma inv_arm: "connection_inv a x \<Longrightarrow> ArmSendQueueUnderLock x = Some y \<Longrightarrow> connection_state x \<noteq> kStopped \<Longrightarrow> connection_inv a y"
  by (auto simp: ArmSendQueueUnderLock_def connection_inv_def le_Suc_eq) (auto simp: owed_def)

lemma inv_queued:
  assumes "connection_inv a x" and "TryQueueMessage m c x = (True, y)" and "connection_state x \<noteq> kStopped"
  shows "connection_inv (a + awaited (Some c)) y \<and> waiting_for_reply y = waiting_for_reply x \<and>
    connection_state y = connection_state x \<and> connection_config y = connection_config x"
proof -
  obtain i pool where pool: "send_pool x = i # pool"
    using assms(2) by (cases "send_pool x") (auto simp: TryQueueMessage_def)
  then have "i < length (send_storage x)" "i \<notin> set (send_queue x)"
    using assms(1) by (auto simp: connection_inv_def commands_ok_def)
  then show ?thesis
    using assms pool commands_ok_queued [of x m c True y]
    by (auto simp: connection_inv_def TryQueueMessage_def armed_def owed_def answered_def)
qed

lemma queued_full: "TryQueueMessage m c x = (False, y) \<Longrightarrow> y = x"
  by (auto simp: TryQueueMessage_def split: list.splits)

lemma inv_stop:
  assumes "undisturbed p" and "connection_inv a x" and "SwitchToStopState p b x = Some y"
  shows "connection_inv a y \<and> connection_state y = kStopped"
proof -
  let ?r = "release_connection p x"
  have r: "commands_ok ?r" "waiting_for_reply ?r = None" "engine_queue ?r = []"
    "queued (send_storage ?r) (send_queue ?r) = queued (send_storage x) (send_queue x)"
    "answered ?r = answered x + awaited (waiting_for_reply x)"
    using assms(1,2)
    by (auto simp: release_connection_def ProcessCleanup_def call_broken_def connection_inv_def Let_def CleanUpOwner_def
        list_all_iff split: option.split)
  obtain z where "drop_queue p ?r = Some z" "commands_ok z" "send_queue z = []" "waiting_for_reply z = None"
    "engine_queue z = []" "answered z = answered ?r + queued (send_storage ?r) (send_queue ?r)"
    using drop_queue_answers [OF assms(1) r(1)] r(2,3) by (auto simp: same_control_def)
  then show ?thesis
    using assms r by (cases "has_state_callback z") (auto simp: SwitchToStopState_def ProcessStateChange_def
        ProcessStateChangeToStopped_def connection_inv_def armed_def owed_def ac_simps)
qed

lemma inv_connect:
  "TryConnect p b x = Some y \<Longrightarrow> undisturbed p \<Longrightarrow> connection_inv a x \<Longrightarrow> connection_inv a y"
  by (auto simp: TryConnect_def TrySetStopReason_def Let_def inv_state inv_Enqueue split: sum.splits if_splits dest!: inv_stop [rotated 2])

lemma inv_restart:
  "DoRestart p b x = Some y \<Longrightarrow> undisturbed p \<Longrightarrow> connection_inv a x \<Longrightarrow> connection_inv a y"
  by (auto simp: DoRestart_def Let_def inv_state inv_Enqueue split: if_splits dest!: inv_connect)

lemma inv_Stop: "Stop p b x = Some y \<Longrightarrow> undisturbed p \<Longrightarrow> connection_inv a x \<Longrightarrow> connection_inv a y"
  by (auto simp: Stop_def TrySetStopReason_def Let_def inv_state inv_Enqueue split: if_splits dest!: inv_stop [rotated 2])

definition accepted :: "os_error + unit \<Rightarrow> 'c option \<Rightarrow> 'c multiset" where
  "accepted r callback = (case r of Inl _ \<Rightarrow> {#} | Inr _ \<Rightarrow> awaited (Some callback))"

lemma accepted_simps [simp]:
  "accepted (Inl e) c = {#}"
  "accepted (Inr u) c = awaited (Some c)"
  "accepted r None = {#}"
  by (simp_all add: accepted_def split: sum.split)

lemma inv_reported:
  "reported (SendProtocolMessage p k m x) = Some (r, y) \<Longrightarrow> connection_inv a x \<Longrightarrow> connection_inv (a + accepted r None) y"
  by (cases "send_result p (moment x)") (auto simp: reported_def SendProtocolMessage_def)

lemma inv_Send: "Send p m x = Some (r, y) \<Longrightarrow> connection_inv a x \<Longrightarrow> connection_inv (a + accepted r None) y"
  by (auto simp: Send_def split: if_splits prod.splits bool.splits bind_splits
      dest: inv_reported queued_full dest!: inv_queued [rotated] intro: inv_arm)

lemma inv_waiting:
  "connection_inv a x \<Longrightarrow> waiting_for_reply x = None \<Longrightarrow> connection_state x \<noteq> kStopped \<Longrightarrow>
     connection_inv (a + awaited w) (x\<lparr>waiting_for_reply := w\<rparr>)"
  by (auto simp: connection_inv_def owed_def)

lemma inv_SendWithCallback:
  "SendWithCallback p m c x = Some (r, y) \<Longrightarrow> connection_inv a x \<Longrightarrow> connection_inv (a + accepted r c) y"
  by (auto simp: SendWithCallback_def SendProtocolMessage_def inv_waiting
      split: if_splits prod.splits bool.splits bind_splits option.splits
      dest: queued_full dest!: inv_queued [rotated] intro: inv_arm)

lemma inv_SendWaitReply:
  assumes "SendWaitReply p b m c x = Some (r, y)" and "undisturbed p" and "connection_inv a x"
  shows "connection_inv (a + accepted r (Some c)) y"
proof (cases "b \<or> length m > unat (max_send_size x) \<or> connection_state x \<noteq> kReady \<or> waiting_for_reply x \<noteq> None")
  case True
  then show ?thesis
    using assms by (auto simp: SendWaitReply_def split: if_splits prod.splits bool.splits
        dest: queued_full dest!: inv_queued [rotated])
next
  case False
  then show ?thesis
    using assms inv_waiting [of a x "Some (Some c)"] inv_waiting [of a x None]
    by (auto simp: SendWaitReply_def SendProtocolMessage_def Let_def ArmSendQueueUnderLock_def split: option.splits if_splits)
      (auto simp: connection_inv_def owed_def happens_def armed_def answered_def List.map_filter_def)
qed

lemma inv_settled:
  assumes "settles x y" and "connection_inv a x" and "awaited (waiting_for_reply x) = {#}" and "armed x = 0"
    and "connection_state x \<noteq> kStopped"
  shows "connection_inv a y"
  using assms by (auto simp: settles_def connection_inv_def same_control_def armed_def)

lemma inv_received:
  assumes "ProcessInputEvent p received x = Some (r, y)" and "undisturbed p" and inv: "connection_inv a x"
  shows "connection_inv a y"
proof (cases "\<exists>m c. received = Inr (server_to_client_code REPLY, m) \<and> waiting_for_reply x = Some (Some c)")
  case True
  then obtain m c where m: "received = Inr (server_to_client_code REPLY, m)" and c: "waiting_for_reply x = Some (Some c)"
    by blast
  let ?x = "x\<lparr>waiting_for_reply := None\<rparr>"
  obtain z where z: "ProcessSendQueueUnderLock p ?x = Some z" "settles ?x z"
    using process_settles [OF assms(2), of ?x] by blast
  have x: "connection_inv (owed ?x + answered x) ?x" "armed x = 0" "connection_state x \<noteq> kStopped"
    "a = {#c#} + (owed ?x + answered x)"
    using inv c by (auto simp: connection_inv_def owed_def)
  have "connection_inv (owed ?x + answered x) z"
    by (rule inv_settled [OF z(2) x(1)]) (use x in simp_all)
  then have "connection_inv ({#c#} + (owed ?x + answered x)) (happens (Reply_Called c (Inr m)) z)"
    by (auto simp: connection_inv_def armed_def)
  then show ?thesis
    using assms(1,2) m c z(1) x(4) by (simp add: ProcessInputEvent_def call_reply_def)
next
  case False
  then show ?thesis
    using assms
    by (auto simp: ProcessInputEvent_def call_reply_def split: sum.splits if_splits option.splits bind_splits)
qed

lemma inv_input:
  assumes "endpoint_input p received x = Some y" and "undisturbed p" and "connection_inv a x"
  shows "connection_inv a y"
proof -
  obtain r z where z: "ProcessInputEvent p received x = Some (r, z)"
    using assms(1) by (auto simp: endpoint_input_def split: bind_splits)
  have "connection_inv a z"
    by (rule inv_received [OF z assms(2,3)])
  then show ?thesis
    using assms(1,2) z
    by (auto simp: endpoint_input_def UnregisterPosixEndpoint_def TrySetStopReason_def Let_def inv_state
        split: if_splits dest!: inv_stop [rotated 2])
qed

lemma inv_command:
  assumes "run_command p (entry_callback e) (x\<lparr>engine_queue := rest\<rparr>) = Some y" and "engine_queue x = e # rest"
    and "undisturbed p" and inv: "connection_inv a x"
  shows "connection_inv a y"
proof (cases "entry_callback e = Send_Queue_Command")
  case True
  let ?x = "x\<lparr>engine_queue := rest\<rparr>"
  have x: "connection_inv a ?x" "armed ?x = 0" "waiting_for_reply ?x = Some None" "connection_state x \<noteq> kStopped"
    using inv True assms(2) by (auto simp: connection_inv_def armed_def)
  obtain z where z: "ProcessSendQueueUnderLock p ?x = Some z" "settles ?x z"
    using process_settles [OF assms(3), of ?x] by blast
  have "connection_inv a z"
    by (rule inv_settled [OF z(2) x(1)]) (use x in simp_all)
  then show ?thesis using assms(1) True z(1) by (simp add: run_command_def)
next
  case False
  then have "connection_inv a (x\<lparr>engine_queue := rest\<rparr>)"
    using inv assms(2) by (auto simp: connection_inv_def armed_def)
  then show ?thesis
    using assms(1,3) False
    by (auto simp: run_command_def split: engine_command.splits dest: inv_connect dest!: inv_stop [rotated 2])
qed

lemma inv_perform:
  assumes "undisturbed p" and "connection_inv a x" and "perform p op x = Some (b, y)"
  shows "connection_inv (a + b) y"
proof (cases op)
  case Command_Op
  then show ?thesis
    using assms by (auto simp: perform_def split: list.splits dest: inv_command)
next
  case (Send_Op m)
  then show ?thesis
    using assms by (auto simp: perform_def accepting_def split: option.splits sum.splits dest!: inv_Send)
next
  case (SendWithCallback_Op m c)
  then show ?thesis
    using assms by (auto simp: perform_def accepting_def split: option.splits sum.splits dest!: inv_SendWithCallback)
next
  case (SendWaitReply_Op i m c)
  then show ?thesis
    using assms by (auto simp: perform_def accepting_def split: option.splits sum.splits dest!: inv_SendWaitReply)
qed (use assms in \<open>auto simp: perform_def Start_def Restart_def endpoint_ping_def split: if_splits
      dest: inv_restart inv_Stop inv_input\<close>)

fun perform_all :: "'c platform \<Rightarrow> 'c operation list \<Rightarrow> 'c client_connection \<Rightarrow> ('c multiset \<times> 'c client_connection) option" where
  "perform_all p [] x = Some ({#}, x)"
| "perform_all p (op # ops) x = do { (a, x) \<leftarrow> perform p op x; (b, x) \<leftarrow> perform_all p ops x; Some (a + b, x) }"

lemma inv_perform_all:
  "undisturbed p \<Longrightarrow> connection_inv a x \<Longrightarrow> perform_all p ops x = Some (b, y) \<Longrightarrow> connection_inv (a + b) y"
proof (induction ops arbitrary: a b x)
  case (Cons op ops)
  then obtain c z d where "perform p op x = Some (c, z)" "perform_all p ops z = Some (d, y)" "b = c + d"
    by (auto split: bind_splits)
  then show ?case
    using Cons.IH [of "a + c" z d] inv_perform [OF Cons.prems(1,2)] Cons.prems(1) by (simp add: add.assoc)
qed auto

lemma inv_ClientConnection: "connection_inv {#} (ClientConnection max_size config)"
  by (simp add: connection_inv_def commands_ok_def owed_def answered_def armed_def ClientConnection_def Let_def List.map_filter_def)

subsection \<open>Example\<close>

text \<open>A platform on which everything succeeds, and one on which another thread sends.\<close>

definition calm_platform :: "nat platform" where
  "calm_platform = \<lparr>open_result = \<lambda>_. Inr 7, send_result = \<lambda>_. None, current_time = \<lambda>_. 0, other_threads = \<lambda>_ x. x\<rparr>"

definition busy_platform :: "nat platform" where
  "busy_platform = calm_platform\<lparr>other_threads :=
     \<lambda>n x. if n = 0 then (case Send calm_platform [9] x of Some (_, y) \<Rightarrow> y | None \<Rightarrow> x) else x\<rparr>"

definition example_config :: client_config where
  "example_config = \<lparr>max_async_replies = 2, max_queued_sends = 1, fully_ordered = True, truly_async = False,
     sync_first_connect = False\<rparr>"

definition example_client :: "nat client_connection" where
  "example_client = ClientConnection 8 example_config"

text \<open>A request is waiting in the queue.\<close>

definition example_queued :: "nat client_connection" where
  "example_queued = example_client\<lparr>connection_state := kReady, connection_stop_reason := kNone,
     send_storage := (send_storage example_client)[0 := \<lparr>command_message = [4], command_callback = Some 1\<rparr>],
     send_pool := [1, 2], send_queue := [0]\<rparr>"

lemma undisturbed_calm [simp]: "undisturbed calm_platform"
  by (simp add: undisturbed_def calm_platform_def)

lemma careful_busy: "careful busy_platform"
  by (auto simp: careful_def busy_platform_def calm_platform_def split: option.split dest: commands_ok_Send)

lemma example_client_expand:
  "example_client = \<lparr>max_send_size = 8, connection_config = example_config, client_fd = - 1, connection_state = kStopped,
     connection_stop_reason = kInit, has_state_callback = False, has_notify_callback = False, connect_retry_ms = 50,
     send_storage = [\<lparr>command_message = [], command_callback = None\<rparr>, \<lparr>command_message = [], command_callback = None\<rparr>,
       \<lparr>command_message = [], command_callback = None\<rparr>], send_pool = [0, 1, 2], send_queue = [],
     waiting_for_reply = None, endpoint_registered = False, endpoint_disconnect = False, engine_queue = [],
     connection_events = []\<rparr>"
  by (simp add: example_client_def ClientConnection_def example_config_def kConnectRetryMsStart_def upt_rec)

lemma example_queued_ok: "commands_ok example_queued"
  by (simp add: example_queued_def example_client_expand commands_ok_def)

subsection \<open>Guarantees\<close>

text \<open>
  C28. No operation of a connection mixes up its commands: whatever callbacks and other threads do through
  the connection's own operations, every command is in the pool or in the queue at most once and lies in
  the storage. A queued command is never free at the same time.
\<close>

theorem send_commands_stay_apart:
  assumes "careful p" and "commands_ok x" and "perform p op x = Some (a, y)"
  shows "commands_ok y"
proof (cases op)
  case Command_Op
  then show ?thesis
    using assms by (auto simp: perform_def split: list.splits dest: commands_ok_command)
qed (use assms in \<open>auto simp: perform_def accepting_def Start_def Restart_def endpoint_ping_def commands_ok_calls
      split: option.splits sum.splits if_splits
      dest: commands_ok_restart commands_ok_Stop commands_ok_Send commands_ok_SendWithCallback
        commands_ok_SendWaitReply commands_ok_input\<close>)

lemma example_interleaved:
  "map_option (\<lambda>(a, y). (a, send_queue y)) (perform busy_platform Command_Op (example_queued\<lparr>engine_queue :=
      [\<lparr>entry_until = 0, entry_owner = this_owner, entry_callback = Send_Queue_Command\<rparr>]\<rparr>)) = Some ({#}, [0])"
  by code_simp

theorem send_commands_stay_apart_witness:
  "\<exists>y. perform busy_platform Command_Op (example_queued\<lparr>engine_queue := [\<lparr>entry_until = 0, entry_owner = this_owner,
      entry_callback = Send_Queue_Command\<rparr>]\<rparr>) = Some ({#}, y) \<and> send_queue y = [0] \<and> commands_ok y"
proof -
  let ?x = "example_queued\<lparr>engine_queue := [\<lparr>entry_until = 0, entry_owner = this_owner, entry_callback = Send_Queue_Command\<rparr>]\<rparr>"
  obtain y where y: "perform busy_platform Command_Op ?x = Some ({#}, y)" "send_queue y = [0]"
    using example_interleaved by auto
  have "commands_ok ?x"
    using example_queued_ok by simp
  then show ?thesis
    using send_commands_stay_apart [OF careful_busy _ y(1)] y by blast
qed

text \<open>
  C26. Without interference every accepted request is answered exactly once: after any sequence of calls and
  engine events, the callbacks that were accepted are those that have been called, each once, and those the
  connection still owes. Once it is stopped it owes none, so that all of them have been called.
\<close>

theorem accepted_requests_are_answered_once:
  assumes "undisturbed p" and "perform_all p ops (ClientConnection max_size config) = Some (a, x)"
  shows "a = owed x + answered x \<and> (connection_state x = kStopped \<longrightarrow> a = answered x)"
  using inv_perform_all [OF assms(1) inv_ClientConnection assms(2)] by (auto simp: connection_inv_def owed_def)

definition example_calls :: "nat operation list" where
  "example_calls = [Start_Op False True True, Command_Op, SendWithCallback_Op [4] (Some 1), SendWithCallback_Op [5] (Some 2),
     Input_Op (Inr (0, [6])), Stop_Op True]"

lemma example_calls_accepted:
  "map_option (\<lambda>(a, x). (a, connection_state x)) (perform_all calm_platform example_calls (ClientConnection 8 example_config)) =
     Some ({#1, 2#}, kStopped)"
  by code_simp

theorem accepted_requests_are_answered_once_witness:
  "\<exists>x. perform_all calm_platform example_calls (ClientConnection 8 example_config) = Some ({#1, 2#}, x) \<and> answered x = {#1, 2#}"
proof -
  obtain x where x: "perform_all calm_platform example_calls (ClientConnection 8 example_config) = Some ({#1, 2#}, x)"
    "connection_state x = kStopped"
    using example_calls_accepted by auto
  have "answered x = {#1, 2#}"
    using accepted_requests_are_answered_once [OF undisturbed_calm x(1)] x(2) by metis
  then show ?thesis
    using x(1) by blast
qed

text \<open>
  C27. Without interference the queue is sent in the order in which the messages were accepted, and the loop
  always ends: it sends a prefix of the queue, keeps the rest, and gives the commands of the prefix back. It
  stops before the end only to wait for the reply to a request.
\<close>

theorem queued_messages_leave_in_order:
  assumes "undisturbed p"
  shows "\<exists>y k. ProcessSendQueueUnderLock p x = Some y \<and>
    k \<le> length (send_queue x) \<and> send_queue y = drop k (send_queue x) \<and>
    sent_messages y = sent_messages x @ map (\<lambda>i. command_message (send_storage x ! i)) (take k (send_queue x)) \<and>
    send_pool y = rev (take k (send_queue x)) @ send_pool x \<and>
    (k < length (send_queue x) \<longrightarrow> (\<exists>c. waiting_for_reply y = Some (Some c)))"
  using process_in_order [OF assms, of x] by (auto simp: sent_in_order_def)

theorem queued_messages_leave_in_order_witness:
  "\<exists>y k. ProcessSendQueueUnderLock calm_platform example_queued = Some y \<and> k \<le> 1 \<and> send_queue y = drop k [0] \<and>
    sent_messages y = sent_messages example_queued @ map (\<lambda>i. command_message (send_storage example_queued ! i)) (take k [0]) \<and>
    send_pool y = rev (take k [0]) @ [1, 2]"
  using queued_messages_leave_in_order [of calm_platform example_queued]
  by (auto simp: example_queued_def example_client_expand)

text \<open>
  A connection attempt that fails for a passing reason is repeated: the state stays, and the next
  attempt is enqueued after the current delay. The delays start at 50 ms, never decrease, and stay within 5000 ms.
\<close>

lemma failed_connect_is_retried:
  assumes "undisturbed p" and "connection_state x = kStarting" and "connection_stop_reason x = kNone"
    and "open_result p (moment x) = Inl e" and "e = EAGAIN \<or> e = ECONNREFUSED \<or> e = ENOENT"
    and "kConnectRetryMsStart \<le> connect_retry_ms x" and "connect_retry_ms x \<le> kConnectRetryMsMax"
  shows "\<exists>y. TryConnect p b x = Some y \<and> connection_state y = kStarting \<and> connection_stop_reason y = kNone \<and>
    engine_queue y = RegisterTimedEntry (current_time p (Suc (moment x)) + connect_retry_ms x * 1000000) Connect_Command
      this_owner (engine_queue x) \<and>
    connect_retry_ms x \<le> connect_retry_ms y \<and> connect_retry_ms y \<le> kConnectRetryMsMax"
  using assms
  by (auto simp: TryConnect_def Let_def EnqueueCommand_def FromNow_def happens_def next_retry_def kConnectRetryMsStart_def
      kConnectRetryMsMax_def kConnectRetryT_def)


subsection \<open>Where the guarantees end\<close>

text \<open>
  C29. A command goes back to the pool before its message is sent. When another thread sends \<open>m'\<close> in
  between, its message takes the place of the one about to be sent: \<open>m'\<close> leaves as the request, and is queued to
  leave once more, while the original message is not sent at all.
\<close>

theorem concurrent_send_replaces_message:
  assumes "send_queue x = i # queue" and "i < length (send_storage x)"
    and "command_callback (send_storage x ! i) = Some c" and "connection_state x = kReady"
    and "fully_ordered (connection_config x)" and "length m' \<le> unat (max_send_size x)"
    and "\<forall>y. other_threads p (moment x) y = (case Send p m' y of Some (_, z) \<Rightarrow> z | None \<Rightarrow> y)"
    and "\<forall>y. other_threads p (Suc (moment x)) y = y" and "send_result p (moment x) = None"
  shows "\<exists>y. ProcessSendQueueUnderLock p x = Some y \<and> sent_messages y = sent_messages x @ [m'] \<and>
    waiting_for_reply y = Some (Some c) \<and> send_queue y = queue @ [i] \<and> command_message (send_storage y ! i) = m'"
  using assms
  by (simp add: ProcessSendQueueUnderLock.simps [of p x] SendProtocolMessage_def unlocked_def Let_def Send_def
      TryQueueMessage_def happens_def sent_messages_def List.map_filter_def)

theorem concurrent_send_replaces_message_witness:
  "\<exists>y. ProcessSendQueueUnderLock busy_platform example_queued = Some y \<and>
    sent_messages y = sent_messages example_queued @ [[9]] \<and> waiting_for_reply y = Some (Some 1) \<and>
    send_queue y = [0] \<and> command_message (send_storage y ! 0) = [9]"
  using concurrent_send_replaces_message [of example_queued 0 "[]" 1 "[9]" busy_platform]
  by (simp add: example_queued_def example_client_expand example_config_def busy_platform_def calm_platform_def
      Send_def SendProtocolMessage_def)

text \<open>
  C31. Stopping a connection drops the queued commands without giving them back to the pool: a connection that
  is restarted has lost as many commands as were queued, for good.
\<close>

theorem stop_loses_queued_commands:
  assumes "undisturbed p" and "commands_ok x" and "connection_state x = kStopping" and "connection_stop_reason x \<noteq> kNone"
  shows "\<exists>y. SwitchToStopState p True x = Some y \<and> connection_state y = kStopped \<and> send_queue y = [] \<and>
    send_pool y = send_pool x"
proof -
  let ?r = "release_connection p x"
  have r: "send_pool ?r = send_pool x"
    using assms(1) by (auto simp: release_connection_def ProcessCleanup_def call_broken_def Let_def split: option.split)
  have "commands_ok ?r"
    using assms(1,2) by (auto simp: release_connection_def ProcessCleanup_def call_broken_def Let_def split: option.split)
  then obtain z where "drop_queue p ?r = Some z" "send_queue z = []" "send_pool z = send_pool ?r"
    using drop_queue_answers [OF assms(1)] by blast
  then show ?thesis
    using assms r
    by (cases "has_state_callback z")
      (simp_all add: SwitchToStopState_def ProcessStateChange_def ProcessStateChangeToStopped_def)
qed

theorem stop_loses_queued_commands_witness:
  "\<exists>y. SwitchToStopState calm_platform True
      (example_queued\<lparr>connection_state := kStopping, connection_stop_reason := kUserRequested\<rparr>) = Some y \<and>
    connection_state y = kStopped \<and> send_queue y = [] \<and> send_pool y = [1, 2]"
proof -
  let ?x = "example_queued\<lparr>connection_state := kStopping, connection_stop_reason := kUserRequested\<rparr>"
  have "commands_ok ?x" "send_pool ?x = [1, 2]"
    using example_queued_ok by (simp, simp add: example_queued_def)
  then show ?thesis
    using stop_loses_queued_commands [of calm_platform ?x] by simp
qed

text \<open>
  C30. A stop that overtakes a pending connection attempt is not respected by that attempt: when it succeeds, the
  connection leaves \<open>kStopping\<close> for \<open>kReady\<close>, a change the documented state diagram does not have, and the
  stop command then finds its assertion on the state violated.
\<close>

theorem stop_before_connect_reports_ready:
  assumes "undisturbed p" and "\<forall>n. open_result p n = Inr fd" and "engine_queue x = []"
    and "\<not> sync_first_connect (connection_config x)"
  shows "\<exists>y. perform_all p [Start_Op False state notify, Stop_Op False, Command_Op] x = Some ({#}, y) \<and>
    connection_state y = kReady \<and> connection_stop_reason y = kUserRequested \<and> perform p Command_Op y = None"
  using assms
  by (cases state) (simp_all add: perform_def Start_def DoRestart_def Stop_def TrySetStopReason_def ProcessStateChange_def
      Let_def EnqueueCommand_def RegisterTimedEntry_def run_command_def TryConnect_def happens_def SwitchToStopState_def)

theorem stop_before_connect_reports_ready_witness:
  "\<exists>y. perform_all calm_platform [Start_Op False True True, Stop_Op False, Command_Op] example_client = Some ({#}, y) \<and>
    connection_state y = kReady \<and> connection_stop_reason y = kUserRequested \<and> perform calm_platform Command_Op y = None"
  by (rule stop_before_connect_reports_ready [of calm_platform 7])
    (simp_all add: calm_platform_def [THEN arg_cong, of open_result] example_client_expand example_config_def)

end
