(* ===== verification/Unix_Domain_Engine.thy ===== *)
theory Unix_Domain_Engine
  imports Client_Connection
begin

text \<open>
  \<^verbatim>\<open>message_passing/unix_domain/unix_domain_engine.h/.cpp\<close>: the frames of the protocol on a stream
  socket, the table of polled endpoints, and the time the engine's thread sleeps.

  A socket is the bytes that are in the stream; whoever reads fewer bytes than asked for has met the end of
  the stream. Errors of the operating system are arguments. A size is two bytes, the lower one first.
\<close>

subsection \<open>Frames\<close>

definition size_bytes :: "u16 \<Rightarrow> u8 list" where
  "size_bytes n = [ucast n, ucast (drop_bit 8 n)]"

definition bytes_size :: "u8 list \<Rightarrow> u16" where
  "bytes_size bs =
     (ucast (if 0 < length bs then bs ! 0 else 0) :: u16) + push_bit 8 (ucast (if 1 < length bs then bs ! 1 else 0) :: u16)"

definition protocol_frame :: "u8 \<Rightarrow> u8 list \<Rightarrow> u8 list" where
  "protocol_frame code message = code # size_bytes (word_of_nat (length message)) @ message"

text \<open>How many bytes the system call has taken is not looked at.\<close>

definition Engine_SendProtocolMessage ::
  "os_error + nat \<Rightarrow> u8 \<Rightarrow> u8 list \<Rightarrow> u8 list \<Rightarrow> (os_error + unit) \<times> u8 list" where
  "Engine_SendProtocolMessage sendmsg code message stream =
     (case sendmsg of
        Inl e \<Rightarrow> (Inl e, stream)
      | Inr n \<Rightarrow> (Inr (), stream @ take n (protocol_frame code message)))"

definition EIO :: os_error where
  "EIO = Other_Errno 5"

definition Engine_ReceiveProtocolMessage ::
  "os_error option \<Rightarrow> os_error option \<Rightarrow> nat \<Rightarrow> u8 list \<Rightarrow> (os_error + u8 \<times> u8 list) \<times> u8 list" where
  "Engine_ReceiveProtocolMessage header_error body_error buffer_size stream =
     (case header_error of
        Some e \<Rightarrow> (Inl e, stream)
      | None \<Rightarrow>
          if stream = [] then (Inl EPIPE, stream)
          else
            let code = hd stream;
                size = bytes_size (take 2 (tl stream));
                stream = drop 3 stream
            in if size = 0 then (Inr (code, []), stream)
               else if size > word_of_nat buffer_size then (Inl EMSGSIZE, stream)
               else case body_error of
                      Some e \<Rightarrow> (Inl e, stream)
                    | None \<Rightarrow>
                        let body = take (unat size) stream
                        in (if length body \<noteq> unat size then Inl EIO else Inr (code, body), drop (unat size) stream))"

subsection \<open>Polled endpoints\<close>

text \<open>
  A slot of the table is the file descriptor that is polled and the endpoint it belongs to, which is \<open>None\<close> for
  the null pointer. An endpoint is identified by its address. The calls of disconnect callbacks are listed; what
  they do to their connection is part of the connection.
\<close>

record poll_endpoint =
  endpoint_address :: nat
  endpoint_owner :: nat
  endpoint_fd :: int
  endpoint_max_receive_size :: nat
  endpoint_has_disconnect :: bool

record poll_table =
  poll_fds :: "int list"
  poll_endpoints :: "poll_endpoint option list"
  posix_endpoint_list :: "poll_endpoint list"
  receive_buffer_size :: nat
  disconnected :: "nat list"

definition RegisterPosixEndpoint :: "bool \<Rightarrow> poll_endpoint \<Rightarrow> poll_table \<Rightarrow> poll_table option" where
  "RegisterPosixEndpoint on_thread e t = do {
     assert_prd on_thread;
     let t = t\<lparr>receive_buffer_size := max (receive_buffer_size t) (endpoint_max_receive_size e)\<rparr>;
     let i = length (takeWhile (\<lambda>fd. \<not> fd < 0) (poll_fds t));
     let t = (if i < length (poll_fds t)
              then t\<lparr>poll_fds := (poll_fds t)[i := endpoint_fd e], poll_endpoints := (poll_endpoints t)[i := Some e]\<rparr>
              else t\<lparr>poll_fds := poll_fds t @ [endpoint_fd e], poll_endpoints := poll_endpoints t @ [Some e]\<rparr>);
     Some (t\<lparr>posix_endpoint_list := posix_endpoint_list t @ [e]\<rparr>)
   }"

text \<open>The slot has to hold an endpoint.\<close>

definition UnpollEndpoint :: "nat \<Rightarrow> poll_table \<Rightarrow> poll_table option" where
  "UnpollEndpoint i t =
     (case poll_endpoints t ! i of
        None \<Rightarrow> None
      | Some e \<Rightarrow>
          Some (t\<lparr>posix_endpoint_list := filter (\<lambda>x. endpoint_address x \<noteq> endpoint_address e) (posix_endpoint_list t),
                  poll_endpoints := (poll_endpoints t)[i := None],
                  poll_fds := (poll_fds t)[i := - 1],
                  disconnected := (if endpoint_has_disconnect e then disconnected t @ [endpoint_address e]
                                   else disconnected t)\<rparr>))"

definition is_endpoint :: "nat \<Rightarrow> poll_endpoint option \<Rightarrow> bool" where
  "is_endpoint address e = (case e of None \<Rightarrow> False | Some e \<Rightarrow> endpoint_address e = address)"

definition Engine_UnregisterPosixEndpoint :: "bool \<Rightarrow> nat \<Rightarrow> poll_table \<Rightarrow> poll_table option" where
  "Engine_UnregisterPosixEndpoint on_thread address t = do {
     assert_prd on_thread;
     let i = length (takeWhile (\<lambda>e. \<not> is_endpoint address e) (poll_endpoints t));
     if i < length (poll_endpoints t) then UnpollEndpoint i t else Some t
   }"

text \<open>The loop of the clean-up, from the slot \<open>i\<close> on; \<open>n\<close> slots are left. A polled slot without an endpoint is a null dereference.\<close>

fun cleanup_loop :: "nat \<Rightarrow> nat \<Rightarrow> nat \<Rightarrow> poll_table \<Rightarrow> poll_table option" where
  "cleanup_loop owner i 0 t = Some t"
| "cleanup_loop owner i (Suc n) t =
     (if poll_fds t ! i = - 1 then cleanup_loop owner (Suc i) n t
      else case poll_endpoints t ! i of
             None \<Rightarrow> None
           | Some e \<Rightarrow>
               if endpoint_owner e = owner then do { t \<leftarrow> UnpollEndpoint i t; cleanup_loop owner (Suc i) n t }
               else cleanup_loop owner (Suc i) n t)"

definition Engine_ProcessCleanup :: "nat \<Rightarrow> poll_table \<times> 'c queue_entry list \<Rightarrow> (poll_table \<times> 'c queue_entry list) option" where
  "Engine_ProcessCleanup owner s =
     (case s of (t, queue) \<Rightarrow> do {
        t \<leftarrow> cleanup_loop owner 0 (length (poll_fds t)) t;
        Some (t, CleanUpOwner (Some owner) queue)
      })"

subsection \<open>Sleeping\<close>

text \<open>
  The timeout of the next poll, in milliseconds, from the time of the next command and the clock. The
  clock counts nanoseconds; the conversion rounds towards zero. A negative timeout polls without a limit.
\<close>

definition to_milliseconds :: "int \<Rightarrow> int" where
  "to_milliseconds ns = (if ns < 0 then - ((- ns) div 1000000) else ns div 1000000)"

definition poll_timeout :: "time_point \<Rightarrow> time_point \<Rightarrow> int" where
  "poll_timeout next_time clock =
     (if next_time = 0 then - 1
      else
        let distance = to_milliseconds (next_time - clock) + 1
        in if distance > 2147483647 then 2147483647 else sint (word_of_int distance :: 32 word))"

definition ProcessTimerQueue ::
  "('c, 's) run_callback \<Rightarrow> time_point \<Rightarrow> time_point \<Rightarrow> 'c queue_entry list \<Rightarrow> 's \<Rightarrow> (int \<times> 'c queue_entry list \<times> 's) option" where
  "ProcessTimerQueue run now clock queue s = do {
     (next_time, queue, s) \<leftarrow> ProcessQueue run now queue s;
     Some (poll_timeout next_time clock, queue, s)
   }"

subsection \<open>Frames arrive\<close>

lemma bytes_size_bytes [simp]: "bytes_size (size_bytes n) = n"
proof -
  have low: "(ucast (ucast n :: u8) :: u16) = take_bit 8 n"
    by (rule bit_word_eqI) (auto simp: bit_simps)
  have high: "(ucast (ucast (drop_bit 8 n) :: u8) :: u16) = drop_bit 8 n"
    by (rule bit_word_eqI) (auto simp: bit_simps dest: bit_imp_le_length)
  show ?thesis
    using bits_ident [of 8 n] by (simp add: bytes_size_def size_bytes_def low high add.commute)
qed

lemma frame_parts:
  "hd (protocol_frame code m @ rest) = code"
  "take 2 (tl (protocol_frame code m @ rest)) = size_bytes (word_of_nat (length m))"
  "drop 3 (protocol_frame code m @ rest) = m @ rest"
  "protocol_frame code m @ rest \<noteq> []"
  by (simp_all add: protocol_frame_def size_bytes_def numeral_3_eq_3)

lemma receive_frame:
  fixes m :: "u8 list"
  defines "n \<equiv> word_of_nat (length m) :: u16"
  assumes "n \<le> word_of_nat buffer_size"
  shows "Engine_ReceiveProtocolMessage None None buffer_size (protocol_frame code m @ rest) =
    (Inr (code, take (unat n) m), drop (unat n) m @ rest)"
proof -
  have "unat n \<le> length m"
    by (simp add: n_def unat_of_nat mod_less_eq_dividend)
  then have "Engine_ReceiveProtocolMessage None None buffer_size s = (Inr (code, take (unat n) m), drop (unat n) m @ rest)"
    if "hd s = code" "take 2 (tl s) = size_bytes n" "drop 3 s = m @ rest" "s \<noteq> []" for s
    using that leD [OF assms(2)] by (simp add: Engine_ReceiveProtocolMessage_def Let_def del: drop_drop)
  then show ?thesis
    unfolding n_def using frame_parts by blast
qed

text \<open>The messages received one after the other from a stream.\<close>

fun receive_all :: "nat \<Rightarrow> nat \<Rightarrow> u8 list \<Rightarrow> (u8 \<times> u8 list) list \<times> u8 list" where
  "receive_all buffer_size 0 stream = ([], stream)"
| "receive_all buffer_size (Suc n) stream =
     (case Engine_ReceiveProtocolMessage None None buffer_size stream of
        (Inl _, stream) \<Rightarrow> ([], stream)
      | (Inr r, stream) \<Rightarrow> (case receive_all buffer_size n stream of (rs, stream) \<Rightarrow> (r # rs, stream)))"

lemma short_frame:
  assumes "length m \<le> buffer_size" and "buffer_size < 65536"
  shows "Engine_ReceiveProtocolMessage None None buffer_size (protocol_frame code m @ rest) = (Inr (code, m), rest)"
proof -
  have "unat (word_of_nat (length m) :: u16) = length m" "unat (word_of_nat buffer_size :: u16) = buffer_size"
    using assms by (simp_all add: unat_of_nat)
  then show ?thesis
    using receive_frame [of m buffer_size code rest] assms(1) by (simp add: word_le_nat_alt)
qed

text \<open>
  C34. With a receive buffer of less than 65536 bytes, messages that fit it survive the stream: whatever was
  sent is received again, in order, each with its code, and nothing of the following frames is touched.
\<close>

theorem frames_round_trip:
  assumes "list_all (\<lambda>(code, m). length m \<le> buffer_size) messages" and "buffer_size < 65536"
  shows "receive_all buffer_size (length messages) (concat (map (\<lambda>(code, m). protocol_frame code m) messages) @ rest) =
    (messages, rest)"
  using assms(1)
proof (induction messages)
  case (Cons cm messages)
  then show ?case
    using assms(2) by (cases cm) (simp add: short_frame)
qed simp

theorem frames_round_trip_witness:
  "receive_all 4 2 (protocol_frame 0 [7, 8] @ protocol_frame 1 [] @ [5]) = ([(0, [7, 8]), (1, [])], [5])"
  using frames_round_trip [of 4 "[(0, [7, 8]), (1, [])]" "[5]"] by (simp add: numeral_2_eq_2)

text \<open>
  C35. The size of a message is sent in 16 bits. Of a message of 65536 bytes or more, whose size modulo
  65536 fits a receive buffer of less than 65536 bytes, the receiver gets only as many bytes as the size
  modulo 65536 says, and takes the rest of the message for the next frames.
\<close>

theorem long_message_derails_stream:
  assumes "65536 \<le> length m" and "length m mod 65536 \<le> buffer_size" and "buffer_size < 65536"
  shows "Engine_ReceiveProtocolMessage None None buffer_size (protocol_frame code m @ rest) =
    (Inr (code, take (length m mod 65536) m), drop (length m mod 65536) m @ rest) \<and>
    drop (length m mod 65536) m \<noteq> []"
proof -
  have size: "unat (word_of_nat (length m) :: u16) = length m mod 65536" "unat (word_of_nat buffer_size :: u16) = buffer_size"
    using assms(3) by (simp_all add: unat_of_nat)
  have "length m mod 65536 < length m"
    using assms(1) by (simp add: less_le_trans [OF mod_less_divisor])
  then show ?thesis
    using receive_frame [of m buffer_size code rest] assms(2) size by (simp add: word_le_nat_alt)
qed

theorem long_message_derails_stream_witness:
  "Engine_ReceiveProtocolMessage None None 100 (protocol_frame 0 (replicate 65537 1) @ []) =
    (Inr (0, take 1 (replicate 65537 1)), drop 1 (replicate 65537 1) @ []) \<and> drop 1 (replicate 65537 (1 :: u8)) \<noteq> []"
  using long_message_derails_stream [of "replicate 65537 1" 100 0 "[]"] by simp

subsection \<open>The thread sleeps\<close>



subsection \<open>The table of endpoints\<close>

text \<open>A slot is polled exactly if it holds an endpoint.\<close>

definition slot_ok :: "int \<Rightarrow> poll_endpoint option \<Rightarrow> bool" where
  "slot_ok fd e = (case e of None \<Rightarrow> fd = - 1 | Some _ \<Rightarrow> 0 \<le> fd)"

definition table_ok :: "poll_table \<Rightarrow> bool" where
  "table_ok t \<longleftrightarrow> list_all2 slot_ok (poll_fds t) (poll_endpoints t)"

lemma table_ok_Register:
  "table_ok t \<Longrightarrow> 0 \<le> endpoint_fd e \<Longrightarrow> RegisterPosixEndpoint b e t = Some u \<Longrightarrow> table_ok u"
  by (auto simp: RegisterPosixEndpoint_def table_ok_def Let_def slot_ok_def split: if_splits
      intro!: list_all2_update_cong list_all2_appendI)

lemma table_ok_Unpoll: "table_ok t \<Longrightarrow> UnpollEndpoint i t = Some u \<Longrightarrow> table_ok u"
  by (auto simp: UnpollEndpoint_def table_ok_def slot_ok_def split: option.splits intro!: list_all2_update_cong)

lemma table_ok_Unregister: "table_ok t \<Longrightarrow> Engine_UnregisterPosixEndpoint b address t = Some u \<Longrightarrow> table_ok u"
  by (auto simp: Engine_UnregisterPosixEndpoint_def Let_def split: if_splits dest: table_ok_Unpoll)

definition withdrawn :: "nat \<Rightarrow> poll_endpoint option \<Rightarrow> poll_endpoint option" where
  "withdrawn owner e = (case e of None \<Rightarrow> None | Some e \<Rightarrow> if endpoint_owner e = owner then None else Some e)"

definition told :: "nat \<Rightarrow> poll_endpoint option list \<Rightarrow> nat list" where
  "told owner es = map endpoint_address (filter (\<lambda>e. endpoint_owner e = owner \<and> endpoint_has_disconnect e) (List.map_filter id es))"

lemma cleanup_loop_result:
  assumes "table_ok t" and "i + n = length (poll_fds t)"
  shows "\<exists>t'. cleanup_loop owner i n t = Some t' \<and> table_ok t' \<and>
    poll_endpoints t' = take i (poll_endpoints t) @ map (withdrawn owner) (drop i (poll_endpoints t)) \<and>
    disconnected t' = disconnected t @ told owner (drop i (poll_endpoints t))"
  using assms
proof (induction n arbitrary: i t)
  case 0
  then show ?case
    using list_all2_lengthD [of slot_ok "poll_fds t"] by (simp add: told_def List.map_filter_def table_ok_def)
next
  case (Suc n)
  let ?e = "poll_endpoints t ! i"
  have i: "i < length (poll_endpoints t)" "slot_ok (poll_fds t ! i) ?e"
    using Suc.prems list_all2_nthD [of slot_ok "poll_fds t" _ i] list_all2_lengthD [of slot_ok "poll_fds t"]
    by (auto simp: table_ok_def)
  have es: "drop i (poll_endpoints t) = ?e # drop (Suc i) (poll_endpoints t)"
    "take (Suc i) (poll_endpoints t) = take i (poll_endpoints t) @ [?e]"
    using i by (simp_all add: Cons_nth_drop_Suc take_Suc_conv_app_nth)
  show ?case
  proof (cases "\<exists>e. ?e = Some e \<and> endpoint_owner e = owner")
    case True
    then obtain e where e: "?e = Some e" "endpoint_owner e = owner" by blast
    obtain u where u: "UnpollEndpoint i t = Some u" "poll_endpoints u = (poll_endpoints t)[i := None]"
      "length (poll_fds u) = length (poll_fds t)"
      "disconnected u = disconnected t @ (if endpoint_has_disconnect e then [endpoint_address e] else [])"
      using e by (simp add: UnpollEndpoint_def)
    have "take (Suc i) (poll_endpoints u) = take i (poll_endpoints t) @ [None]"
      "drop (Suc i) (poll_endpoints u) = drop (Suc i) (poll_endpoints t)"
      using u(2) i(1) by (simp_all add: take_Suc_conv_app_nth)
    moreover have "poll_fds t ! i \<noteq> - 1"
      using i(2) e by (simp add: slot_ok_def)
    ultimately show ?thesis
      using Suc.IH [of u "Suc i"] table_ok_Unpoll [OF Suc.prems(1) u(1)] Suc.prems(2) e u es
      by (cases "endpoint_has_disconnect e") (simp_all add: told_def List.map_filter_def withdrawn_def)
  next
    case False
    then show ?thesis
      using Suc.IH [of t "Suc i"] Suc.prems es i(2)
      by (cases ?e) (auto simp: told_def List.map_filter_def withdrawn_def slot_ok_def)
  qed
qed

text \<open>
  Cleaning up after an owner never meets a slot without an endpoint; it empties exactly the slots of the owner,
  calls the disconnect callback of each of them once, in the order of the slots, and removes exactly the owner's
  commands.
\<close>

lemma cleanup_withdraws_owner:
  assumes "table_ok t"
  shows "\<exists>t'. Engine_ProcessCleanup owner (t, queue) = Some (t', filter (\<lambda>x. entry_owner x \<noteq> Some owner) queue) \<and>
    table_ok t' \<and> poll_endpoints t' = map (withdrawn owner) (poll_endpoints t) \<and>
    disconnected t' = disconnected t @ told owner (poll_endpoints t)"
  using cleanup_loop_result [of t 0 "length (poll_fds t)" owner] assms
  by (auto simp: Engine_ProcessCleanup_def CleanUpOwner_def)


end
