(* ===== verification/Unix_Domain_Server.thy ===== *)
theory Unix_Domain_Server
  imports Unix_Domain_Engine
begin

text \<open>
  \<^verbatim>\<open>message_passing/unix_domain/unix_domain_server.h/.cpp\<close>: a server and its connections, on the table of
  endpoints of the engine, which it shares with other owners.

  The operations run on the thread of the engine, as its endpoints' callbacks do; the thread of a request to disconnect is
  an argument. So is what system calls and the callbacks of the user report, and which clients the callbacks for a
  new client and for a message request to disconnect; the callback for a client that has gone requests nothing. Objects are identified by their
  addresses. Calls of callbacks and closed descriptors are recorded. Using a connection that has been destroyed is \<open>None\<close>.
\<close>

datatype user_data = Connection_Handler | Plain_Data

datatype server_event =
    Fd_Opened int
  | Fd_Closed int
  | Client_Accepted nat
  | Client_Disconnected user_data nat
  | Request_Received user_data nat "u8 list"
  | Send_Received user_data nat "u8 list"

record server_connection =
  connection_address :: nat
  connection_fd :: int
  connection_data :: "user_data option"

record unix_domain_server =
  server_address :: nat
  listener_address :: nat
  server_fd :: int
  max_request_size :: nat
  max_reply_size :: nat
  max_notify_size :: nat
  endpoint_table :: poll_table
  listener_commands :: "unit queue_entry list"
  server_connections :: "server_connection list"
  server_events :: "server_event list"

definition UnixDomainServer :: "nat \<Rightarrow> nat \<Rightarrow> nat \<Rightarrow> nat \<Rightarrow> nat \<Rightarrow> poll_table \<Rightarrow> unix_domain_server" where
  "UnixDomainServer address listener send_size reply_size notify_size t =
     \<lparr>server_address = address, listener_address = listener, server_fd = - 1, max_request_size = send_size,
      max_reply_size = reply_size, max_notify_size = notify_size, endpoint_table = t, listener_commands = [],
      server_connections = [], server_events = []\<rparr>"

definition emits :: "server_event list \<Rightarrow> unix_domain_server \<Rightarrow> unix_domain_server" where
  "emits es x = x\<lparr>server_events := server_events x @ es\<rparr>"

text \<open>The events of the destructor of a connection.\<close>

definition destroy_events :: "server_connection \<Rightarrow> server_event list" where
  "destroy_events c =
     (case connection_data c of None \<Rightarrow> [] | Some d \<Rightarrow> [Client_Disconnected d (connection_address c)]) @
     [Fd_Closed (connection_fd c)]"

text \<open>The disconnect callback of an endpoint destroys the connection that owns itself. There has to be one.\<close>

definition destroy_connection :: "nat \<Rightarrow> unix_domain_server \<Rightarrow> unix_domain_server option" where
  "destroy_connection address x =
     (case find (\<lambda>c. connection_address c = address) (server_connections x) of
        None \<Rightarrow> None
      | Some c \<Rightarrow> Some (emits (destroy_events c)
          (x\<lparr>server_connections := filter (\<lambda>c. connection_address c \<noteq> address) (server_connections x)\<rparr>)))"

fun destroy_connections :: "nat list \<Rightarrow> unix_domain_server \<Rightarrow> unix_domain_server option" where
  "destroy_connections [] x = Some x"
| "destroy_connections (a # as) x = do { x \<leftarrow> destroy_connection a x; destroy_connections as x }"

text \<open>The disconnect callbacks that an operation on the table has called.\<close>

definition with_table :: "poll_table \<Rightarrow> unix_domain_server \<Rightarrow> unix_domain_server option" where
  "with_table t x =
     destroy_connections (drop (length (disconnected (endpoint_table x))) (disconnected t)) (x\<lparr>endpoint_table := t\<rparr>)"

definition unregister :: "bool \<Rightarrow> nat \<Rightarrow> unix_domain_server \<Rightarrow> unix_domain_server option" where
  "unregister on_thread address x = do {
     t \<leftarrow> Engine_UnregisterPosixEndpoint on_thread address (endpoint_table x);
     with_table t x
   }"

text \<open>A request is made on the thread of the engine or on another one.\<close>

definition RequestDisconnect :: "bool \<Rightarrow> server_connection \<Rightarrow> unix_domain_server \<Rightarrow> unix_domain_server option" where
  "RequestDisconnect on_thread c x = unregister on_thread (connection_address c) x"

text \<open>The requests that a callback of the user makes, for connections that have to exist.\<close>

definition live_connection :: "nat \<Rightarrow> unix_domain_server \<Rightarrow> server_connection option" where
  "live_connection address x = find (\<lambda>c. connection_address c = address) (server_connections x)"

fun disconnect_all :: "nat list \<Rightarrow> unix_domain_server \<Rightarrow> unix_domain_server option" where
  "disconnect_all [] x = Some x"
| "disconnect_all (a # as) x = do {
     c \<leftarrow> live_connection a x;
     x \<leftarrow> RequestDisconnect True c x;
     disconnect_all as x
   }"

definition AcceptConnection :: "user_data \<Rightarrow> server_connection \<Rightarrow> unix_domain_server \<Rightarrow> unix_domain_server option" where
  "AcceptConnection d c x = do {
     t \<leftarrow> RegisterPosixEndpoint True \<lparr>endpoint_address = connection_address c, endpoint_owner = server_address x,
       endpoint_fd = connection_fd c, endpoint_max_receive_size = max_request_size x, endpoint_has_disconnect = True\<rparr>
       (endpoint_table x);
     Some (emits [Client_Accepted (connection_address c)]
       (x\<lparr>endpoint_table := t, server_connections := server_connections x @ [c\<lparr>connection_data := Some d\<rparr>]\<rparr>))
   }"

text \<open>
  Accepting a descriptor may not fail. The credentials of the peer are known or not. The connect callback may
  request to disconnect other clients.
\<close>

definition ProcessConnect ::
  "os_error + int \<Rightarrow> bool \<Rightarrow> nat \<Rightarrow> nat list \<Rightarrow> user_data option \<Rightarrow> unix_domain_server \<Rightarrow> unix_domain_server option" where
  "ProcessConnect accepted_fd credentials address requests data_expected x =
     (case accepted_fd of
        Inl _ \<Rightarrow> None
      | Inr data_fd \<Rightarrow>
          let x = emits [Fd_Opened data_fd] x;
              c = \<lparr>connection_address = address, connection_fd = data_fd, connection_data = None\<rparr>
          in if \<not> credentials then Some (emits [Fd_Closed data_fd] x)
             else do {
               x \<leftarrow> disconnect_all requests x;
               case data_expected of
                 None \<Rightarrow> Some (emits (destroy_events c) x)
               | Some d \<Rightarrow> AcceptConnection d c x
             })"

text \<open>
  The connection's user data has to be there; the handler or the callbacks may request to disconnect clients, also the one
  whose message they handle, and report whether they succeeded.
\<close>

definition ProcessInput ::
  "os_error + u8 \<times> u8 list \<Rightarrow> nat list \<Rightarrow> bool \<Rightarrow> server_connection \<Rightarrow> unix_domain_server \<Rightarrow>
   (bool \<times> unix_domain_server) option" where
  "ProcessInput received requests handled c x =
     (case connection_data c of
        None \<Rightarrow> None
      | Some d \<Rightarrow>
          (case received of
             Inl _ \<Rightarrow> Some (False, x)
           | Inr (code, message) \<Rightarrow>
               if code = client_to_server_code REQUEST then
                 map_option (Pair handled) (disconnect_all requests (emits [Request_Received d (connection_address c) message] x))
               else if code = client_to_server_code SEND then
                 map_option (Pair handled) (disconnect_all requests (emits [Send_Received d (connection_address c) message] x))
               else Some (False, x)))"

text \<open>Withdrawing the endpoint needs the connection, which its callback may have destroyed.\<close>

definition connection_input ::
  "os_error + u8 \<times> u8 list \<Rightarrow> nat list \<Rightarrow> bool \<Rightarrow> server_connection \<Rightarrow> unix_domain_server \<Rightarrow> unix_domain_server option" where
  "connection_input received requests handled c x = do {
     (ok, x) \<leftarrow> ProcessInput received requests handled c x;
     if \<not> ok then do { c \<leftarrow> live_connection (connection_address c) x; unregister True (connection_address c) x } else Some x
   }"

definition ServerConnection_Reply ::
  "os_error + nat \<Rightarrow> u8 list \<Rightarrow> u8 list \<Rightarrow> unix_domain_server \<Rightarrow> (os_error + unit) \<times> u8 list" where
  "ServerConnection_Reply sendmsg message stream x =
     (if length message > max_reply_size x then (Inl EMSGSIZE, stream)
      else Engine_SendProtocolMessage sendmsg (server_to_client_code REPLY) message stream)"

definition ServerConnection_Notify ::
  "os_error + nat \<Rightarrow> u8 list \<Rightarrow> u8 list \<Rightarrow> unix_domain_server \<Rightarrow> (os_error + unit) \<times> u8 list" where
  "ServerConnection_Notify sendmsg message stream x =
     (if length message > max_notify_size x then (Inl EMSGSIZE, stream)
      else Engine_SendProtocolMessage sendmsg (server_to_client_code NOTIFY) message stream)"

text \<open>The results of creating, binding and listening. The listener is registered by a command.\<close>

definition StartListening ::
  "os_error + int \<Rightarrow> os_error option \<Rightarrow> os_error option \<Rightarrow> unix_domain_server \<Rightarrow> (os_error + unit) \<times> unix_domain_server" where
  "StartListening socket bound listening x =
     (case socket of
        Inl e \<Rightarrow> (Inl e, x)
      | Inr fd \<Rightarrow>
          let x = (emits [Fd_Opened fd] x)\<lparr>server_fd := fd\<rparr>
          in case bound of
               Some e \<Rightarrow> (Inl e, (emits [Fd_Closed fd] x)\<lparr>server_fd := - 1\<rparr>)
             | None \<Rightarrow>
                 (case listening of
                    Some e \<Rightarrow> (Inl e, (emits [Fd_Closed fd] x)\<lparr>server_fd := - 1\<rparr>)
                  | None \<Rightarrow> (Inr (), x\<lparr>listener_commands :=
                      RegisterTimedEntry 0 () (Some (server_address x)) (listener_commands x)\<rparr>)))"

definition register_listener :: "unix_domain_server \<Rightarrow> unix_domain_server option" where
  "register_listener x = do {
     t \<leftarrow> RegisterPosixEndpoint True \<lparr>endpoint_address = listener_address x, endpoint_owner = server_address x,
       endpoint_fd = server_fd x, endpoint_max_receive_size = 0, endpoint_has_disconnect = False\<rparr> (endpoint_table x);
     Some (x\<lparr>endpoint_table := t\<rparr>)
   }"

definition StopListening :: "unix_domain_server \<Rightarrow> unix_domain_server option" where
  "StopListening x =
     (if server_fd x \<ge> 0 then do {
        (t, queue) \<leftarrow> Engine_ProcessCleanup (server_address x) (endpoint_table x, listener_commands x);
        x \<leftarrow> with_table t (x\<lparr>listener_commands := queue\<rparr>);
        Some ((emits [Fd_Closed (server_fd x)] x)\<lparr>server_fd := - 1\<rparr>)
      }
      else Some x)"

subsection \<open>Runs of a server\<close>

abbreviation polled :: "poll_table \<Rightarrow> poll_endpoint list" where
  "polled t \<equiv> List.map_filter id (poll_endpoints t)"

definition fresh :: "nat \<Rightarrow> unix_domain_server \<Rightarrow> bool" where
  "fresh address x \<longleftrightarrow> address \<notin> endpoint_address ` set (polled (endpoint_table x))"

text \<open>
  The addresses of objects that are registered with the engine are distinct, descriptors are not negative, and a server
  is started when it is not listening and accepts clients only while it is.
\<close>

inductive server_step :: "unix_domain_server \<Rightarrow> unix_domain_server \<Rightarrow> bool" where
  start: "server_fd x = - 1 \<Longrightarrow> 0 \<le> fd \<Longrightarrow> StartListening (Inr fd) bound listening x = (r, y) \<Longrightarrow> server_step x y"
| listen: "listener_commands x = e # rest \<Longrightarrow> fresh (listener_address x) x \<Longrightarrow> 0 \<le> server_fd x \<Longrightarrow>
    register_listener (x\<lparr>listener_commands := rest\<rparr>) = Some y \<Longrightarrow> server_step x y"
| connect: "0 \<le> server_fd x \<Longrightarrow> 0 \<le> fd \<Longrightarrow> fresh address x \<Longrightarrow> ProcessConnect (Inr fd) credentials address requests d x = Some y \<Longrightarrow> server_step x y"
| input: "c \<in> set (server_connections x) \<Longrightarrow> connection_input received requests handled c x = Some y \<Longrightarrow> server_step x y"
| disconnect: "c \<in> set (server_connections x) \<Longrightarrow> RequestDisconnect True c x = Some y \<Longrightarrow> server_step x y"
| stop: "StopListening x = Some y \<Longrightarrow> server_step x y"

text \<open>The descriptors that were opened and closed, and the clients that were accepted and told to be gone.\<close>

definition opened :: "server_event list \<Rightarrow> int multiset" where
  "opened es = mset (List.map_filter (\<lambda>e. case e of Fd_Opened fd \<Rightarrow> Some fd | _ \<Rightarrow> None) es)"

definition closed :: "server_event list \<Rightarrow> int multiset" where
  "closed es = mset (List.map_filter (\<lambda>e. case e of Fd_Closed fd \<Rightarrow> Some fd | _ \<Rightarrow> None) es)"

definition joined :: "server_event list \<Rightarrow> nat multiset" where
  "joined es = mset (List.map_filter (\<lambda>e. case e of Client_Accepted a \<Rightarrow> Some a | _ \<Rightarrow> None) es)"

definition departed :: "server_event list \<Rightarrow> nat multiset" where
  "departed es = mset (List.map_filter (\<lambda>e. case e of Client_Disconnected _ a \<Rightarrow> Some a | _ \<Rightarrow> None) es)"

text \<open>The balance of a server, with descriptors \<open>F\<close> that it has opened and not handed to a connection yet.\<close>

definition balanced :: "int multiset \<Rightarrow> unix_domain_server \<Rightarrow> bool" where
  "balanced F x \<longleftrightarrow>
     opened (server_events x) = closed (server_events x) + mset (map connection_fd (server_connections x)) +
       (if server_fd x = - 1 then {#} else {#server_fd x#}) + F \<and>
     joined (server_events x) = departed (server_events x) + mset (map connection_address (server_connections x))"

definition server_ok :: "int multiset \<Rightarrow> unix_domain_server \<Rightarrow> bool" where
  "server_ok F x \<longleftrightarrow>
     table_ok (endpoint_table x) \<and> distinct (map endpoint_address (polled (endpoint_table x))) \<and>
     mset (told (server_address x) (poll_endpoints (endpoint_table x))) = mset (map connection_address (server_connections x)) \<and>
     list_all (\<lambda>c. connection_data c \<noteq> None) (server_connections x) \<and> - 1 \<le> server_fd x \<and> (server_fd x = - 1 \<longrightarrow> server_connections x = []) \<and> balanced F x"

lemma event_counts [simp]:
  "opened (es @ fs) = opened es + opened fs"
  "closed (es @ fs) = closed es + closed fs"
  "joined (es @ fs) = joined es + joined fs"
  "departed (es @ fs) = departed es + departed fs"
  "opened [] = {#}" "closed [] = {#}" "joined [] = {#}" "departed [] = {#}"
  by (simp_all add: opened_def closed_def joined_def departed_def List.map_filter_def)

lemma event_counts_Cons [simp]:
  "opened (e # es) = (case e of Fd_Opened fd \<Rightarrow> {#fd#} | _ \<Rightarrow> {#}) + opened es"
  "closed (e # es) = (case e of Fd_Closed fd \<Rightarrow> {#fd#} | _ \<Rightarrow> {#}) + closed es"
  "joined (e # es) = (case e of Client_Accepted a \<Rightarrow> {#a#} | _ \<Rightarrow> {#}) + joined es"
  "departed (e # es) = (case e of Client_Disconnected _ a \<Rightarrow> {#a#} | _ \<Rightarrow> {#}) + departed es"
  by (simp_all add: opened_def closed_def joined_def departed_def List.map_filter_def split: server_event.split)

lemma emits_simps [simp]:
  "server_events (emits es x) = server_events x @ es"
  "server_connections (emits es x) = server_connections x"
  "server_fd (emits es x) = server_fd x"
  "endpoint_table (emits es x) = endpoint_table x"
  "server_address (emits es x) = server_address x"
  by (simp_all add: emits_def)

lemma remove_address:
  assumes "distinct (map connection_address cs)" and "c \<in> set cs"
  shows "mset cs = add_mset c (mset (filter (\<lambda>d. connection_address d \<noteq> connection_address c) cs))"
    and "find (\<lambda>d. connection_address d = connection_address c) cs = Some c"
proof -
  obtain as bs where cs: "cs = as @ c # bs"
    using assms(2) by (meson split_list)
  have other: "list_all (\<lambda>d. connection_address d \<noteq> connection_address c) (as @ bs)"
    using assms(1) by (auto simp: cs list_all_iff rev_image_eqI)
  then have "filter (\<lambda>d. connection_address d \<noteq> connection_address c) (as @ bs) = as @ bs"
    by (simp only: filter_id_conv list_all_iff)
  then show "mset cs = add_mset c (mset (filter (\<lambda>d. connection_address d \<noteq> connection_address c) cs))"
    by (simp add: cs)
  have "find (\<lambda>d. connection_address d = connection_address c) (as @ c # bs) = Some c"
    using other by (induction as) auto
  then show "find (\<lambda>d. connection_address d = connection_address c) cs = Some c"
    by (simp add: cs)
qed

text \<open>Destroying a connection keeps the balance, and a connection that exists can be destroyed.\<close>

lemma destroy_connection_result:
  assumes "balanced F x" and "list_all (\<lambda>c. connection_data c \<noteq> None) (server_connections x)"
    and "distinct (map connection_address (server_connections x))" and "a \<in> connection_address ` set (server_connections x)"
  shows "\<exists>y. destroy_connection a x = Some y \<and> balanced F y \<and>
    server_connections y = filter (\<lambda>c. connection_address c \<noteq> a) (server_connections x) \<and>
    endpoint_table y = endpoint_table x \<and> server_address y = server_address x \<and> server_fd y = server_fd x"
proof -
  obtain c where c: "c \<in> set (server_connections x)" "a = connection_address c"
    using assms(4) by blast
  obtain d where d: "connection_data c = Some d"
    using assms(2) c(1) by (auto simp: list_all_iff)
  have cs: "mset (map f (server_connections x)) =
      add_mset (f c) (mset (map f (filter (\<lambda>d. connection_address d \<noteq> a) (server_connections x))))" for f :: "server_connection \<Rightarrow> 'b"
    using remove_address(1) [OF assms(3) c(1)] c(2) by (metis image_mset_add_mset mset_map)
  show ?thesis
    using assms(1) remove_address(2) [OF assms(3) c(1)] cs [of connection_fd] cs [of connection_address] d c(2)
    by (simp add: destroy_connection_def balanced_def destroy_events_def)
qed

lemma destroy_connections_result:
  assumes "balanced F x" and "list_all (\<lambda>c. connection_data c \<noteq> None) (server_connections x)"
    and "distinct (map connection_address (server_connections x))"
    and "distinct as" and "set as \<subseteq> connection_address ` set (server_connections x)"
  shows "\<exists>y. destroy_connections as x = Some y \<and> balanced F y \<and>
    server_connections y = filter (\<lambda>c. connection_address c \<notin> set as) (server_connections x) \<and>
    endpoint_table y = endpoint_table x \<and> server_address y = server_address x \<and> server_fd y = server_fd x"
  using assms
proof (induction as arbitrary: x)
  case (Cons a as)
  obtain z where z: "destroy_connection a x = Some z" "balanced F z"
    "server_connections z = filter (\<lambda>c. connection_address c \<noteq> a) (server_connections x)"
    "endpoint_table z = endpoint_table x" "server_address z = server_address x" "server_fd z = server_fd x"
    using destroy_connection_result [OF Cons.prems(1-3), of a] Cons.prems(5) by auto
  have "list_all (\<lambda>c. connection_data c \<noteq> None) (server_connections z)"
    "distinct (map connection_address (server_connections z))"
    using Cons.prems(2,3) z(3) by (auto simp: list_all_iff distinct_map inj_on_def)
  moreover have "set as \<subseteq> connection_address ` set (server_connections z)"
  proof
    fix b
    assume b: "b \<in> set as"
    then obtain c where "c \<in> set (server_connections x)" "b = connection_address c"
      using Cons.prems(5) by auto
    then show "b \<in> connection_address ` set (server_connections z)"
      using b Cons.prems(4) z(3) by auto
  qed
  ultimately show ?case
    using Cons.IH [of z] Cons.prems(4) z by (auto simp: conj_commute)
qed simp

lemma told_simps [simp]:
  "told s [] = []"
  "told s (None # es) = told s es"
  "told s (Some e # es) = (if endpoint_owner e = s \<and> endpoint_has_disconnect e then endpoint_address e # told s es else told s es)"
  "told s (es @ fs) = told s es @ told s fs"
  by (simp_all add: told_def List.map_filter_def)

lemma polled_simps [simp]:
  "List.map_filter id (es @ fs) = List.map_filter id es @ List.map_filter id fs"
  "List.map_filter id (None # es) = List.map_filter id es"
  "List.map_filter id (Some e # es) = e # List.map_filter id es"
  "List.map_filter id [] = []"
  by (simp_all add: List.map_filter_def)

lemma set_polled: "f \<in> set (List.map_filter id es) \<longleftrightarrow> Some f \<in> set es"
  by (force simp: List.map_filter_def)

lemma told_polled: "set (told s es) \<subseteq> endpoint_address ` set (List.map_filter id es)"
  by (auto simp: told_def)

lemma told_distinct: "distinct (map endpoint_address (List.map_filter id es)) \<Longrightarrow> distinct (told s es)"
  unfolding told_def by (rule distinct_map_filter)

lemma first_endpoint:
  assumes "a \<in> set (told s es)" and "distinct (map endpoint_address (List.map_filter id es))"
  obtains xs e ys where "es = xs @ Some e # ys" and "endpoint_address e = a" and "endpoint_owner e = s"
    and "endpoint_has_disconnect e" and "length (takeWhile (\<lambda>e. \<not> is_endpoint a e) es) = length xs"
proof -
  obtain e where e: "e \<in> set (List.map_filter id es)" "endpoint_address e = a" "endpoint_owner e = s" "endpoint_has_disconnect e"
    using assms(1) by (auto simp: told_def)
  then obtain xs ys where es: "es = xs @ Some e # ys"
    by (auto simp: set_polled dest!: split_list)
  have "endpoint_address e \<notin> endpoint_address ` set (List.map_filter id xs)"
    using assms(2) by (simp add: es)
  then have "\<forall>f \<in> set xs. \<not> is_endpoint a f"
    using e(2) by (auto simp: is_endpoint_def split: option.splits) (metis image_eqI set_polled)
  then have "takeWhile (\<lambda>e. \<not> is_endpoint a e) es = xs"
    using e(2) by (simp add: es is_endpoint_def takeWhile_append2)
  then show ?thesis
    using that es e by simp
qed

lemma server_ok_addresses:
  assumes "server_ok F x"
  shows "distinct (map connection_address (server_connections x))"
    and "set (told (server_address x) (poll_endpoints (endpoint_table x))) = connection_address ` set (server_connections x)"
proof -
  have "mset (told (server_address x) (poll_endpoints (endpoint_table x))) = mset (map connection_address (server_connections x))"
    "distinct (told (server_address x) (poll_endpoints (endpoint_table x)))"
    using assms told_distinct by (auto simp: server_ok_def)
  then show "distinct (map connection_address (server_connections x))"
    "set (told (server_address x) (poll_endpoints (endpoint_table x))) = connection_address ` set (server_connections x)"
    by (metis mset_eq_imp_distinct_iff, metis list.set_map mset_eq_setD)
qed

lemma unregister_result:
  assumes ok: "server_ok F x" and c: "c \<in> set (server_connections x)"
  shows "\<exists>y. unregister True (connection_address c) x = Some y \<and> server_ok F y \<and>
    server_connections y = filter (\<lambda>d. connection_address d \<noteq> connection_address c) (server_connections x) \<and>
    server_fd y = server_fd x \<and> set (polled (endpoint_table y)) \<subseteq> set (polled (endpoint_table x))"
proof -
  let ?a = "connection_address c" and ?t = "endpoint_table x"
  have "?a \<in> set (told (server_address x) (poll_endpoints ?t))"
    using server_ok_addresses(2) [OF ok] c by simp
  then obtain xs e ys where e: "poll_endpoints ?t = xs @ Some e # ys" "endpoint_address e = ?a" "endpoint_owner e = server_address x"
    "endpoint_has_disconnect e" "length (takeWhile (\<lambda>e. \<not> is_endpoint ?a e) (poll_endpoints ?t)) = length xs"
    using ok first_endpoint by (metis server_ok_def)
  obtain t where t: "Engine_UnregisterPosixEndpoint True ?a ?t = Some t" "poll_endpoints t = xs @ None # ys"
    "disconnected t = disconnected ?t @ [?a]"
    using e by (simp add: Engine_UnregisterPosixEndpoint_def Let_def UnpollEndpoint_def)
  let ?x = "x\<lparr>endpoint_table := t\<rparr>"
  have x: "balanced F ?x" "list_all (\<lambda>c. connection_data c \<noteq> None) (server_connections ?x)"
    "distinct (map connection_address (server_connections ?x))"
    using ok server_ok_addresses(1) [OF ok] by (simp_all add: server_ok_def balanced_def)
  obtain y where y: "destroy_connection ?a ?x = Some y" "balanced F y"
    "server_connections y = filter (\<lambda>d. connection_address d \<noteq> ?a) (server_connections x)"
    "endpoint_table y = t" "server_address y = server_address x" "server_fd y = server_fd x"
    using destroy_connection_result [OF x, of ?a] c by auto
  have "mset (map connection_address (server_connections x)) = add_mset ?a (mset (map connection_address (server_connections y)))"
    using remove_address(1) [OF server_ok_addresses(1) [OF ok] c] y(3) by (metis image_mset_add_mset mset_map)
  then have "mset (told (server_address x) (poll_endpoints t)) = mset (map connection_address (server_connections y))"
    using ok e t(2) by (simp add: server_ok_def)
  then have "server_ok F y"
    using ok y e t table_ok_Unregister [of ?t True ?a t] by (auto simp: server_ok_def list_all_iff)
  moreover have "set (polled t) \<subseteq> set (polled ?t)" using e(1) t(2) by auto
  ultimately show ?thesis
    using t y by (auto simp: unregister_def with_table_def)
qed

lemma live_connection_Some: "live_connection a x = Some c \<Longrightarrow> c \<in> set (server_connections x) \<and> connection_address c = a"
  by (auto simp: live_connection_def find_Some_iff)

lemma live_connection_None: "live_connection a x = None \<longleftrightarrow> a \<notin> connection_address ` set (server_connections x)"
  by (auto simp: live_connection_def find_None_iff)

lemma disconnect_all_ok:
  assumes "disconnect_all as x = Some y" and "server_ok F x"
  shows "server_ok F y \<and> server_fd y = server_fd x \<and> set (polled (endpoint_table y)) \<subseteq> set (polled (endpoint_table x)) \<and>
    server_connections y = filter (\<lambda>c. connection_address c \<notin> set as) (server_connections x)"
  using assms
proof (induction as arbitrary: x)
  case (Cons a as)
  then obtain c z where c: "live_connection a x = Some c" and z: "RequestDisconnect True c x = Some z" "disconnect_all as z = Some y"
    by (auto simp: bind_eq_Some)
  from unregister_result [OF Cons.prems(2), of c] live_connection_Some [OF c] z(1)
  have ok: "server_ok F z" and rest: "server_fd z = server_fd x"
    "set (polled (endpoint_table z)) \<subseteq> set (polled (endpoint_table x))"
    "server_connections z = filter (\<lambda>d. connection_address d \<noteq> a) (server_connections x)"
    by (auto simp: RequestDisconnect_def)
  have "filter (\<lambda>c. connection_address c \<notin> set as) (server_connections z) =
      filter (\<lambda>c. connection_address c \<notin> set (a # as)) (server_connections x)"
    by (simp add: rest(3) conj_commute)
  with Cons.IH [OF z(2) ok] rest(1) subset_trans [OF _ rest(2)] show ?case by metis
qed simp

lemma disconnect_all_returns:
  assumes "server_ok F x" and "distinct as" and "set as \<subseteq> connection_address ` set (server_connections x)"
  shows "\<exists>y. disconnect_all as x = Some y"
  using assms
proof (induction as arbitrary: x)
  case (Cons a as)
  then obtain c where c: "live_connection a x = Some c" using live_connection_None [of a x] by auto
  obtain z where z: "RequestDisconnect True c x = Some z" "server_ok F z"
    "server_connections z = filter (\<lambda>d. connection_address d \<noteq> a) (server_connections x)"
    using unregister_result [OF Cons.prems(1), of c] live_connection_Some [OF c] by (auto simp: RequestDisconnect_def)
  have "set as \<subseteq> connection_address ` set (server_connections z)"
  proof
    fix b
    assume b: "b \<in> set as"
    then obtain d where "d \<in> set (server_connections x)" "b = connection_address d" using Cons.prems(3) by auto
    with b Cons.prems(2) z(3) show "b \<in> connection_address ` set (server_connections z)" by auto
  qed
  from Cons.IH [OF z(2) _ this] Cons.prems(2) c z(1) show ?case by simp
qed simp

lemma register_result:
  assumes "table_ok t" and "0 \<le> endpoint_fd e"
  obtains u xs ys where "RegisterPosixEndpoint True e t = Some u" and "table_ok u" and "poll_endpoints u = xs @ Some e # ys"
    and "polled t = List.map_filter id (xs @ ys)" and "\<And>s. told s (poll_endpoints t) = told s (xs @ ys)"
proof -
  let ?i = "length (takeWhile (\<lambda>fd. \<not> fd < 0) (poll_fds t))"
  obtain u where u: "RegisterPosixEndpoint True e t = Some u"
    by (simp add: RegisterPosixEndpoint_def Let_def)
  have ok: "table_ok u"
    by (rule table_ok_Register [OF assms u])
  show ?thesis
  proof (cases "?i < length (poll_fds t)")
    case True
    have len: "length (poll_fds t) = length (poll_endpoints t)"
      using assms(1) list_all2_lengthD by (auto simp: table_ok_def)
    have "slot_ok (poll_fds t ! ?i) (poll_endpoints t ! ?i)"
      using assms(1) True list_all2_nthD by (auto simp: table_ok_def)
    then have "poll_endpoints t ! ?i = None"
      using nth_length_takeWhile [OF True] by (auto simp: slot_ok_def split: option.splits)
    then have "poll_endpoints t = take ?i (poll_endpoints t) @ None # drop (Suc ?i) (poll_endpoints t)"
      using True len by (metis id_take_nth_drop)
    moreover have "poll_endpoints u = take ?i (poll_endpoints t) @ Some e # drop (Suc ?i) (poll_endpoints t)"
      using u True len by (auto simp: RegisterPosixEndpoint_def Let_def upd_conv_take_nth_drop)
    ultimately show ?thesis
      using that [OF u ok] by (metis polled_simps(1,2) told_simps(2,4))
  next
    case False
    then have "poll_endpoints u = poll_endpoints t @ Some e # []"
      using u by (auto simp: RegisterPosixEndpoint_def Let_def)
    then show ?thesis
      using that [OF u ok] by simp
  qed
qed

lemma register_ok:
  assumes "server_ok F x" and "0 \<le> endpoint_fd e" and "fresh (endpoint_address e) x"
  obtains u where "RegisterPosixEndpoint True e (endpoint_table x) = Some u" and "table_ok u"
    and "distinct (map endpoint_address (polled u))"
    and "mset (told (server_address x) (poll_endpoints u)) = mset (map connection_address (server_connections x)) +
      (if endpoint_owner e = server_address x \<and> endpoint_has_disconnect e then {#endpoint_address e#} else {#})"
proof -
  have t: "table_ok (endpoint_table x)"
    using assms(1) by (simp add: server_ok_def)
  obtain u xs ys where u: "RegisterPosixEndpoint True e (endpoint_table x) = Some u" "table_ok u"
    "poll_endpoints u = xs @ Some e # ys" "polled (endpoint_table x) = List.map_filter id (xs @ ys)"
    "\<And>s. told s (poll_endpoints (endpoint_table x)) = told s (xs @ ys)"
    by (rule register_result [OF t assms(2)]) (rule that)
  have "distinct (map endpoint_address (polled u))"
    using assms(1,3) u(3,4) by (auto simp: server_ok_def fresh_def)
  moreover have "mset (told (server_address x) (xs @ ys)) = mset (map connection_address (server_connections x))"
    using assms(1) u(5) by (simp add: server_ok_def)
  ultimately show ?thesis
    using that [OF u(1,2)] u(3) by auto
qed

lemma server_ok_emits:
  "server_ok F x \<Longrightarrow> opened es = closed es \<Longrightarrow> joined es = {#} \<Longrightarrow> departed es = {#} \<Longrightarrow> server_ok F (emits es x)"
  by (simp add: server_ok_def balanced_def)

lemma server_ok_listen:
  assumes "server_ok F x" and "fresh (listener_address x) x" and "0 \<le> server_fd x"
    and "register_listener (x\<lparr>listener_commands := rest\<rparr>) = Some y"
  shows "server_ok F y"
proof -
  let ?e = "\<lparr>endpoint_address = listener_address x, endpoint_owner = server_address x, endpoint_fd = server_fd x,
    endpoint_max_receive_size = 0, endpoint_has_disconnect = False\<rparr>"
  obtain u where "RegisterPosixEndpoint True ?e (endpoint_table x) = Some u" "table_ok u" "distinct (map endpoint_address (polled u))"
    "mset (told (server_address x) (poll_endpoints u)) = mset (map connection_address (server_connections x))"
    using register_ok [OF assms(1), of ?e] assms(2,3) by auto
  then show ?thesis
    using assms(1,4) by (auto simp: register_listener_def server_ok_def balanced_def)
qed

lemma server_ok_connect:
  assumes "server_ok {#} x" and "0 \<le> fd" and "fresh address x" and "0 \<le> server_fd x"
    and "ProcessConnect (Inr fd) credentials address requests d x = Some y"
  shows "server_ok {#} y"
proof (cases credentials)
  case False
  then show ?thesis
    using assms(1,5) server_ok_emits [OF assms(1), of "[Fd_Opened fd, Fd_Closed fd]"]
    by (auto simp: ProcessConnect_def Let_def emits_def)
next
  case True
  let ?c = "\<lparr>connection_address = address, connection_fd = fd, connection_data = None\<rparr>"
  have "server_ok {#fd#} (emits [Fd_Opened fd] x)"
    using assms(1) by (simp add: server_ok_def balanced_def)
  moreover obtain z where z: "disconnect_all requests (emits [Fd_Opened fd] x) = Some z"
    and y: "(case d of None \<Rightarrow> Some (emits (destroy_events ?c) z) | Some d \<Rightarrow> AcceptConnection d ?c z) = Some y"
    using assms(5) True by (auto simp: ProcessConnect_def Let_def bind_eq_Some)
  ultimately have ok: "server_ok {#fd#} z" and fd: "0 \<le> server_fd z" and fresh: "fresh address z"
    using disconnect_all_ok [OF z] assms(3,4) by (auto simp: fresh_def)
  show ?thesis
  proof (cases d)
    case None
    then show ?thesis using ok y by (auto simp: server_ok_def balanced_def destroy_events_def)
  next
    case (Some data)
    let ?e = "\<lparr>endpoint_address = address, endpoint_owner = server_address z, endpoint_fd = fd,
      endpoint_max_receive_size = max_request_size z, endpoint_has_disconnect = True\<rparr>"
    obtain u where u: "RegisterPosixEndpoint True ?e (endpoint_table z) = Some u" "table_ok u" "distinct (map endpoint_address (polled u))"
      "mset (told (server_address z) (poll_endpoints u)) = add_mset address (mset (map connection_address (server_connections z)))"
      using register_ok [OF ok, of ?e] assms(2) fresh by auto
    then have "y = emits [Client_Accepted address] (z\<lparr>endpoint_table := u, server_connections := server_connections z @
        [\<lparr>connection_address = address, connection_fd = fd, connection_data = Some data\<rparr>]\<rparr>)"
      using y Some by (simp add: AcceptConnection_def emits_def)
    then show ?thesis
      using ok fd u(2-4) by (simp add: server_ok_def balanced_def)
  qed
qed

text \<open>Handling a message: an error before any callback, or the callback with its requests.\<close>

lemma ProcessInput_cases:
  assumes "connection_data c = Some d"
  obtains (no_callback) "ProcessInput received requests handled c x = Some (False, x)"
  | (callback) e where "ProcessInput received requests handled c x = map_option (Pair handled) (disconnect_all requests (emits [e] x))"
      "opened [e] = {#}" "closed [e] = {#}" "joined [e] = {#}" "departed [e] = {#}"
proof (cases received)
  case (Inl e)
  then show thesis using assms by (intro no_callback) (simp add: ProcessInput_def)
next
  case (Inr r)
  then obtain code m where r: "received = Inr (code, m)" by (cases r) simp
  consider "code = client_to_server_code REQUEST" | "code = client_to_server_code SEND" "code \<noteq> client_to_server_code REQUEST"
    | "code \<noteq> client_to_server_code REQUEST" "code \<noteq> client_to_server_code SEND" by blast
  then show thesis
  proof cases
    case 1
    with r assms show thesis by (intro callback [of "Request_Received d (connection_address c) m"]) (simp_all add: ProcessInput_def)
  next
    case 2
    with r assms show thesis by (intro callback [of "Send_Received d (connection_address c) m"]) (simp_all add: ProcessInput_def)
  next
    case 3
    with r assms show thesis by (intro no_callback) (simp add: ProcessInput_def)
  qed
qed

lemma withdraw_live:
  assumes "server_ok F z"
  shows "do { c \<leftarrow> live_connection a z; unregister True (connection_address c) z } = Some y \<Longrightarrow> server_ok F y"
    and "a \<in> connection_address ` set (server_connections z) \<Longrightarrow>
      do { c \<leftarrow> live_connection a z; unregister True (connection_address c) z } \<noteq> None"
proof -
  have result: "\<exists>y. unregister True (connection_address c) z = Some y \<and> server_ok F y" if "live_connection a z = Some c" for c
    using unregister_result [OF assms, of c] live_connection_Some [OF that] by blast
  show "server_ok F y" if w: "do { c \<leftarrow> live_connection a z; unregister True (connection_address c) z } = Some y"
  proof (cases "live_connection a z")
    case (Some c)
    with w result [OF Some] show ?thesis by (elim exE conjE) simp
  qed (use w in simp)
  show "do { c \<leftarrow> live_connection a z; unregister True (connection_address c) z } \<noteq> None"
    if l: "a \<in> connection_address ` set (server_connections z)"
  proof (cases "live_connection a z")
    case (Some c)
    with result [OF Some] show ?thesis by (elim exE conjE) simp
  qed (use l live_connection_None [of a z] in simp)
qed

lemma server_ok_input:
  assumes "server_ok F x" and "c \<in> set (server_connections x)"
  shows "connection_input received requests handled c x = Some y \<Longrightarrow> server_ok F y"
    and "distinct requests \<Longrightarrow> set requests \<subseteq> connection_address ` set (server_connections x) \<Longrightarrow>
      handled \<or> connection_address c \<notin> set requests \<Longrightarrow> connection_input received requests handled c x \<noteq> None"
proof -
  let ?input = "connection_input received requests handled c x"
  let ?withdraw = "\<lambda>z. do { c \<leftarrow> live_connection (connection_address c) z; unregister True (connection_address c) z }"
  obtain d where d: "connection_data c = Some d"
    using assms by (auto simp: server_ok_def list_all_iff)
  have "(?input = Some y \<longrightarrow> server_ok F y) \<and> (distinct requests \<longrightarrow> set requests \<subseteq> connection_address ` set (server_connections x) \<longrightarrow>
      handled \<or> connection_address c \<notin> set requests \<longrightarrow> ?input \<noteq> None)"
  proof (rule ProcessInput_cases [OF d, of received requests handled x])
    assume "ProcessInput received requests handled c x = Some (False, x)"
    then have "?input = ?withdraw x" by (simp add: connection_input_def)
    then show ?thesis using withdraw_live [OF assms(1)] assms(2) by (metis imageI)
  next
    fix e
    assume e: "ProcessInput received requests handled c x = map_option (Pair handled) (disconnect_all requests (emits [e] x))"
      "opened [e] = {#}" "closed [e] = {#}" "joined [e] = {#}" "departed [e] = {#}"
    have ok: "server_ok F (emits [e] x)" by (rule server_ok_emits [OF assms(1)]) (simp_all only: e(2-5))
    show ?thesis
    proof (cases "disconnect_all requests (emits [e] x)")
      case None
      then show ?thesis using disconnect_all_returns [OF ok, of requests] by (auto simp: connection_input_def e(1))
    next
      case (Some z)
      note z = disconnect_all_ok [OF Some ok]
      have "?input = (if handled then Some z else ?withdraw z)" by (simp add: connection_input_def e(1) Some)
      moreover have "connection_address c \<in> connection_address ` set (server_connections z)" if "connection_address c \<notin> set requests"
        using z assms(2) that by simp
      ultimately show ?thesis using z withdraw_live [of F z "connection_address c"] by (cases handled) auto
    qed
  qed
  then show "?input = Some y \<Longrightarrow> server_ok F y" "distinct requests \<Longrightarrow> set requests \<subseteq> connection_address ` set (server_connections x) \<Longrightarrow>
      handled \<or> connection_address c \<notin> set requests \<Longrightarrow> ?input \<noteq> None" by blast+
qed

text \<open>
  A callback that disconnects the client whose message it handles and then reports an error makes the code
  use the connection that is gone.
\<close>

lemma own_disconnect_then_error:
  assumes "server_ok {#} x" and "c \<in> set (server_connections x)" and "code = client_to_server_code REQUEST \<or> code = client_to_server_code SEND"
  shows "connection_input (Inr (code, message)) [connection_address c] False c x = None"
proof -
  obtain d where d: "connection_data c = Some d"
    using assms by (auto simp: server_ok_def list_all_iff)
  have gone: "live_connection (connection_address c) z = None" if "disconnect_all [connection_address c] (emits [e] x) = Some z"
    and "opened [e] = {#}" "closed [e] = {#}" "joined [e] = {#}" "departed [e] = {#}" for e z
    using disconnect_all_ok [OF that(1) server_ok_emits [OF assms(1)]] that(2-5) by (auto simp: live_connection_None)
  define e where "e = (if code = client_to_server_code REQUEST then Request_Received d (connection_address c) message
    else Send_Received d (connection_address c) message)"
  have "ProcessInput (Inr (code, message)) [connection_address c] False c x =
      map_option (Pair False) (disconnect_all [connection_address c] (emits [e] x))"
    using assms(3) d by (auto simp: ProcessInput_def e_def simp del: disconnect_all.simps)
  then show ?thesis
    using gone [of e] by (cases "disconnect_all [connection_address c] (emits [e] x)") (auto simp: connection_input_def e_def simp del: disconnect_all.simps)
qed

lemma withdrawn_table:
  "told s (map (withdrawn s) es) = []"
  "List.map_filter id (map (withdrawn s) es) = filter (\<lambda>e. endpoint_owner e \<noteq> s) (List.map_filter id es)"
proof (induction es)
  case (Cons e es)
  {
    case 1
    then show ?case using Cons by (cases e) (auto simp: withdrawn_def)
  next
    case 2
    then show ?case using Cons by (cases e) (auto simp: withdrawn_def)
  }
qed simp_all

lemma StopListening_result:
  assumes ok: "server_ok F x"
  shows "\<exists>y. StopListening x = Some y \<and> server_ok F y \<and> server_connections y = [] \<and> server_fd y = - 1"
proof (cases "server_fd x = - 1")
  case True
  then show ?thesis
    using ok by (simp add: StopListening_def server_ok_def)
next
  case False
  let ?s = "server_address x" and ?t = "endpoint_table x"
  let ?queue = "filter (\<lambda>e. entry_owner e \<noteq> Some ?s) (listener_commands x)"
  obtain t where t: "Engine_ProcessCleanup ?s (?t, listener_commands x) = Some (t, ?queue)" "table_ok t"
    "poll_endpoints t = map (withdrawn ?s) (poll_endpoints ?t)" "disconnected t = disconnected ?t @ told ?s (poll_endpoints ?t)"
    using cleanup_withdraws_owner [of ?t ?s "listener_commands x"] ok by (auto simp: server_ok_def)
  let ?x = "x\<lparr>listener_commands := ?queue, endpoint_table := t\<rparr>"
  have "balanced F ?x" "list_all (\<lambda>c. connection_data c \<noteq> None) (server_connections ?x)"
    "distinct (map connection_address (server_connections ?x))" "distinct (told ?s (poll_endpoints ?t))"
    "set (told ?s (poll_endpoints ?t)) \<subseteq> connection_address ` set (server_connections ?x)"
    using ok server_ok_addresses [OF ok] told_distinct by (auto simp: server_ok_def balanced_def)
  then obtain y where y: "destroy_connections (told ?s (poll_endpoints ?t)) ?x = Some y" "balanced F y"
    "server_connections y = []" "endpoint_table y = t" "server_address y = ?s" "server_fd y = server_fd x"
    using destroy_connections_result [of F ?x "told ?s (poll_endpoints ?t)"] server_ok_addresses(2) [OF ok] by auto
  have "distinct (map endpoint_address (polled t))"
    using ok t(3) by (simp add: withdrawn_table server_ok_def distinct_map_filter)
  then have "server_ok F ((emits [Fd_Closed (server_fd y)] y)\<lparr>server_fd := - 1\<rparr>)"
    using ok y t(2,3) False by (simp add: server_ok_def balanced_def withdrawn_table)
  then show ?thesis
    using ok False t y by (auto simp: StopListening_def with_table_def server_ok_def)
qed

lemma server_ok_start:
  "server_ok F x \<Longrightarrow> server_fd x = - 1 \<Longrightarrow> 0 \<le> fd \<Longrightarrow> StartListening (Inr fd) bound listening x = (r, y) \<Longrightarrow> server_ok F y"
  by (auto simp: StartListening_def Let_def server_ok_def balanced_def split: option.splits)

lemma server_ok_step: "server_step x y \<Longrightarrow> server_ok {#} x \<Longrightarrow> server_ok {#} y"
proof (induction rule: server_step.induct)
  case (start x fd bound listening r y)
  then show ?case by (blast intro: server_ok_start)
next
  case (listen x e rest y)
  then show ?case by (blast intro: server_ok_listen)
next
  case (connect x fd address credentials requests d y)
  then show ?case by (blast intro: server_ok_connect)
next
  case (input c x received requests handled y)
  then show ?case using server_ok_input(1) [of "{#}" x c received requests handled] by simp
next
  case (disconnect c x y)
  then show ?case using unregister_result [of "{#}" x c] by (auto simp: RequestDisconnect_def)
next
  case (stop x y)
  then show ?case using StopListening_result [of "{#}" x] by auto
qed

lemma server_ok_run: "server_step\<^sup>*\<^sup>* x y \<Longrightarrow> server_ok {#} x \<Longrightarrow> server_ok {#} y"
  by (induction rule: rtranclp_induct) (blast intro: server_ok_step)+

lemma server_ok_UnixDomainServer:
  assumes "table_ok t" and "distinct (map endpoint_address (polled t))" and "list_all (\<lambda>e. endpoint_owner e \<noteq> address) (polled t)"
  shows "server_ok {#} (UnixDomainServer address listener send_size reply_size notify_size t)"
proof -
  have "told address (poll_endpoints t) = []"
    using assms(3) by (auto simp: told_def list_all_iff filter_empty_conv)
  then show ?thesis
    using assms(1,2) by (simp add: server_ok_def balanced_def UnixDomainServer_def)
qed

text \<open>
  C33. A server leaks nothing and closes nothing twice. In every run of operations that return, callbacks
  that request to disconnect clients included, the descriptors that were opened are those that were closed,
  those of the present connections and the one it listens on; the clients that were accepted are those that
  were reported as disconnected, each once, and those of the present connections. Every present connection
  can be disconnected at any time on the thread of the engine; on another thread the request ends the
  process. A message of a present connection is handled whatever present connections its callback
  disconnects, each once, unless the callback disconnects the connection itself and reports an error. After
  stopping, every descriptor has been closed and every client reported.
\<close>

theorem server_closes_what_it_opened:
  assumes "table_ok t" and "distinct (map endpoint_address (polled t))" and "list_all (\<lambda>e. endpoint_owner e \<noteq> address) (polled t)"
    and "server_step\<^sup>*\<^sup>* (UnixDomainServer address listener send_size reply_size notify_size t) x"
  shows "opened (server_events x) = closed (server_events x) + mset (map connection_fd (server_connections x)) +
      (if server_fd x = - 1 then {#} else {#server_fd x#}) \<and>
    joined (server_events x) = departed (server_events x) + mset (map connection_address (server_connections x)) \<and>
    list_all (\<lambda>c. (\<exists>y. RequestDisconnect True c x = Some y \<and>
        server_connections y = filter (\<lambda>d. connection_address d \<noteq> connection_address c) (server_connections x)) \<and>
      RequestDisconnect False c x = None \<and>
      (distinct requests \<and> set requests \<subseteq> connection_address ` set (server_connections x) \<and>
         (handled \<or> connection_address c \<notin> set requests) \<longrightarrow> connection_input received requests handled c x \<noteq> None))
      (server_connections x) \<and>
    (\<exists>y. StopListening x = Some y \<and> opened (server_events y) = closed (server_events y) \<and>
      joined (server_events y) = departed (server_events y))"
proof -
  have ok: "server_ok {#} x"
    by (rule server_ok_run [OF assms(4) server_ok_UnixDomainServer [OF assms(1-3)]])
  obtain y where y: "StopListening x = Some y" "server_ok {#} y" "server_connections y = []" "server_fd y = - 1"
    using StopListening_result [OF ok] by blast
  then have "opened (server_events y) = closed (server_events y)" "joined (server_events y) = departed (server_events y)"
    by (simp_all add: server_ok_def balanced_def)
  moreover have "\<exists>y. RequestDisconnect True c x = Some y \<and>
      server_connections y = filter (\<lambda>d. connection_address d \<noteq> connection_address c) (server_connections x)"
    "RequestDisconnect False c x = None" if "c \<in> set (server_connections x)" for c
    using unregister_result [OF ok that] by (auto simp: RequestDisconnect_def unregister_def Engine_UnregisterPosixEndpoint_def)
  ultimately show ?thesis
    using ok y(1) server_ok_input(2) [OF ok] by (simp add: server_ok_def balanced_def list_all_iff)
qed

text \<open>A server that listens and has accepted a client.\<close>

definition example_server :: unix_domain_server where
  "example_server = UnixDomainServer 1 2 8 8 8
     \<lparr>poll_fds = [], poll_endpoints = [], posix_endpoint_list = [], receive_buffer_size = 0, disconnected = []\<rparr>"

definition example_listening :: unix_domain_server where
  "example_listening = snd (StartListening (Inr 3) None None example_server)"

definition example_accepted :: "unix_domain_server option" where
  "example_accepted = ProcessConnect (Inr 4) True 5 [] (Some Plain_Data) example_listening"

lemma example_server_run: "\<exists>x. example_accepted = Some x \<and> server_step\<^sup>*\<^sup>* example_server x \<and> map connection_fd (server_connections x) = [4]"
proof -
  have "server_step example_server example_listening"
    by (rule server_step.start [of _ 3 None None "Inr ()"])
      (simp_all add: example_server_def UnixDomainServer_def example_listening_def StartListening_def)
  moreover obtain x where x: "example_accepted = Some x" "map connection_fd (server_connections x) = [4]"
    by (simp add: example_accepted_def example_listening_def example_server_def UnixDomainServer_def StartListening_def
        ProcessConnect_def AcceptConnection_def RegisterPosixEndpoint_def emits_def)
  moreover have "server_step example_listening x"
    by (rule server_step.connect [of _ 4 5 True "[]" "Some Plain_Data"])
      (use x(1) in \<open>simp_all add: example_accepted_def\<close>,
       simp_all add: example_listening_def example_server_def UnixDomainServer_def StartListening_def fresh_def emits_def)
  ultimately show ?thesis
    by (meson converse_rtranclp_into_rtranclp r_into_rtranclp)
qed

theorem server_closes_what_it_opened_witness:
  "\<exists>x y. example_accepted = Some x \<and> map connection_fd (server_connections x) = [4] \<and> StopListening x = Some y \<and>
    opened (server_events y) = closed (server_events y) \<and> joined (server_events y) = departed (server_events y)"
proof -
  let ?t = "\<lparr>poll_fds = [], poll_endpoints = [], posix_endpoint_list = [], receive_buffer_size = 0, disconnected = []\<rparr>"
  obtain x where x: "example_accepted = Some x" "server_step\<^sup>*\<^sup>* (UnixDomainServer 1 2 8 8 8 ?t) x"
    "map connection_fd (server_connections x) = [4]"
    using example_server_run [unfolded example_server_def] by (elim exE conjE) (rule that)
  have t: "table_ok ?t" "distinct (map endpoint_address (polled ?t))" "list_all (\<lambda>e. endpoint_owner e \<noteq> 1) (polled ?t)"
    by (simp_all add: table_ok_def)
  obtain y where y: "StopListening x = Some y" "opened (server_events y) = closed (server_events y)"
    "joined (server_events y) = departed (server_events y)"
    using server_closes_what_it_opened [OF t x(2), where requests = "[]" and handled = True and received = "Inr (0, [])"] by (elim conjE exE) (rule that)
  show ?thesis
    by (intro exI [of _ x] exI [of _ y] conjI x(1,3) y)
qed

end
