(* ===== verification/Client_Cache.thy ===== *)
theory Client_Cache
  imports Client_Connection Event_Notification Service_Identifiers
begin

text \<open>
  \<^verbatim>\<open>messaging/message_passing_client_cache.h/.cpp\<close>: the connections of a process to the others, one per process.

  The client factory and the states that its connections report are parameters, since connections change on threads
  of their own: each answer may depend on how much has happened before. What the cache asks and orders is recorded. A
  call runs under the lock of the cache.
\<close>

datatype 'k cache_event =
    Client_Created string client_config 'k
  | Client_Started 'k
  | Client_Observed 'k connection_state
  | Client_Stopped 'k

record 'k client_cache =
  cache_level :: client_quality_type
  clients :: "int \<rightharpoonup> 'k"
  cache_events :: "'k cache_event list"

record 'k connections =
  created_client :: "nat \<Rightarrow> 'k"
  observed_state :: "nat \<Rightarrow> 'k \<Rightarrow> connection_state"

definition MessagePassingClientCache :: "client_quality_type \<Rightarrow> 'k client_cache" where
  "MessagePassingClientCache level = \<lparr>cache_level = level, clients = Map.empty, cache_events = []\<rparr>"

definition signed_decimal :: "int \<Rightarrow> string" where
  "signed_decimal i = (if i < 0 then CHR ''-'' # decimal (nat (- i)) else decimal (nat i))"

definition CreateMessagePassingName :: "client_quality_type \<Rightarrow> int \<Rightarrow> string" where
  "CreateMessagePassingName level node_id =
     ''LoLa_2_'' @ signed_decimal node_id @ (if level \<noteq> client_quality_type.kASIL_B then ''_QM'' else ''_ASIL_B'')"

definition kStateTryAttempts :: nat where
  "kStateTryAttempts = 10"

definition note_event :: "'k cache_event \<Rightarrow> 'k client_cache \<Rightarrow> 'k client_cache" where
  "note_event e x = x\<lparr>cache_events := cache_events x @ [e]\<rparr>"

definition observe :: "'k connections \<Rightarrow> 'k \<Rightarrow> 'k client_cache \<Rightarrow> connection_state \<times> 'k client_cache" where
  "observe p k x =
     (let state = observed_state p (length (cache_events x)) k in (state, note_event (Client_Observed k state) x))"

text \<open>The loop that waits for a new connection, with the attempts that are left.\<close>

fun await_started :: "'k connections \<Rightarrow> nat \<Rightarrow> 'k \<Rightarrow> 'k client_cache \<Rightarrow> 'k client_cache" where
  "await_started p 0 k x = x"
| "await_started p (Suc n) k x =
     (case observe p k x of (state, x) \<Rightarrow>
        if state = kReady then x
        else if state \<noteq> kStarting then x
        else await_started p n k x)"

definition CreateNewClient :: "'k connections \<Rightarrow> int \<Rightarrow> 'k client_cache \<Rightarrow> 'k \<times> 'k client_cache" where
  "CreateNewClient p target x =
     (let name = CreateMessagePassingName (cache_level x) target;
          fully_async = (cache_level x = kASIL_QMfromB);
          config = \<lparr>max_async_replies = 0, max_queued_sends = 20, fully_ordered = False, truly_async = fully_async,
                    sync_first_connect = False\<rparr>;
          k = created_client p (length (cache_events x));
          x = note_event (Client_Started k) (note_event (Client_Created name config k) x)
      in (k, await_started p kStateTryAttempts k x))"

definition GetMessagePassingClient :: "'k connections \<Rightarrow> int \<Rightarrow> 'k client_cache \<Rightarrow> ('k \<times> 'k client_cache) option" where
  "GetMessagePassingClient p target x =
     (let emplace = (\<lambda>x. case CreateNewClient p target x of (k, x) \<Rightarrow> do {
            assert_prd (clients x target = None);
            Some (k, x\<lparr>clients := (clients x)(target \<mapsto> k)\<rparr>)
          })
      in case clients x target of
           None \<Rightarrow> emplace x
         | Some k \<Rightarrow>
             (case observe p k x of (state, x) \<Rightarrow>
                if state = kReady then Some (k, x)
                else emplace ((note_event (Client_Stopped k) x)\<lparr>clients := (clients x)(target := None)\<rparr>)))"

text \<open>The loop that waits for a stopped connection; the process ends when the attempts are used up.\<close>

fun await_stopped :: "'k connections \<Rightarrow> nat \<Rightarrow> 'k \<Rightarrow> 'k client_cache \<Rightarrow> 'k client_cache option" where
  "await_stopped p n k x =
     (case observe p k x of (state, x) \<Rightarrow>
        if state = kStopped then Some x
        else if n \<le> 1 then None
        else await_stopped p (n - 1) k x)"

declare await_stopped.simps [simp del]

definition RemoveMessagePassingClient :: "'k connections \<Rightarrow> int \<Rightarrow> 'k client_cache \<Rightarrow> 'k client_cache option" where
  "RemoveMessagePassingClient p target x =
     (case clients x target of
        None \<Rightarrow> Some x
      | Some k \<Rightarrow> do {
          x \<leftarrow> await_stopped p kStateTryAttempts k (note_event (Client_Stopped k) x);
          Some (x\<lparr>clients := (clients x)(target := None)\<rparr>)
        })"

subsection \<open>The cached client\<close>

lemma note_event_simps [simp]:
  "clients (note_event e x) = clients x"
  "cache_level (note_event e x) = cache_level x"
  "cache_events (note_event e x) = cache_events x @ [e]"
  by (simp_all add: note_event_def)

definition observations :: "'k client_cache \<Rightarrow> nat" where
  "observations x = length (filter (\<lambda>e. case e of Client_Observed _ _ \<Rightarrow> True | _ \<Rightarrow> False) (cache_events x))"

lemma observations_note [simp]:
  "observations (note_event e x) = observations x + (case e of Client_Observed _ _ \<Rightarrow> 1 | _ \<Rightarrow> 0)"
  by (simp add: observations_def split: cache_event.split)

lemma await_started_simps:
  "clients (await_started p n k x) = clients x \<and> observations (await_started p n k x) \<le> observations x + n"
  by (induction n arbitrary: x) (auto simp: observe_def Let_def intro: le_trans dest: meta_spec)

lemma await_started_keeps: "set (cache_events x) \<subseteq> set (cache_events (await_started p n k x))"
proof (induction n arbitrary: x)
  case (Suc n)
  then show ?case
    using Suc [of "note_event (Client_Observed k (observed_state p (length (cache_events x)) k)) x"]
    by (auto simp: observe_def Let_def)
qed simp

lemma CreateNewClient_result:
  assumes "CreateNewClient p target x = (k, y)"
  shows "clients y = clients x" and "observations y \<le> observations x + 10" and "set (cache_events x) \<subseteq> set (cache_events y)"
proof -
  obtain name config where y: "y = await_started p 10 k (note_event (Client_Started k) (note_event (Client_Created name config k) x))"
    using assms by (auto simp: CreateNewClient_def Let_def kStateTryAttempts_def)
  let ?x = "note_event (Client_Started k) (note_event (Client_Created name config k) x)"
  show "clients y = clients x" and "observations y \<le> observations x + 10"
    using await_started_simps [of p 10 k ?x] by (simp_all only: y note_event_simps observations_note cache_event.case add_0_right)
  show "set (cache_events x) \<subseteq> set (cache_events y)"
    using await_started_keeps [of ?x p 10 k] by (auto simp only: y note_event_simps set_append)
qed

text \<open>
  Asking for the client of a process always returns one, within eleven looks at connection states: it is the
  cached client if that is ready, and otherwise a new one, which replaces an old one that has been told to stop. The returned client is
  the cached one afterwards, and those of other processes are untouched.
\<close>

lemma client_is_cached:
  "\<exists>k y. GetMessagePassingClient p target x = Some (k, y) \<and> clients y = (clients x)(target \<mapsto> k) \<and>
    observations y \<le> observations x + 11 \<and>
    (case clients x target of
       None \<Rightarrow> True
     | Some old \<Rightarrow>
         if observed_state p (length (cache_events x)) old = kReady then k = old
         else Client_Stopped old \<in> set (cache_events y))"
proof (cases "\<exists>old. clients x target = Some old \<and> observed_state p (length (cache_events x)) old = kReady")
  case True
  then show ?thesis
    by (auto simp: GetMessagePassingClient_def observe_def Let_def fun_upd_idem)
next
  case False
  define z where "z = (case clients x target of
      None \<Rightarrow> x
    | Some old \<Rightarrow> (note_event (Client_Stopped old) (snd (observe p old x)))\<lparr>clients := (clients x)(target := None)\<rparr>)"
  obtain k y where y: "CreateNewClient p target z = (k, y)"
    by (cases "CreateNewClient p target z")
  have z: "clients z = (clients x)(target := None)" "observations z \<le> observations x + 1"
    "\<And>old. clients x target = Some old \<Longrightarrow> Client_Stopped old \<in> set (cache_events z)"
    by (auto simp: z_def observe_def Let_def fun_upd_idem observations_def split: option.split)
  have "GetMessagePassingClient p target x = Some (k, y\<lparr>clients := (clients y)(target \<mapsto> k)\<rparr>)"
    using False y z(1) CreateNewClient_result(1) [OF y]
    by (auto simp: GetMessagePassingClient_def z_def observe_def Let_def split: option.splits)
  then show ?thesis
    using False z CreateNewClient_result [OF y] by (auto simp: observations_def split: option.split)
qed

lemma await_stopped_result:
  "await_stopped p n k x = Some y \<Longrightarrow> clients y = clients x \<and> Client_Observed k kStopped \<in> set (cache_events y)"
proof (induction p n k x rule: await_stopped.induct)
  case (1 p n k x)
  let ?s = "observed_state p (length (cache_events x)) k"
  show ?case
    using 1 by (auto simp: await_stopped.simps [of p n k x] observe_def Let_def split: if_splits)
qed

text \<open>A removed client has been told to stop and was seen stopped; the others stay.\<close>

lemma removed_client_has_stopped:
  assumes "RemoveMessagePassingClient p target x = Some y" and "clients x target = Some k"
  shows "clients y = (clients x)(target := None) \<and> Client_Observed k kStopped \<in> set (cache_events y)"
  using assms await_stopped_result [of p kStateTryAttempts k "note_event (Client_Stopped k) x"]
  by (auto simp: RemoveMessagePassingClient_def split: bind_splits)

end
