(* ===== verification/Spec2Isabelle.thy ===== *)
theory Spec2Isabelle
  imports Slot_Collector Path_Builders Rollback_Executor Methods Notification_Link Subscription_Lifecycle
    Client_Protocol Unix_Domain_Server Client_Cache
begin

text \<open>
  A verification library for the inter-process communication middleware under
  \<^verbatim>\<open>src/score\<close>: the shared-memory binding \<^verbatim>\<open>mw/com/impl/bindings/lola\<close> and the
  message passing it uses. Paths below are relative to that binding unless they start with
  \<^verbatim>\<open>impl/\<close> (then \<^verbatim>\<open>src/score/mw/com/impl\<close>) or with \<^verbatim>\<open>message_passing/\<close>
  (then \<^verbatim>\<open>src/score/message_passing\<close>).

  \<^bold>\<open>The program.\<close> A skeleton (provider) places the samples of an event in slots of
  shared memory, and the state of each slot in an atomic word beside them. A proxy (consumer)
  takes references on the slots that are new to it and gives them back later. Provider and
  consumers run in different processes, without locks between them, and any of them may crash
  at any instruction: a consumer therefore writes every change of a reference count into a
  transaction log in shared memory first, and its successor rolls the log back. A provider that
  serves QM and ASIL-B consumers keeps one control structure for each quality and must survive
  whatever QM participants write into theirs. Beside the shared memory, processes send each
  other messages: to be notified of new samples, to call methods, and about processes that
  have gone.

  \<^bold>\<open>How it is modelled.\<close> \<open>Lola_Prelude\<close> fixes the conventions. Machine integers
  are words of their width; \<open>None\<close> of the option monad is the end of the process, by
  \<^verbatim>\<open>std::terminate\<close>, a failed assertion or undefined behaviour that the text of the
  definition names; a \<^verbatim>\<open>Result\<close> is a sum. \<open>Atomics\<close> models the shared memory: an
  environment says what all other participants do before each atomic access of the modelled
  call, without restriction, and which weak exchanges fail spuriously. So a theorem for every
  environment holds for every interleaving; \<open>quiet\<close> is the environment without interference,
  used where the theorem says what a call computes on its own. The own writes of a call are
  recorded, and a crash is a prefix of them.

  \<^bold>\<open>The data path of events.\<close>
  \<^item> \<open>Event_Slot_Status\<close>: \<^verbatim>\<open>event_slot_status\<close>, the word of a slot.
  \<^item> \<open>Provider_Control\<close>, \<open>Consumer_Control\<close>, \<open>Control_Composite\<close>:
    \<^verbatim>\<open>provider_event_data_control_local_view\<close>, \<^verbatim>\<open>consumer_event_data_control_local_view\<close>,
    \<^verbatim>\<open>event_data_control_composite\<close>: allocating, publishing, referencing, dereferencing.
  \<^item> \<open>Transaction_Log\<close>, \<open>Transaction_Log_Set\<close>: \<^verbatim>\<open>transaction_log_local_view\<close>,
    \<^verbatim>\<open>transaction_log_set\<close>, \<^verbatim>\<open>transaction_log_registration_guard\<close>: logging and rolling back,
    and who owns which log.
  \<^item> \<open>Subscription_Control\<close>: \<^verbatim>\<open>event_subscription_control\<close>, the packed count of
    subscribers and samples, against the multiset of subscriptions, over all histories of concurrent calls.
  \<^item> \<open>Event_Memory\<close>: \<^verbatim>\<open>event_control\<close>, \<^verbatim>\<open>event_data_control\<close> and
    \<^verbatim>\<open>transaction_log\<close>, the memory that all of these share, and the interpretations of
    the memory locales on it.
  \<^item> \<open>Event_Data_Path\<close>: the properties of the data path. What is allocated was unused;
    a reference is taken once and of the newest sample; the rollback after a crash at any
    write undoes exactly what the log records; occupied QM slots do not stop the ASIL-B side.
  \<^item> \<open>Slot_Collector\<close>: \<^verbatim>\<open>slot_collector\<close>, \<^verbatim>\<open>slot_decrementer\<close>: delivery in order
    and the way back of the references.

  \<^bold>\<open>The life of a proxy.\<close>
  \<^item> \<open>Pid_Mapping\<close>, \<open>Rollback_Executor\<close>: \<^verbatim>\<open>application_id_pid_mapping\<close>,
    \<^verbatim>\<open>transaction_log_rollback_executor\<close>, \<^verbatim>\<open>rollback_synchronization\<close>: what a restarted
    process finds out about its predecessor, and what it cleans up: each proxy frees one marked log of an event,
    as many proxies as there are marked logs free all of them.
  \<^item> \<open>Subscription_State_Machine\<close>, \<open>Subscription_Lifecycle\<close>:
    \<^verbatim>\<open>subscription_state_machine\<close> with its states, \<^verbatim>\<open>subscription_helpers\<close> and
    \<^verbatim>\<open>proxy_event_common\<close>: every call refines a contract over the sample count and the
    availability of the service; without interference, when a subscription fails and what exactly it then leaves in
    the memory, and that withdrawing one undoes it.

  \<^bold>\<open>Messages.\<close>
  \<^item> \<open>Error_Codes\<close>, \<open>Com_Error\<close>: \<^verbatim>\<open>impl/com_error\<close>, \<^verbatim>\<open>impl/error_serializer\<close>,
    \<^verbatim>\<open>methods/method_error\<close>.
  \<^item> \<open>Event_Notification\<close>, \<open>Notification_Protocol\<close>, \<open>Notification_Link\<close>: the event part
    of \<^verbatim>\<open>messaging/message_passing_service_instance\<close>, in one process, over runs of
    calls, and between two processes that keep their ids.
  \<^item> \<open>Method_Messages\<close>: its method part; a remote call over an open connection is a local one, and which errors
    close the connection.
  \<^item> \<open>Message_Service\<close>: \<^verbatim>\<open>messaging/message_passing_service\<close> and the registration guards.
  \<^item> \<open>Client_Cache\<close>: \<^verbatim>\<open>messaging/message_passing_client_cache\<close>, the connection of each process.

  \<^bold>\<open>Connections.\<close>
  \<^item> \<open>Timed_Command_Queue\<close>: \<^verbatim>\<open>message_passing/timed_command_queue\<close>, the commands of an engine's thread,
    which run in the order of their times.
  \<^item> \<open>Client_Connection\<close>, \<open>Client_Protocol\<close>: \<^verbatim>\<open>message_passing/client_connection\<close>. Messages leave in
    order and accepted requests are answered once; a concurrent send, a stop with a full queue and a stop
    during connecting are where this ends.
  \<^item> \<open>Unix_Domain_Engine\<close>: \<^verbatim>\<open>message_passing/unix_domain/unix_domain_engine\<close>: frames survive the
    stream, the endpoints of an owner are withdrawn, and how long the thread sleeps.
  \<^item> \<open>Unix_Domain_Server\<close>: \<^verbatim>\<open>message_passing/unix_domain/unix_domain_server\<close>: over all runs of
    a server, callbacks that disconnect clients included, every descriptor and every client that came in goes out once.

  \<^bold>\<open>Identifiers, names and methods.\<close>
  \<^item> \<open>Service_Identifiers\<close>, \<open>Path_Builders\<close>: the identifiers with their order and hash, and
    the names of shared-memory objects and marker files, which are injective.
  \<^item> \<open>Methods\<close>: \<^verbatim>\<open>methods/offered_state_machine\<close>, \<^verbatim>\<open>methods/type_erased_call_queue\<close>,
    \<^verbatim>\<open>methods/method_resource_map\<close>.

  \<^bold>\<open>Interfaces.\<close> What one part relies on from another is a locale, interpreted on the model
  itself: \<open>atomic_object\<close> and \<open>atomic_span\<close> (reading after writing), \<open>log_memory\<close>,
  \<open>consumer_memory\<close>, \<open>composite_memory\<close>, \<open>log_set_memory\<close> and \<open>pid_memory\<close> (the objects of a
  view are distinct), \<open>object_layout\<close> (an object survives being copied into a message) and
  \<open>error_enumeration\<close> (the numbers of the error codes).

  \<^bold>\<open>Bounds.\<close> Every loop has the bound of the code: 100 attempts to allocate, to allocate in
  both controls and to reference, 50 to register a process, 10 polls of a transaction end,
  twice and three times the number of subscribers to subscribe and to withdraw, 255 rounds of
  notifications, 10 looks at a connection. There is no fuel beside them, and the theorems say what is returned
  when a bound is reached. The other recursions are over lists or have a measure, except three loops that
  callbacks or other threads may keep busy for ever: processing the command queue, sending the send queue and
  dropping it are partial functions, and the theorems about them include that they return.

  \<^bold>\<open>Parameters.\<close> The representation of objects as bytes is a layout of the platform. The
  handlers that users register, whether they still exist, and what another process answers to
  a message are arguments of the definitions.
  What the operating system answers when a connection is opened or a message is sent, the clock, the states
  that connections report to the cache, and what callbacks and other threads do to a connection while its
  lock is released, are functions of how much has happened before.

  \<^bold>\<open>Not modelled.\<close> Memory ordering weaker than sequential consistency is not: an atomic access
  takes effect at once. Logging and performance counters that are only printed have no effect on
  the results. The following parts are left out. The parsers of the configuration and of the
  trace filter (\<^verbatim>\<open>impl/configuration\<close>, \<^verbatim>\<open>impl/tracing\<close>) walk over objects of a JSON
  library that is not part of the sources. The engine and the server of \<^verbatim>\<open>message_passing/qnx_dispatch\<close>
  and the sockets, pipe and thread of the engine on Unix domain sockets are sequences of system calls. The
  destructor of a client connection stops it and sleeps until it has stopped. Opening and mapping the
  shared-memory files (\<^verbatim>\<open>skeleton_memory_manager\<close>, \<^verbatim>\<open>proxy.cpp\<close>, \<^verbatim>\<open>skeleton.cpp\<close>) and
  service discovery over the file system (\<^verbatim>\<open>service_discovery\<close>) depend on operating-system
  and memory libraries outside the sources. The user-facing templates of \<^verbatim>\<open>impl\<close> and
  \<^verbatim>\<open>impl/plumbing\<close> forward to the binding and have no state of their own beyond it, and the
  Rust interface is a translation of their types.
\<close>

end
